(* ===== verification/Prelude.thy ===== *)
theory Prelude
  imports Main "HOL-Library.Word"
begin

text \<open>
  Shared vocabulary of the development: the machine integer types of the C source, the
  loop shapes the source uses over and over (first match in an array, a counted loop on an
  unsigned 64-bit index), C strings as character lists, and the list and word lemmas the
  component theories rest on.
\<close>

unbundle bit_operations_syntax

type_synonym u8 = "8 word"
type_synonym u16 = "16 word"
type_synonym u32 = "32 word"
type_synonym u64 = "64 word"

named_theorems word_nat_simps \<open>moving 64-bit arithmetic to natural numbers\<close>


section \<open>First match in an array\<close>

text \<open>
  The loop \<^verbatim>\<open>for (i = 0; i < n; i++) if (P(a[i])) return i;\<close> over a whole array. \<open>None\<close> is
  the exit after the loop.
\<close>

primrec first_index :: "('a \<Rightarrow> bool) \<Rightarrow> 'a list \<Rightarrow> nat option" where
  "first_index P [] = None"
| "first_index P (x # xs) = (if P x then Some 0 else map_option Suc (first_index P xs))"

lemma first_index_None_iff: "first_index P xs = None \<longleftrightarrow> (\<forall>x \<in> set xs. \<not> P x)"
  by (induction xs) auto

lemma first_index_Some_iff:
  "first_index P xs = Some i \<longleftrightarrow> i < length xs \<and> P (xs ! i) \<and> (\<forall>j < i. \<not> P (xs ! j))"
proof (induction xs arbitrary: i)
  case Nil
  then show ?case by simp
next
  case (Cons x xs)
  show ?case
    by (cases i) (auto simp: Cons.IH nth_Cons split: nat.splits)
qed

lemma first_index_SomeD:
  assumes "first_index P xs = Some i"
  shows "i < length xs" and "P (xs ! i)" and "j < i \<Longrightarrow> \<not> P (xs ! j)"
  using assms by (auto simp: first_index_Some_iff)

lemma first_index_ex:
  assumes "i < length xs" and "P (xs ! i)"
  shows "\<exists>j \<le> i. first_index P xs = Some j"
proof (cases "first_index P xs")
  case None
  with assms show ?thesis by (auto simp: first_index_None_iff)
next
  case (Some j)
  then have "j \<le> i"
    using assms(2) by (metis first_index_SomeD(3) linorder_not_less)
  with Some show ?thesis by blast
qed


section \<open>Words as natural numbers\<close>

lemma and_exp_eq_0: "(w AND 2 ^ j = 0) = (\<not> bit w j)" for w :: "'a::len word"
  by (simp add: bit_iff_and_push_bit_not_eq_0)

lemma unat_add_u64 [word_nat_simps]:
  fixes a b :: u64
  assumes "unat a + unat b < 2 ^ 64"
  shows "unat (a + b) = unat a + unat b"
  using assms by (simp add: unat_word_ariths)

lemma unat_mult_u64 [word_nat_simps]:
  fixes a b :: u64
  assumes "unat a * unat b < 2 ^ 64"
  shows "unat (a * b) = unat a * unat b"
  using assms by (simp add: unat_word_ariths)

lemma unat_sub_u64 [word_nat_simps]:
  fixes a b :: u64
  assumes "b \<le> a"
  shows "unat (a - b) = unat a - unat b"
  using assms by (rule unat_sub)

lemma unat_less_2p64 [simp]: "unat (a :: u64) < 18446744073709551616"
  using unsigned_less [of a] by simp

lemma unat_of_nat_u64 [word_nat_simps]:
  assumes "n < 2 ^ 64"
  shows "unat (of_nat n :: u64) = n"
  using assms by (simp add: unat_of_nat)

lemma unat_plus1_less:
  fixes a b :: u64
  assumes "a < b"
  shows "unat (a + 1) = Suc (unat a)"
proof -
  have "unat a < unat b"
    using assms by (simp add: word_less_nat_alt)
  then have "Suc (unat a) < 18446744073709551616"
    using unat_less_2p64 [of b] by linarith
  then show ?thesis by (simp add: unat_word_ariths)
qed


section \<open>Counted loops on an unsigned index\<close>

text \<open>
  \<^verbatim>\<open>for (uint64_t i = a; i < b; i++) s = f(i, s);\<close> where the body changes neither \<open>i\<close> nor
  \<open>b\<close>. The guard keeps the increment from wrapping.
\<close>

function word_for :: "u64 \<Rightarrow> u64 \<Rightarrow> (u64 \<Rightarrow> 's \<Rightarrow> 's) \<Rightarrow> 's \<Rightarrow> 's" where
  "word_for a b f s = (if a < b then word_for (a + 1) b f (f a s) else s)"
  by pat_completeness auto
termination
proof (relation "measure (\<lambda>(a, b, f, s). unat b - unat a)")
  fix a b :: u64
  assume "a < b"
  then have "unat (a + 1) = Suc (unat a)" and "unat a < unat b"
    by (simp_all add: unat_plus1_less word_less_nat_alt)
  then show "\<And>f s s'. ((a + 1, b, f, s'), (a, b, f, s)) \<in> measure (\<lambda>(a, b, f, s). unat b - unat a)"
    by simp
qed simp

declare word_for.simps [simp del]

lemma word_for_invariant:
  assumes "P s"
    and "\<And>i s. P s \<Longrightarrow> a \<le> i \<Longrightarrow> i < b \<Longrightarrow> P (f i s)"
  shows "P (word_for a b f s)"
  using assms
proof (induction a b f s rule: word_for.induct)
  case (1 a b f s)
  show ?case
  proof (cases "a < b")
    case True
    have le: "a \<le> i" if "a + 1 \<le> i" for i
    proof -
      have "unat a < unat i"
        using that unat_plus1_less [OF True] by (simp add: word_le_nat_alt)
      then show ?thesis by (simp add: word_le_nat_alt)
    qed
    have "P (word_for (a + 1) b f (f a s))"
      using True "1.prems" le by (intro "1.IH") auto
    with True show ?thesis by (simp add: word_for.simps [of a b])
  next
    case False
    with "1.prems" show ?thesis by (simp add: word_for.simps [of a b])
  qed
qed


section \<open>Loops with a stride\<close>

text \<open>
  \<^verbatim>\<open>for (uint64_t i = a; i < b; i += d) s = f(i, s);\<close> The increment may wrap past \<open>b\<close>, and then
  the loop runs on: \<open>None\<close> is a loop that does not end. When it cannot wrap, the loop is a
  fold over the values of the index.
\<close>

partial_function (option) for_by :: "u64 \<Rightarrow> u64 \<Rightarrow> u64 \<Rightarrow> (u64 \<Rightarrow> 's \<Rightarrow> 's) \<Rightarrow> 's \<Rightarrow> 's option" where
  "for_by d a b f s = (if a < b then for_by d (a + d) b f (f a s) else Some s)"

function addr_range :: "nat \<Rightarrow> nat \<Rightarrow> nat \<Rightarrow> nat list" where
  "addr_range d a b = (if a < b \<and> 0 < d then a # addr_range d (a + d) b else [])"
  by pat_completeness auto
termination
  by (relation "measure (\<lambda>(d, a, b). b - a)") auto

declare addr_range.simps [simp del]

lemma addr_range_mem:
  assumes "0 < d"
  shows "x \<in> set (addr_range d a b) \<longleftrightarrow> (\<exists>k. x = a + k * d) \<and> x < b"
  using assms
proof (induction d a b rule: addr_range.induct)
  case (1 d a b)
  show ?case
  proof (cases "a < b")
    case True
    have "(\<exists>k. x = a + k * d) \<longleftrightarrow> x = a \<or> (\<exists>k. x = a + d + k * d)"
    proof
      assume "\<exists>k. x = a + k * d"
      then obtain k where "x = a + k * d" ..
      then show "x = a \<or> (\<exists>k. x = a + d + k * d)" by (cases k) auto
    next
      assume "x = a \<or> (\<exists>k. x = a + d + k * d)"
      then show "\<exists>k. x = a + k * d" by (metis add.assoc add_0_right mult_0 mult_Suc)
    qed
    with True 1 show ?thesis
      by (auto simp: addr_range.simps [of d a b])
  qed (auto simp: addr_range.simps [of d a b])
qed

lemma for_by_fold:
  assumes "0 < d" and "unat b + unat d \<le> 2 ^ 64"
  shows "for_by d a b f s = Some (fold (\<lambda>x. f (of_nat x)) (addr_range (unat d) (unat a) (unat b)) s)"
proof (induction "unat b - unat a" arbitrary: a s rule: less_induct)
  case less
  show ?case
  proof (cases "a < b")
    case True
    have d: "0 < unat d" using assms(1) by (simp add: word_less_nat_alt)
    have lt: "unat a < unat b" using True by (simp add: word_less_nat_alt)
    have "unat a + unat d < 2 ^ 64" using lt assms(2) by linarith
    then have ad: "unat (a + d) = unat a + unat d" by (rule unat_add_u64)
    have "for_by d (a + d) b f (f a s) =
        Some (fold (\<lambda>x. f (of_nat x)) (addr_range (unat d) (unat (a + d)) (unat b)) (f a s))"
      using d lt ad by (intro less) linarith
    with True lt d show ?thesis
      by (simp add: for_by.simps [of d a b] addr_range.simps [of "unat d" "unat a"] ad)
  next
    case False
    then show ?thesis
      by (simp add: for_by.simps [of d a b] addr_range.simps [of "unat d" "unat a"] word_less_nat_alt)
  qed
qed


section \<open>C strings\<close>

text \<open>
  A pointer to characters is the list of the characters from it on. Reading at the end of
  the list gives the terminator, so a string may carry its NUL or leave it implicit;
  \<open>cstr\<close> is the text up to the terminator.
\<close>

abbreviation NUL :: char where
  "NUL \<equiv> CHR 0x00"

abbreviation chr_code :: "char \<Rightarrow> int" where
  "chr_code c \<equiv> of_char c"

definition cchar :: "string \<Rightarrow> char" where
  "cchar s = (case s of [] \<Rightarrow> NUL | c # _ \<Rightarrow> c)"

definition cnth :: "string \<Rightarrow> nat \<Rightarrow> char" where
  "cnth s i = (if i < length s then s ! i else NUL)"

definition cstr :: "string \<Rightarrow> string" where
  "cstr s = takeWhile (\<lambda>c. c \<noteq> NUL) s"

lemma cchar_simps [simp]: "cchar [] = NUL" "cchar (c # cs) = c"
  by (simp_all add: cchar_def)

lemma cstr_simps [simp]:
  "cstr [] = []"
  "cstr (c # cs) = (if c = NUL then [] else c # cstr cs)"
  by (simp_all add: cstr_def)

lemma cstr_no_nul: "NUL \<notin> set (cstr s)"
  by (auto simp: cstr_def dest: set_takeWhileD)

lemma cstr_idem [simp]: "cstr (cstr s) = cstr s"
  by (induction s) auto

lemma cstr_id: "NUL \<notin> set s \<Longrightarrow> cstr s = s"
  by (induction s) auto

lemma length_cstr_le: "length (cstr s) \<le> length s"
  by (simp add: cstr_def length_takeWhile_le)

lemma cstr_append_nul [simp]: "NUL \<notin> set s \<Longrightarrow> cstr (s @ NUL # t) = s"
  by (induction s) auto

lemma unat_less_2p32: "unat (p :: u32) < 4294967296"
  using unsigned_less [of p] by simp

lemma unat_ucast_u32 [simp]: "unat (ucast (p :: u32) :: u64) = unat p"
  using unat_less_2p32 [of p] by (simp add: unsigned_ucast_eq take_bit_nat_eq_self)

lemma ucast_plus_1: "unat p + 1 < 4294967296 \<Longrightarrow> ucast (p + 1 :: u32) = (ucast p + 1 :: u64)"
  by (simp add: word_unat_eq_iff unat_word_ariths)

lemma sint_of_nat_u32: "k < 2147483648 \<Longrightarrow> sint (of_nat k :: u32) = int k"
  by (simp add: signed_of_nat signed_take_bit_int_eq_self)

section \<open>Lists updated in place\<close>

lemma count_list_update:
  "k < length xs \<Longrightarrow>
   count_list (xs[k := y]) a + (if xs ! k = a then 1 else 0) = count_list xs a + (if y = a then 1 else 0)"
proof (induction xs arbitrary: k)
  case (Cons x xs)
  show ?case
  proof (cases k)
    case (Suc j)
    then show ?thesis using Cons.IH [of j] Cons.prems by (auto split: if_splits)
  qed simp
qed simp

lemma list_update_twice: "i \<noteq> j \<Longrightarrow> xs[i := a, j := b, i := c, j := d] = xs[i := c, j := d]"
  by (metis list_update_overwrite list_update_swap)

lemma nth_list_update': "xs[i := x] ! j = (if i = j \<and> j < length xs then x else xs ! j)"
  by (cases "i < length xs") (auto simp: nth_list_update list_update_beyond)

lemma length_filter_update:
  "k < length xs \<Longrightarrow> length (filter P (xs[k := y])) + (if P (xs ! k) then 1 else 0) = length (filter P xs) + (if P y then 1 else 0)"
proof (induction xs arbitrary: k)
  case (Cons x xs)
  show ?case
  proof (cases k)
    case (Suc j)
    then show ?thesis using Cons.IH [of j] Cons.prems by (auto split: if_splits)
  qed simp
qed simp

lemma count_list_replicate: "count_list (replicate n x) y = (if x = y then n else 0)"
  by (induction n) auto

end
