(* ===== verification/Kstring.thy ===== *)
theory Kstring
  imports Prelude
begin

text \<open>
  \<^verbatim>\<open>src/kernel/kstring.c\<close> and \<^verbatim>\<open>src/fs/path.c\<close>: the freestanding string library of the kernel
  and the path resolver built on the same conventions. Pointers are suffixes of the buffer
  they point into; a store past the end of the destination shows as a list longer than the
  destination was.
\<close>

section \<open>String library\<close>

fun k_strlen :: "string \<Rightarrow> nat" where
  "k_strlen [] = 0"
| "k_strlen (c # cs) = (if c \<noteq> NUL then Suc (k_strlen cs) else 0)"

fun k_strcmp :: "string \<Rightarrow> string \<Rightarrow> int" where
  "k_strcmp [] b = chr_code NUL - chr_code (cchar b)"
| "k_strcmp (c # cs) b =
     (if c \<noteq> NUL \<and> c = cchar b then k_strcmp cs (tl b) else chr_code c - chr_code (cchar b))"

fun k_strncmp :: "string \<Rightarrow> string \<Rightarrow> int \<Rightarrow> int" where
  "k_strncmp [] b n = (if n = 0 then 0 else chr_code NUL - chr_code (cchar b))"
| "k_strncmp (c # cs) b n =
     (if 0 < n \<and> c \<noteq> NUL \<and> c = cchar b then k_strncmp cs (tl b) (n - 1)
      else if n = 0 then 0
      else chr_code c - chr_code (cchar b))"

fun k_memcpy :: "'a list \<Rightarrow> 'a list \<Rightarrow> nat \<Rightarrow> 'a list" where
  "k_memcpy dst src 0 = dst"
| "k_memcpy dst src (Suc n) = hd src # k_memcpy (tl dst) (tl src) n"

fun k_strcpy :: "string \<Rightarrow> string \<Rightarrow> string" where
  "k_strcpy dst [] = NUL # tl dst"
| "k_strcpy dst (c # cs) = (if c \<noteq> NUL then c # k_strcpy (tl dst) cs else NUL # tl dst)"

text \<open>
  The bounded copy loop that occurs throughout the source,
  \<^verbatim>\<open>while (src[i] && len < lim) out[len++] = src[i++]; out[len] = 0;\<close>
\<close>

fun copy_loop :: "nat \<Rightarrow> string \<Rightarrow> nat \<Rightarrow> string \<Rightarrow> string \<times> nat" where
  "copy_loop lim out len [] = (out, len)"
| "copy_loop lim out len (c # cs) =
     (if c \<noteq> NUL \<and> len < lim then copy_loop lim (out[len := c]) (Suc len) cs else (out, len))"

definition copy_bounded :: "nat \<Rightarrow> string \<Rightarrow> nat \<Rightarrow> string \<Rightarrow> string" where
  "copy_bounded lim out len src = (let (out', n) = copy_loop lim out len src in out'[n := NUL])"

text \<open>The inner loop of \<^verbatim>\<open>k_strstr\<close>: both pointers advance while they agree; what is left of the needle.\<close>

fun strstr_match :: "string \<Rightarrow> string \<Rightarrow> string" where
  "strstr_match (h # hs) (n # ns) =
     (if h \<noteq> NUL \<and> n \<noteq> NUL \<and> h = n then strstr_match hs ns else n # ns)"
| "strstr_match h n = n"

fun k_strstr :: "string \<Rightarrow> string \<Rightarrow> string option" where
  "k_strstr [] needle = (if cchar needle = NUL then Some [] else None)"
| "k_strstr (c # cs) needle =
     (if cchar needle = NUL then Some (c # cs)
      else if c = NUL then None
      else if cchar (strstr_match (c # cs) needle) = NUL then Some (c # cs)
      else k_strstr cs needle)"

text \<open>The second loop of \<^verbatim>\<open>k_trim\<close>: \<open>end\<close> is an index from the start of the string.\<close>

fun trim_end :: "string \<Rightarrow> nat \<Rightarrow> string" where
  "trim_end s 0 = s"
| "trim_end s (Suc e) =
     (if cnth s (Suc e) = CHR '' '' then trim_end (s[Suc e := NUL]) e else s)"

definition k_trim :: "string \<Rightarrow> string" where
  "k_trim s =
     (let s' = dropWhile (\<lambda>c. c = CHR '' '') s
      in trim_end s' (k_strlen s' - 1))"

lemma k_strlen_eq: "k_strlen s = length (cstr s)"
  by (induction s) auto

lemma chr_code_eq_iff: "(chr_code c = chr_code d) = (c = d)"
  by (rule of_char_eq_iff)

lemma chr_code_diff_0 [simp]: "(chr_code c - chr_code d = 0) = (c = d)"
  by (simp add: chr_code_eq_iff)

lemma chr_code_0_iff [simp]: "chr_code c = 0 \<longleftrightarrow> c = NUL"
  using chr_code_eq_iff [of c NUL] by simp

lemma cstr_eq_Nil: "cstr s = [] \<longleftrightarrow> cchar s = NUL"
  by (cases s) auto

lemma Nil_eq_cstr: "[] = cstr s \<longleftrightarrow> cchar s = NUL"
  by (cases s) auto

lemma cstr_not_NUL: "cchar s \<noteq> NUL \<Longrightarrow> cstr s = cchar s # cstr (tl s)"
  by (cases s) auto

lemma k_strcmp_0_iff: "k_strcmp a b = 0 \<longleftrightarrow> cstr a = cstr b"
proof (induction a b rule: k_strcmp.induct)
  case (1 b)
  show ?case by (cases b) auto
next
  case (2 c cs b)
  then show ?case by (cases b) auto
qed

lemma k_strncmp_0_iff:
  "0 \<le> n \<Longrightarrow> k_strncmp a b n = 0 \<longleftrightarrow> take (nat n) (cstr a) = take (nat n) (cstr b)"
proof (induction a b n rule: k_strncmp.induct)
  case (1 b n)
  then show ?case by (cases b) auto
next
  case (2 c cs b n)
  show ?case
  proof (cases "n = 0")
    case False
    with "2.prems" have n: "nat n = Suc (nat (n - 1))" and "0 \<le> n - 1" by simp_all
    then show ?thesis
      using "2.IH" "2.prems" by (cases b) auto
  qed simp
qed

text \<open>\<^verbatim>\<open>k_strncmp(path, prefix, strlen(prefix)) == 0\<close> is the prefix test the callers use it for.\<close>

lemma k_strncmp_prefix:
  "k_strncmp a b (int (length (cstr b))) = 0 \<longleftrightarrow> take (length (cstr b)) (cstr a) = cstr b"
  by (simp add: k_strncmp_0_iff)

lemma k_memcpy_eq:
  "n \<le> length src \<Longrightarrow> k_memcpy dst src n = take n src @ drop n dst"
proof (induction dst src n rule: k_memcpy.induct)
  case (2 dst src n)
  then show ?case by (cases src) (auto simp: drop_Suc)
qed simp

lemma k_strcpy_eq: "k_strcpy dst src = cstr src @ NUL # drop (Suc (length (cstr src))) dst"
  by (induction dst src rule: k_strcpy.induct) (auto simp: drop_Suc)

lemma cstr_k_strcpy [simp]: "cstr (k_strcpy dst src) = cstr src"
  by (simp add: k_strcpy_eq cstr_no_nul)

lemma length_k_strcpy: "length (k_strcpy dst src) = max (length dst) (Suc (length (cstr src)))"
  by (simp add: k_strcpy_eq)

lemma strstr_match_NUL_iff:
  "cchar (strstr_match h n) = NUL \<longleftrightarrow> take (length (cstr n)) (cstr h) = cstr n"
  by (induction h n rule: strstr_match.induct) (auto simp: cstr_eq_Nil Nil_eq_cstr)

definition occurs_at :: "string \<Rightarrow> string \<Rightarrow> nat \<Rightarrow> bool" where
  "occurs_at h n i \<longleftrightarrow>
     i \<le> length (cstr h) \<and> take (length (cstr n)) (drop i (cstr h)) = cstr n"

lemma occurs_at_0: "occurs_at h n 0 \<longleftrightarrow> take (length (cstr n)) (cstr h) = cstr n"
  by (simp add: occurs_at_def)

lemma occurs_at_Suc: "c \<noteq> NUL \<Longrightarrow> occurs_at (c # cs) n (Suc i) = occurs_at cs n i"
  by (simp add: occurs_at_def)

lemma occurs_at_end: "cchar h = NUL \<Longrightarrow> cchar n \<noteq> NUL \<Longrightarrow> \<not> occurs_at h n i"
  by (auto simp: occurs_at_def Nil_eq_cstr cstr_eq_Nil [THEN iffD2])

lemma k_strstr_None_iff: "k_strstr h n = None \<longleftrightarrow> (\<forall>i. \<not> occurs_at h n i)"
proof (induction h n rule: k_strstr.induct)
  case (1 n)
  show ?case
    using occurs_at_end [of "[]" n] by (auto simp: occurs_at_def Nil_eq_cstr)
next
  case (2 c cs n)
  consider "cchar n = NUL" | "cchar n \<noteq> NUL" "c = NUL" | "cchar n \<noteq> NUL" "c \<noteq> NUL" by blast
  then show ?case
  proof cases
    case 1
    then have "occurs_at (c # cs) n 0" by (simp add: occurs_at_0 cstr_eq_Nil [THEN iffD2])
    with 1 show ?thesis by auto
  next
    case 2
    then show ?thesis by (simp add: occurs_at_end)
  next
    case 3
    have split: "(\<forall>i. \<not> occurs_at (c # cs) n i) \<longleftrightarrow>
        \<not> occurs_at (c # cs) n 0 \<and> (\<forall>i. \<not> occurs_at cs n i)"
      using occurs_at_Suc [OF 3(2)] by (metis not0_implies_Suc)
    from 3 "2.IH" show ?thesis
      by (auto simp: split occurs_at_0 strstr_match_NUL_iff simp del: cstr_simps strstr_match.simps)
  qed
qed

lemma k_strstr_Some:
  "k_strstr h n = Some r \<Longrightarrow> \<exists>i. r = drop i h \<and> occurs_at h n i \<and> (\<forall>j < i. \<not> occurs_at h n j)"
proof (induction h n rule: k_strstr.induct)
  case (1 n)
  then show ?case by (auto simp: occurs_at_def cstr_eq_Nil [THEN iffD2] split: if_splits)
next
  case (2 c cs n)
  show ?case
  proof (cases "cchar n = NUL \<or> cchar (strstr_match (c # cs) n) = NUL \<and> c \<noteq> NUL")
    case True
    then have "occurs_at (c # cs) n 0"
      by (auto simp: occurs_at_0 cstr_eq_Nil [THEN iffD2] strstr_match_NUL_iff
          simp del: cstr_simps strstr_match.simps)
    moreover from True "2.prems" have "r = c # cs" by (auto split: if_splits)
    ultimately show ?thesis by (intro exI [of _ 0]) simp
  next
    case False
    with "2.prems" have c: "c \<noteq> NUL" and r: "k_strstr cs n = Some r"
      by (auto split: if_splits)
    from False c have no: "\<not> occurs_at (c # cs) n 0"
      by (simp add: occurs_at_0 strstr_match_NUL_iff del: cstr_simps strstr_match.simps)
    from False c r "2.IH" obtain i where
      "r = drop i cs" "occurs_at cs n i" "\<forall>j < i. \<not> occurs_at cs n j"
      by auto
    then have "r = drop (Suc i) (c # cs) \<and> occurs_at (c # cs) n (Suc i) \<and>
        (\<forall>j < Suc i. \<not> occurs_at (c # cs) n j)"
      using no occurs_at_Suc [OF c] by (auto simp: less_Suc_eq_0_disj)
    then show ?thesis by blast
  qed
qed

lemma copy_loop_eq:
  "len \<le> lim \<Longrightarrow> lim < length out \<Longrightarrow>
   copy_loop lim out len src =
     (take len out @ take (lim - len) (cstr src) @ drop (len + length (take (lim - len) (cstr src))) out,
      len + length (take (lim - len) (cstr src)))"
proof (induction lim out len src rule: copy_loop.induct)
  case (2 lim out len c cs)
  show ?case
  proof (cases "c \<noteq> NUL \<and> len < lim")
    case True
    then obtain k where k: "lim - len = Suc k" and k': "lim - Suc len = k"
      by (metis Suc_diff_Suc)
    have take: "take (Suc len) (out[len := c]) = take len out @ [c]"
      using True "2.prems" by (simp add: take_Suc_conv_app_nth)
    from True "2.IH" "2.prems" show ?thesis
      by (simp add: k k' take)
  qed (use 2 in auto)
qed simp

lemma copy_bounded_eq:
  assumes "len \<le> lim" and "lim < length out"
  shows "copy_bounded lim out len src =
    take len out @ take (lim - len) (cstr src) @ NUL #
      drop (Suc (len + length (take (lim - len) (cstr src)))) out"
proof -
  let ?t = "take (lim - len) (cstr src)"
  have lt: "len + length ?t < length out"
    using assms by (auto simp: min_def)
  then obtain x where x: "drop (len + length ?t) out = x # drop (Suc (len + length ?t)) out"
    by (metis Cons_nth_drop_Suc)
  have "(take len out @ ?t @ drop (len + length ?t) out)[len + length ?t := NUL] =
      take len out @ ?t @ NUL # drop (Suc (len + length ?t)) out"
    using assms unfolding x by (simp add: list_update_append)
  then show ?thesis
    by (simp add: copy_bounded_def copy_loop_eq [OF assms])
qed

lemma length_copy_bounded [simp]:
  assumes "len \<le> lim" and "lim < length out"
  shows "length (copy_bounded lim out len src) = length out"
  using assms by (simp add: copy_bounded_eq min_def)

lemma cstr_copy_bounded:
  assumes "len \<le> lim" and "lim < length out" and "NUL \<notin> set (take len out)"
  shows "cstr (copy_bounded lim out len src) = take len out @ take (lim - len) (cstr src)"
proof -
  have "NUL \<notin> set (take len out @ take (lim - len) (cstr src))"
    using assms(3) cstr_no_nul [of src] by (auto dest: in_set_takeD)
  from cstr_append_nul [OF this] show ?thesis
    by (simp add: copy_bounded_eq [OF assms(1,2)])
qed

lemma cstr_copy_bounded_0:
  "lim < length out \<Longrightarrow> cstr (copy_bounded lim out 0 src) = take lim (cstr src)"
  by (simp add: cstr_copy_bounded)


section \<open>Path resolution\<close>

text \<open>
  \<^verbatim>\<open>resolve_path\<close> of \<^verbatim>\<open>path.c\<close>. \<open>out\<close> is the caller's 256-byte buffer; a null \<open>name\<close> is
  \<open>None\<close>. The result is the return code and the buffer after the call.
\<close>

definition resolve_path :: "string \<Rightarrow> string option \<Rightarrow> int \<times> string" where
  "resolve_path out name =
     (case name of
        None \<Rightarrow> (-1, out)
      | Some nm \<Rightarrow>
          if cchar nm = NUL then (-1, out)
          else if cnth nm 0 = CHR ''/'' then (0, copy_bounded 255 out 0 nm)
          else (0, copy_bounded 255 (out[0 := CHR ''/'']) 1 nm))"

lemma resolve_path_result:
  assumes "length out = 256" and "resolve_path out (Some nm) = (rc, out')"
  shows "length out' = 256"
    and "rc = 0 \<longleftrightarrow> cstr nm \<noteq> []"
    and "rc = 0 \<Longrightarrow> cstr out' = take 255 (if cchar nm = CHR ''/'' then cstr nm else CHR ''/'' # cstr nm)"
proof -
  have tk: "take (Suc 0) (out[0 := CHR ''/'']) = [CHR ''/'']"
    using assms(1) by (cases out) auto
  show "length out' = 256"
    using assms by (auto simp: resolve_path_def split: if_splits)
  show "rc = 0 \<longleftrightarrow> cstr nm \<noteq> []"
    using assms by (auto simp: resolve_path_def cstr_eq_Nil split: if_splits)
  show "cstr out' = take 255 (if cchar nm = CHR ''/'' then cstr nm else CHR ''/'' # cstr nm)"
    if "rc = 0"
    using assms that
    by (auto simp: resolve_path_def cstr_copy_bounded_0 cstr_copy_bounded tk cnth_def
        split: if_splits)
       (cases nm; simp)+
qed

end
