(* ===== verification/Interfaces.thy ===== *)
theory Interfaces
  imports Prelude
begin

text \<open>
  The contracts between components, one locale each: what a client may rely on, with the
  lemmas that follow for every provider. The component theories interpret them on their own
  definitions.
\<close>

section \<open>Allocators\<close>

text \<open>
  The contract shared by the page allocator (\<^verbatim>\<open>include/memory.h\<close>) and the PCID allocator
  (\<^verbatim>\<open>src/kernel/switch.c\<close>): \<open>avail\<close> is the set of names an allocation may return, 0 is the
  failure value.
\<close>

primrec alloc_n :: "('s \<Rightarrow> 'a \<times> 's) \<Rightarrow> nat \<Rightarrow> 's \<Rightarrow> 'a list \<times> 's" where
  "alloc_n al 0 s = ([], s)"
| "alloc_n al (Suc n) s =
     (let (a, s1) = al s; (ps, s2) = alloc_n al n s1 in (a # ps, s2))"

locale name_allocator =
  fixes alloc :: "'s \<Rightarrow> 'a :: zero \<times> 's"
    and free :: "'a \<Rightarrow> 's \<Rightarrow> 's"
    and ok :: "'s \<Rightarrow> bool"
    and avail :: "'s \<Rightarrow> 'a set"
  assumes avail_finite: "ok s \<Longrightarrow> finite (avail s)"
    and avail_nonzero: "ok s \<Longrightarrow> a \<in> avail s \<Longrightarrow> a \<noteq> 0"
    and alloc_some: "ok s \<Longrightarrow> avail s \<noteq> {} \<Longrightarrow> fst (alloc s) \<in> avail s"
    and alloc_none: "ok s \<Longrightarrow> avail s = {} \<Longrightarrow> alloc s = (0, s)"
    and alloc_avail: "ok s \<Longrightarrow> avail (snd (alloc s)) = avail s - {fst (alloc s)}"
    and alloc_ok: "ok s \<Longrightarrow> ok (snd (alloc s))"
    and free_avail: "ok s \<Longrightarrow> avail s \<subseteq> avail (free a s)"
begin

lemma alloc_zero_iff: "ok s \<Longrightarrow> fst (alloc s) = 0 \<longleftrightarrow> avail s = {}"
  by (metis alloc_none alloc_some avail_nonzero fst_conv)

lemma alloc_card: "ok s \<Longrightarrow> card (avail (snd (alloc s))) = card (avail s) - 1"
  using alloc_some [of s] alloc_none [of s] avail_finite [of s]
  by (cases "avail s = {}") (simp_all add: alloc_avail)

lemma alloc_n_law:
  assumes "ok s"
  shows "ok (snd (alloc_n alloc n s)) \<and>
         avail (snd (alloc_n alloc n s)) = avail s - set (fst (alloc_n alloc n s)) \<and>
         set (filter (\<lambda>a. a \<noteq> 0) (fst (alloc_n alloc n s))) \<subseteq> avail s \<and>
         distinct (filter (\<lambda>a. a \<noteq> 0) (fst (alloc_n alloc n s))) \<and>
         length (filter (\<lambda>a. a \<noteq> 0) (fst (alloc_n alloc n s))) = min n (card (avail s))"
  using assms
proof (induction n arbitrary: s)
    case (Suc n)
    let ?a = "fst (alloc s)" and ?s = "snd (alloc s)"
    have step: "fst (alloc_n alloc (Suc n) s) = ?a # fst (alloc_n alloc n ?s)"
        "snd (alloc_n alloc (Suc n) s) = snd (alloc_n alloc n ?s)"
      by (simp_all add: split_beta Let_def)
    note IH = Suc.IH [OF alloc_ok [OF Suc.prems]]
    show ?case
    proof (cases "avail s = {}")
      case True
      then have "?a = 0" and "?s = s" using alloc_none [OF Suc.prems] by simp_all
      with IH True show ?thesis unfolding step by simp
    next
      case False
      then have "?a \<noteq> 0" "?a \<in> avail s"
        using Suc.prems alloc_zero_iff alloc_some by blast+
      moreover have "card (avail s) > 0"
        using False avail_finite [OF Suc.prems] by (simp add: card_gt_0_iff)
      moreover note alloc_card [OF Suc.prems]
      ultimately show ?thesis
        using IH unfolding step alloc_avail [OF Suc.prems] by (auto simp: min_def)
    qed
qed simp

end

text \<open>Pages are aligned to 4096 bytes, and any page but the first may be given back.\<close>

locale page_allocator = name_allocator alloc free ok avail
  for alloc :: "'s \<Rightarrow> u64 \<times> 's" and free :: "u64 \<Rightarrow> 's \<Rightarrow> 's" and ok :: "'s \<Rightarrow> bool" and avail :: "'s \<Rightarrow> u64 set" +
  assumes avail_aligned: "ok s \<Longrightarrow> a \<in> avail s \<Longrightarrow> a mod 4096 = 0"
    and free_ok: "ok s \<Longrightarrow> 4096 \<le> a \<Longrightarrow> ok (free a s)"
begin

lemma alloc_aligned: "ok s \<Longrightarrow> fst (alloc s) mod 4096 = 0"
  using alloc_some avail_aligned alloc_none by (cases "avail s = {}") simp_all

end

section \<open>First-in first-out queue\<close>

text \<open>
  The contract of the ready queue, of pipes and of the keyboard buffer: \<open>rep s q\<close> says that
  the state holds the elements \<open>q\<close> in this order, \<open>fits x s q\<close> that \<open>x\<close> may be added.
\<close>

primrec deq_n :: "('s \<Rightarrow> 'a option \<times> 's) \<Rightarrow> nat \<Rightarrow> 's \<Rightarrow> 'a option list \<times> 's" where
  "deq_n dq 0 s = ([], s)"
| "deq_n dq (Suc n) s = (let (x, s1) = dq s; (xs, s2) = deq_n dq n s1 in (x # xs, s2))"

locale fifo =
  fixes enq :: "'a \<Rightarrow> 's \<Rightarrow> 's"
    and deq :: "'s \<Rightarrow> 'a option \<times> 's"
    and rep :: "'s \<Rightarrow> 'a list \<Rightarrow> bool"
    and fits :: "'a \<Rightarrow> 's \<Rightarrow> 'a list \<Rightarrow> bool"
  assumes enq_rep: "rep s q \<Longrightarrow> fits x s q \<Longrightarrow> rep (enq x s) (q @ [x])"
    and deq_rep: "rep s (x # q) \<Longrightarrow> fst (deq s) = Some x \<and> rep (snd (deq s)) q"
    and deq_empty: "rep s [] \<Longrightarrow> deq s = (None, s)"
begin

lemma deq_n_order:
  "rep s q \<Longrightarrow> n \<le> length q \<Longrightarrow>
     fst (deq_n deq n s) = map Some (take n q) \<and> rep (snd (deq_n deq n s)) (drop n q)"
proof (induction n arbitrary: s q)
  case (Suc n)
  then obtain x q' where q: "q = x # q'" by (cases q) auto
  show ?case
    using Suc.IH [of "snd (deq s)" q'] Suc.prems deq_rep [of s x q']
    by (simp add: q split_beta Let_def)
qed simp

lemma enq_deq_last:
  assumes "rep s q" and "fits x s q"
  shows "fst (deq_n deq (Suc (length q)) (enq x s)) = map Some (q @ [x])"
  using deq_n_order [OF enq_rep [OF assms], of "Suc (length q)"] by simp

end

end
