(* ===== verification/Pmm.thy ===== *)
theory Pmm
  imports Interfaces
begin

text \<open>
  \<^verbatim>\<open>src/memory/memory.c\<close>: the physical memory manager. One bit per 4 KiB page in an array of
  64-bit words (a set bit is a page in use), a count of free pages, and an array of 32-bit
  reference counts for copy-on-write pages. The bitmap and the reference counts live in
  memory right after the kernel image; the record keeps their contents as lists and their
  addresses as words. Console and serial output is left out.
\<close>

section \<open>State and operations\<close>

abbreviation PAGE_SIZE :: u64 where
  "PAGE_SIZE \<equiv> 4096"

record pmm =
  pmm_bitmap :: "u64 list"
  pmm_bitmap_addr :: u64
  pmm_bitmap_size :: u64
  pmm_total_pages_count :: u64
  pmm_free_pages_count :: u64
  pmm_ref_counts :: "u32 list"
  pmm_ref_start :: u64
  pmm_ref_end :: u64

definition bitmap_set :: "u64 \<Rightarrow> pmm \<Rightarrow> pmm" where
  "bitmap_set index s =
     (let i = unat (index div 64)
      in s\<lparr>pmm_bitmap := (pmm_bitmap s)[i := pmm_bitmap s ! i OR push_bit (unat (index mod 64)) 1]\<rparr>)"

definition bitmap_clear :: "u64 \<Rightarrow> pmm \<Rightarrow> pmm" where
  "bitmap_clear index s =
     (let i = unat (index div 64)
      in s\<lparr>pmm_bitmap := (pmm_bitmap s)[i := pmm_bitmap s ! i AND NOT (push_bit (unat (index mod 64)) 1)]\<rparr>)"

text \<open>
  \<^verbatim>\<open>bitmap_test\<close> returns \<^verbatim>\<open>int\<close>: the 64-bit value of the masked word is converted to 32 bits on
  the way out, which drops its upper half.
\<close>

definition bitmap_test :: "u64 \<Rightarrow> pmm \<Rightarrow> u32" where
  "bitmap_test index s =
     ucast (pmm_bitmap s ! unat (index div 64) AND push_bit (unat (index mod 64)) 1)"

text \<open>The two nested loops of \<^verbatim>\<open>pmm_alloc_page\<close>; the last argument counts the iterations left.\<close>

fun alloc_scan_bits :: "pmm \<Rightarrow> nat \<Rightarrow> nat \<Rightarrow> nat \<Rightarrow> u64 option" where
  "alloc_scan_bits s i j 0 = None"
| "alloc_scan_bits s i j (Suc k) =
     (if pmm_bitmap s ! i AND push_bit j 1 = 0 then
        (let page_index = of_nat i * 64 + of_nat j
         in if page_index \<ge> pmm_total_pages_count s then alloc_scan_bits s i (Suc j) k
            else Some page_index)
      else alloc_scan_bits s i (Suc j) k)"

fun alloc_scan_words :: "pmm \<Rightarrow> nat \<Rightarrow> nat \<Rightarrow> u64 option" where
  "alloc_scan_words s i 0 = None"
| "alloc_scan_words s i (Suc k) =
     (if pmm_bitmap s ! i \<noteq> -1 then
        (case alloc_scan_bits s i 0 64 of
           Some page_index \<Rightarrow> Some page_index
         | None \<Rightarrow> alloc_scan_words s (Suc i) k)
      else alloc_scan_words s (Suc i) k)"

definition pmm_alloc_page :: "pmm \<Rightarrow> u64 \<times> pmm" where
  "pmm_alloc_page s =
     (if pmm_free_pages_count s = 0 then (0, s)
      else case alloc_scan_words s 0 (unat (pmm_bitmap_size s)) of
             None \<Rightarrow> (0, s)
           | Some page_index \<Rightarrow>
               (let s' = bitmap_set page_index s
                in (page_index * PAGE_SIZE,
                    s'\<lparr>pmm_free_pages_count := pmm_free_pages_count s' - 1\<rparr>)))"

definition pmm_free_page :: "u64 \<Rightarrow> pmm \<Rightarrow> pmm" where
  "pmm_free_page addr s =
     (let page = addr div PAGE_SIZE
      in if page \<ge> pmm_total_pages_count s then s
         else if bitmap_test page s = 0 then s
         else (let s' = bitmap_clear page s
               in s'\<lparr>pmm_free_pages_count := pmm_free_pages_count s' + 1\<rparr>))"

definition reserve_step :: "u64 \<Rightarrow> pmm \<Rightarrow> pmm" where
  "reserve_step page s =
     (if bitmap_test page s = 0
      then (let s' = bitmap_set page s in s'\<lparr>pmm_free_pages_count := pmm_free_pages_count s' - 1\<rparr>)
      else s)"

definition pmm_reserve_range :: "u64 \<Rightarrow> u64 \<Rightarrow> pmm \<Rightarrow> pmm" where
  "pmm_reserve_range start len s =
     (let first_page = start div PAGE_SIZE;
          last_page = (start + len + PAGE_SIZE - 1) div PAGE_SIZE
      in word_for first_page (min last_page (pmm_total_pages_count s)) reserve_step s)"

definition free_range_step :: "u64 \<Rightarrow> u64 \<Rightarrow> u64 \<Rightarrow> pmm \<Rightarrow> pmm" where
  "free_range_step bitmap_start bitmap_end page s =
     (let page_addr = page * PAGE_SIZE
      in if page_addr \<ge> bitmap_start \<and> page_addr < bitmap_end + PAGE_SIZE then s
         else if page_addr \<ge> pmm_ref_start s \<and> page_addr < pmm_ref_end s then s
         else if bitmap_test page s \<noteq> 0
         then (let s' = bitmap_clear page s in s'\<lparr>pmm_free_pages_count := pmm_free_pages_count s' + 1\<rparr>)
         else s)"

definition pmm_free_range :: "u64 \<Rightarrow> u64 \<Rightarrow> pmm \<Rightarrow> pmm" where
  "pmm_free_range start len s =
     (let first_page = (start + PAGE_SIZE - 1) div PAGE_SIZE;
          last_page = (start + len) div PAGE_SIZE;
          bitmap_start = pmm_bitmap_addr s;
          bitmap_end = bitmap_start + pmm_bitmap_size s * 8;
          kernel_end_page = bitmap_start div PAGE_SIZE;
          first_page = (if first_page < kernel_end_page then kernel_end_page else first_page)
      in word_for first_page (min last_page (pmm_total_pages_count s))
           (free_range_step bitmap_start bitmap_end) s)"

record memory_stats =
  total_mb :: u64
  free_mb :: u64
  kernel_heap_start :: u64
  kernel_heap_size :: u64
  kernel_heap_used :: u64

definition memory_get_stats :: "memory_stats option \<Rightarrow> pmm \<Rightarrow> memory_stats option" where
  "memory_get_stats stats s =
     (case stats of
        None \<Rightarrow> None
      | Some st \<Rightarrow> Some (st\<lparr>total_mb := pmm_total_pages_count s * PAGE_SIZE div (1024 * 1024),
                           free_mb := pmm_free_pages_count s * PAGE_SIZE div (1024 * 1024)\<rparr>))"

definition pmm_get_total :: "pmm \<Rightarrow> u64" where
  "pmm_get_total s = pmm_total_pages_count s * PAGE_SIZE"

definition pmm_get_free :: "pmm \<Rightarrow> u64" where
  "pmm_get_free s = pmm_free_pages_count s * PAGE_SIZE"

definition pmm_get_total_pages :: "pmm \<Rightarrow> u64" where
  "pmm_get_total_pages s = pmm_total_pages_count s"

definition pmm_get_free_pages :: "pmm \<Rightarrow> u64" where
  "pmm_get_free_pages s = pmm_free_pages_count s"

definition pmm_ref_count :: "u64 \<Rightarrow> pmm \<Rightarrow> int" where
  "pmm_ref_count addr s =
     (let page = addr div PAGE_SIZE
      in if page \<ge> pmm_total_pages_count s then 0 else sint (pmm_ref_counts s ! unat page))"

definition pmm_ref_inc :: "u64 \<Rightarrow> pmm \<Rightarrow> pmm" where
  "pmm_ref_inc addr s =
     (let page = addr div PAGE_SIZE
      in if page < pmm_total_pages_count s
         then s\<lparr>pmm_ref_counts := (pmm_ref_counts s)[unat page := pmm_ref_counts s ! unat page + 1]\<rparr>
         else s)"

definition pmm_ref_dec :: "u64 \<Rightarrow> pmm \<Rightarrow> int \<times> pmm" where
  "pmm_ref_dec addr s =
     (let page = addr div PAGE_SIZE
      in if page \<ge> pmm_total_pages_count s then (-1, s)
         else if pmm_ref_counts s ! unat page > 0
         then (let v = pmm_ref_counts s ! unat page - 1
               in (sint v, s\<lparr>pmm_ref_counts := (pmm_ref_counts s)[unat page := v]\<rparr>))
         else (0, s))"

definition pmm_ref_init_range :: "u64 \<Rightarrow> u64 \<Rightarrow> pmm \<Rightarrow> pmm" where
  "pmm_ref_init_range start len s =
     (let page_start = start div PAGE_SIZE;
          page_end = (start + len + PAGE_SIZE - 1) div PAGE_SIZE
      in word_for page_start (min page_end (pmm_total_pages_count s))
           (\<lambda>page s. s\<lparr>pmm_ref_counts := (pmm_ref_counts s)[unat page := 1]\<rparr>) s)"

section \<open>Initialisation from the multiboot memory map\<close>

text \<open>
  The boot loader's information block and memory map are input: \<open>ent\<close> gives the map entry
  at an address. The addresses of the walk come from two 32-bit fields and each step adds at
  most \<open>2\<^sup>3\<^sup>2 + 3\<close>, so they are natural numbers here. \<open>raw\<close> is what the bitmap area of
  memory held before.
\<close>

record mboot_info =
  mb_flags :: u32
  mem_upper :: u32
  mmap_length :: u32
  mmap_addr :: u32

record mboot_mmap_entry =
  me_size :: u32
  base_low :: u32
  base_high :: u32
  length_low :: u32
  length_high :: u32
  me_type :: u32

abbreviation MBOOT_FLAG_MEM :: u32 where "MBOOT_FLAG_MEM \<equiv> 0x001"
abbreviation MBOOT_FLAG_MMAP :: u32 where "MBOOT_FLAG_MMAP \<equiv> 0x040"
abbreviation MBOOT_MEM_AVAILABLE :: u32 where "MBOOT_MEM_AVAILABLE \<equiv> 1"

definition mmap_base :: "mboot_mmap_entry \<Rightarrow> u64" where
  "mmap_base e = push_bit 32 (ucast (base_high e)) OR ucast (base_low e)"

definition mmap_len :: "mboot_mmap_entry \<Rightarrow> u64" where
  "mmap_len e = push_bit 32 (ucast (length_high e)) OR ucast (length_low e)"

definition mmap_entry_next :: "(nat \<Rightarrow> mboot_mmap_entry) \<Rightarrow> nat \<Rightarrow> nat" where
  "mmap_entry_next ent p = p + unat (me_size (ent p)) + 4"

text \<open>The first walk stops after 64 entries: the last argument is \<^verbatim>\<open>64 - entry_count\<close>.\<close>

fun mmap_max_addr :: "(nat \<Rightarrow> mboot_mmap_entry) \<Rightarrow> nat \<Rightarrow> nat \<Rightarrow> u64 \<Rightarrow> nat \<Rightarrow> u64" where
  "mmap_max_addr ent p e max_addr 0 = max_addr"
| "mmap_max_addr ent p e max_addr (Suc k) =
     (if p < e then
        (let reach = mmap_base (ent p) + mmap_len (ent p);
             m = (if me_type (ent p) = MBOOT_MEM_AVAILABLE \<and> reach > max_addr \<and> reach < 0x100000000
                  then reach else max_addr)
         in mmap_max_addr ent (mmap_entry_next ent p) e m k)
      else max_addr)"

function mmap_free_walk :: "(nat \<Rightarrow> mboot_mmap_entry) \<Rightarrow> nat \<Rightarrow> nat \<Rightarrow> pmm \<Rightarrow> pmm" where
  "mmap_free_walk ent p e s =
     (if p < e then
        mmap_free_walk ent (mmap_entry_next ent p) e
          (if me_type (ent p) = MBOOT_MEM_AVAILABLE
           then pmm_free_range (mmap_base (ent p)) (mmap_len (ent p)) s else s)
      else s)"
  by pat_completeness auto
termination
  by (relation "measure (\<lambda>(ent, p, e, s). e - p)") (auto simp: mmap_entry_next_def)

declare mmap_free_walk.simps [simp del]

definition page_round_up :: "u64 \<Rightarrow> u64" where
  "page_round_up x = (x + PAGE_SIZE - 1) AND NOT (PAGE_SIZE - 1)"

definition pmm_total_mem :: "mboot_info \<Rightarrow> (nat \<Rightarrow> mboot_mmap_entry) \<Rightarrow> u64" where
  "pmm_total_mem mbi ent =
     (let p = unat (mmap_addr mbi);
          total_mem = (if mb_flags mbi AND MBOOT_FLAG_MEM \<noteq> 0
                       then (ucast (mem_upper mbi) + 1024) * 1024 else 0);
          total_mem = (if mb_flags mbi AND MBOOT_FLAG_MMAP \<noteq> 0
                       then mmap_max_addr ent p (p + unat (mmap_length mbi)) 0 64 else total_mem)
      in if total_mem = 0 \<or> total_mem > 0x20000000 then 128 * 1024 * 1024 else total_mem)"

definition pmm_layout :: "u64 \<Rightarrow> u64 \<Rightarrow> (nat \<Rightarrow> u64) \<Rightarrow> pmm" where
  "pmm_layout kernel_end total_mem raw =
     (let bitmap_start = page_round_up kernel_end;
          total_pages = total_mem div PAGE_SIZE;
          bitmap_size = (total_pages + 63) div 64;
          ref_start = bitmap_start + page_round_up (bitmap_size * 8);
          bitmap_limit = (if bitmap_size > 1048576 then 1048576 else bitmap_size)
      in \<lparr>pmm_bitmap = map (\<lambda>i. if i < unat bitmap_limit then -1 else raw i) [0..<unat bitmap_size],
          pmm_bitmap_addr = bitmap_start,
          pmm_bitmap_size = bitmap_size,
          pmm_total_pages_count = total_pages,
          pmm_free_pages_count = 0,
          pmm_ref_counts = replicate (unat total_pages) 0,
          pmm_ref_start = ref_start,
          pmm_ref_end = ref_start + page_round_up (total_pages * 4)\<rparr>)"

definition pmm_init :: "u64 \<Rightarrow> mboot_info \<Rightarrow> (nat \<Rightarrow> mboot_mmap_entry) \<Rightarrow> (nat \<Rightarrow> u64) \<Rightarrow> pmm" where
  "pmm_init kernel_end mbi ent raw =
     (let s = pmm_layout kernel_end (pmm_total_mem mbi ent) raw;
          p = unat (mmap_addr mbi)
      in if mb_flags mbi AND MBOOT_FLAG_MMAP \<noteq> 0
         then mmap_free_walk ent p (p + unat (mmap_length mbi)) s
         else s)"


section \<open>Pages and bits\<close>

definition page_bit :: "pmm \<Rightarrow> nat \<Rightarrow> bool" where
  "page_bit s p = bit (pmm_bitmap s ! (p div 64)) (p mod 64)"

definition page_free :: "pmm \<Rightarrow> nat \<Rightarrow> bool" where
  "page_free s p \<longleftrightarrow> p < unat (pmm_total_pages_count s) \<and> \<not> page_bit s p"

definition pmm_inv :: "pmm \<Rightarrow> bool" where
  "pmm_inv s \<longleftrightarrow>
     length (pmm_bitmap s) = unat (pmm_bitmap_size s) \<and>
     unat (pmm_bitmap_size s) < 2 ^ 58 \<and>
     unat (pmm_total_pages_count s) \<le> 64 * unat (pmm_bitmap_size s) \<and>
     unat (pmm_total_pages_count s) < 2 ^ 40 \<and>
     length (pmm_ref_counts s) = unat (pmm_total_pages_count s) \<and>
     unat (pmm_free_pages_count s) = card {p. page_free s p}"

lemma unat_div64 [simp]: "unat (x div 64 :: u64) = unat x div 64"
  by (simp add: unat_div)

lemma unat_mod64 [simp]: "unat (x mod 64 :: u64) = unat x mod 64"
  by (simp add: unat_mod)

lemma unat_div4096 [simp]: "unat (x div 4096 :: u64) = unat x div 4096"
  by (simp add: unat_div)

lemma ucast_and_exp_eq_0:
  fixes w :: u64
  shows "((ucast (w AND 2 ^ j) :: u32) = 0) = (\<not> (j < 32 \<and> bit w j))"
proof -
  have b: "bit (ucast (w AND 2 ^ j) :: u32) k \<longleftrightarrow> k < 32 \<and> k = j \<and> bit w j" for k
    by (auto simp: bit_ucast_iff bit_and_iff bit_exp_iff dest: bit_imp_le_length)
  show ?thesis
    by (auto simp: bit_eq_iff [of "ucast (w AND 2 ^ j) :: u32"] b)
qed

lemma bitmap_test_iff:
  "bitmap_test x s \<noteq> 0 \<longleftrightarrow> unat x mod 64 < 32 \<and> page_bit s (unat x)"
  by (simp add: bitmap_test_def ucast_and_exp_eq_0 page_bit_def)

lemma bitmap_set_fields [simp]:
  "pmm_bitmap_addr (bitmap_set x s) = pmm_bitmap_addr s"
  "pmm_bitmap_size (bitmap_set x s) = pmm_bitmap_size s"
  "pmm_total_pages_count (bitmap_set x s) = pmm_total_pages_count s"
  "pmm_free_pages_count (bitmap_set x s) = pmm_free_pages_count s"
  "pmm_ref_counts (bitmap_set x s) = pmm_ref_counts s"
  "pmm_ref_start (bitmap_set x s) = pmm_ref_start s"
  "pmm_ref_end (bitmap_set x s) = pmm_ref_end s"
  "length (pmm_bitmap (bitmap_set x s)) = length (pmm_bitmap s)"
  by (simp_all add: bitmap_set_def Let_def)

lemma bitmap_clear_fields [simp]:
  "pmm_bitmap_addr (bitmap_clear x s) = pmm_bitmap_addr s"
  "pmm_bitmap_size (bitmap_clear x s) = pmm_bitmap_size s"
  "pmm_total_pages_count (bitmap_clear x s) = pmm_total_pages_count s"
  "pmm_free_pages_count (bitmap_clear x s) = pmm_free_pages_count s"
  "pmm_ref_counts (bitmap_clear x s) = pmm_ref_counts s"
  "pmm_ref_start (bitmap_clear x s) = pmm_ref_start s"
  "pmm_ref_end (bitmap_clear x s) = pmm_ref_end s"
  "length (pmm_bitmap (bitmap_clear x s)) = length (pmm_bitmap s)"
  by (simp_all add: bitmap_clear_def Let_def)

lemma page_bit_upd_count [simp]: "page_bit (s\<lparr>pmm_free_pages_count := n\<rparr>) p = page_bit s p"
  by (simp add: page_bit_def)

lemma div_mod_64_eq: "(p div 64 = q div 64 \<and> p mod 64 = q mod 64) = (p = q)" for p q :: nat
  by (metis mod_div_mult_eq)

lemma page_bit_set:
  assumes "unat x div 64 < length (pmm_bitmap s)"
  shows "page_bit (bitmap_set x s) p \<longleftrightarrow> page_bit s p \<or> p = unat x"
proof (cases "p div 64 = unat x div 64")
  case True
  then show ?thesis
    using assms div_mod_64_eq [of p "unat x"]
    by (auto simp: page_bit_def bitmap_set_def Let_def bit_or_iff bit_exp_iff)
next
  case False
  then show ?thesis
    by (auto simp: page_bit_def bitmap_set_def Let_def)
qed

lemma page_bit_clear:
  assumes "unat x div 64 < length (pmm_bitmap s)"
  shows "page_bit (bitmap_clear x s) p \<longleftrightarrow> page_bit s p \<and> p \<noteq> unat x"
proof (cases "p div 64 = unat x div 64")
  case True
  then show ?thesis
    using assms div_mod_64_eq [of p "unat x"]
    by (auto simp: page_bit_def bitmap_clear_def Let_def bit_and_iff bit_not_iff bit_exp_iff)
next
  case False
  then show ?thesis
    by (auto simp: page_bit_def bitmap_clear_def Let_def)
qed

lemma pmm_inv_index:
  assumes "pmm_inv s" and "p < unat (pmm_total_pages_count s)"
  shows "p div 64 < length (pmm_bitmap s)"
  using assms by (auto simp: pmm_inv_def)

lemma finite_page_free [simp]: "finite {p. page_free s p}"
  by (rule finite_subset [of _ "{..<unat (pmm_total_pages_count s)}"]) (auto simp: page_free_def)

text \<open>Taking one free page and giving one used page back keep the count exact.\<close>

lemma pmm_inv_take:
  assumes "pmm_inv s" and "page_free s (unat x)"
  shows "pmm_inv ((bitmap_set x s)\<lparr>pmm_free_pages_count := pmm_free_pages_count s - 1\<rparr>)"
    (is "pmm_inv ?t")
    and "page_free ((bitmap_set x s)\<lparr>pmm_free_pages_count := n\<rparr>) p \<longleftrightarrow> page_free s p \<and> p \<noteq> unat x"
proof -
  have idx: "unat x div 64 < length (pmm_bitmap s)"
    using assms by (auto simp: page_free_def intro: pmm_inv_index)
  have fr: "page_free ((bitmap_set x s)\<lparr>pmm_free_pages_count := n\<rparr>) p \<longleftrightarrow> page_free s p \<and> p \<noteq> unat x"
    for p n by (auto simp: page_free_def page_bit_set [OF idx])
  then show "page_free ((bitmap_set x s)\<lparr>pmm_free_pages_count := n\<rparr>) p \<longleftrightarrow> page_free s p \<and> p \<noteq> unat x" .
  have eq: "{p. page_free ?t p} = {p. page_free s p} - {unat x}"
    using fr by auto
  have pos: "unat (pmm_free_pages_count s) = card {p. page_free s p}"
    and gt: "card {p. page_free s p} > 0"
    using assms by (auto simp: pmm_inv_def card_gt_0_iff)
  have "unat (pmm_free_pages_count s - 1) = card {p. page_free ?t p}"
    unfolding eq using pos gt assms(2)
    by (simp add: card_Diff_singleton unat_minus_one unat_gt_0 [symmetric])
  then show "pmm_inv ?t"
    using assms(1) by (simp add: pmm_inv_def)
qed

lemma pmm_inv_give:
  assumes "pmm_inv s" and "unat x < unat (pmm_total_pages_count s)" and "page_bit s (unat x)"
  shows "pmm_inv ((bitmap_clear x s)\<lparr>pmm_free_pages_count := pmm_free_pages_count s + 1\<rparr>)"
    (is "pmm_inv ?t")
    and "page_free ((bitmap_clear x s)\<lparr>pmm_free_pages_count := n\<rparr>) p \<longleftrightarrow> page_free s p \<or> p = unat x"
proof -
  have idx: "unat x div 64 < length (pmm_bitmap s)"
    using assms by (auto intro: pmm_inv_index)
  have fr: "page_free ((bitmap_clear x s)\<lparr>pmm_free_pages_count := n\<rparr>) p \<longleftrightarrow> page_free s p \<or> p = unat x"
    for p n using assms(2) by (auto simp: page_free_def page_bit_clear [OF idx])
  then show "page_free ((bitmap_clear x s)\<lparr>pmm_free_pages_count := n\<rparr>) p \<longleftrightarrow> page_free s p \<or> p = unat x" .
  have eq: "{p. page_free ?t p} = insert (unat x) {p. page_free s p}"
    using fr by auto
  have notin: "unat x \<notin> {p. page_free s p}"
    using assms(3) by (simp add: page_free_def)
  have "card {p. page_free s p} \<le> card {..<unat (pmm_total_pages_count s)}"
    by (rule card_mono) (auto simp: page_free_def)
  then have "unat (pmm_free_pages_count s) < 2 ^ 52"
    using assms(1) by (simp add: pmm_inv_def)
  then have "unat (pmm_free_pages_count s + 1) = card {p. page_free ?t p}"
    unfolding eq using notin assms(1) by (simp add: unat_word_ariths pmm_inv_def)
  then show "pmm_inv ?t"
    using assms(1) by (simp add: pmm_inv_def)
qed


section \<open>Allocation finds the lowest free page\<close>

lemma page_bit_word: "j < 64 \<Longrightarrow> page_bit s (i * 64 + j) = bit (pmm_bitmap s ! i) j"
  by (simp add: page_bit_def)

lemma of_nat_page: "(of_nat i * 64 + of_nat j :: u64) = of_nat (i * 64 + j)"
  by simp

lemma of_nat_less_u64:
  assumes "p < 2 ^ 64"
  shows "(of_nat p < n) = (p < unat (n :: u64))" "(n \<le> of_nat p) = (\<not> p < unat n)"
  using unat_of_nat_u64 [OF assms] by (auto simp: word_less_nat_alt word_le_nat_alt)

lemma alloc_scan_bits_eq:
  assumes "j + k = 64" and "i * 64 + 64 \<le> 2 ^ 64"
  shows "alloc_scan_bits s i j k = map_option of_nat (find (page_free s) [i * 64 + j..<i * 64 + 64])"
  using assms
proof (induction k arbitrary: j)
  case 0
  then show ?case by simp
next
  case (Suc k)
  then have j: "j < 64" "i * 64 + j < 2 ^ 64" by auto
  have upt: "[i * 64 + j..<i * 64 + 64] = (i * 64 + j) # [i * 64 + Suc j..<i * 64 + 64]"
    using j by (simp add: upt_conv_Cons)
  have free: "page_free s (i * 64 + j) \<longleftrightarrow>
      pmm_bitmap s ! i AND push_bit j 1 = 0 \<and>
      \<not> of_nat i * 64 + of_nat j \<ge> pmm_total_pages_count s"
    unfolding of_nat_page [of i j] of_nat_less_u64(2) [OF j(2)] not_not
    using j(1) by (simp add: page_free_def page_bit_word and_exp_eq_0 conj_commute)
  show ?case
  proof (cases "page_free s (i * 64 + j)")
    case True
    then show ?thesis
      using free unfolding upt alloc_scan_bits.simps Let_def by simp
  next
    case False
    then have "alloc_scan_bits s i j (Suc k) = alloc_scan_bits s i (Suc j) k"
      using free unfolding alloc_scan_bits.simps Let_def by presburger
    also have "\<dots> = map_option of_nat (find (page_free s) [i * 64 + Suc j..<i * 64 + 64])"
      using Suc.prems by (intro Suc.IH) simp_all
    finally show ?thesis
      using False unfolding upt by simp
  qed
qed

lemma find_None_upt: "(\<And>p. a \<le> p \<Longrightarrow> p < b \<Longrightarrow> \<not> P p) \<Longrightarrow> find P [a..<b] = None"
  by (auto simp: find_None_iff)

lemma find_append_split:
  "find P (xs @ ys) = (case find P xs of None \<Rightarrow> find P ys | Some x \<Rightarrow> Some x)"
  by (induction xs) auto

lemma alloc_scan_words_eq:
  assumes "(i + k) * 64 \<le> 2 ^ 64"
  shows "alloc_scan_words s i k = map_option of_nat (find (page_free s) [i * 64..<(i + k) * 64])"
  using assms
proof (induction k arbitrary: i)
  case 0
  then show ?case by simp
next
  case (Suc k)
  have upt: "[i * 64..<(i + Suc k) * 64] = [i * 64..<i * 64 + 64] @ [Suc i * 64..<(Suc i + k) * 64]"
    using upt_add_eq_append [of "i * 64" "i * 64 + 64" "k * 64"]
    by (simp add: algebra_simps)
  have IH: "alloc_scan_words s (Suc i) k =
      map_option of_nat (find (page_free s) [Suc i * 64..<(Suc i + k) * 64])"
    using Suc.prems by (intro Suc.IH) simp
  have bits: "alloc_scan_bits s i 0 64 = map_option of_nat (find (page_free s) [i * 64..<i * 64 + 64])"
    using alloc_scan_bits_eq [of 0 64 i s] Suc.prems by simp
  have full: "find (page_free s) [i * 64..<i * 64 + 64] = None" if "pmm_bitmap s ! i = -1"
  proof (rule find_None_upt)
    fix p assume "i * 64 \<le> p" "p < i * 64 + 64"
    then obtain j where "p = i * 64 + j" "j < 64" by (metis le_Suc_ex nat_add_left_cancel_less)
    then show "\<not> page_free s p"
      using that by (simp add: page_free_def page_bit_word)
  qed
  show ?case
    unfolding upt find_append_split
    by (simp add: IH bits full del: mult_Suc alloc_scan_bits.simps split: option.splits)
qed

definition lowest_free :: "pmm \<Rightarrow> nat option" where
  "lowest_free s = find (page_free s) [0..<unat (pmm_total_pages_count s)]"

lemma find_upt_extend:
  assumes "b \<le> c" and "\<And>p. b \<le> p \<Longrightarrow> \<not> P p"
  shows "find P [0..<c] = find P [0..<b]"
proof -
  have "[0..<c] = [0..<b] @ [b..<c]"
    using assms(1) by (metis le_add_diff_inverse upt_add_eq_append zero_le)
  moreover have "find P [b..<c] = None"
    using assms(2) by (simp add: find_None_upt)
  ultimately show ?thesis
    by (simp add: find_append_split split: option.splits)
qed

lemma alloc_scan_lowest:
  assumes "pmm_inv s"
  shows "alloc_scan_words s 0 (unat (pmm_bitmap_size s)) = map_option of_nat (lowest_free s)"
proof -
  have "find (page_free s) [0..<unat (pmm_bitmap_size s) * 64] = lowest_free s"
    unfolding lowest_free_def using assms
    by (intro find_upt_extend) (auto simp: pmm_inv_def page_free_def)
  then show ?thesis
    using alloc_scan_words_eq [of 0 "unat (pmm_bitmap_size s)" s] assms by (simp add: pmm_inv_def)
qed

lemma find_upt_Some_iff:
  "find P [0..<n] = Some p \<longleftrightarrow> p < n \<and> P p \<and> (\<forall>q < p. \<not> P q)"
  by (auto simp: find_Some_iff)

lemma lowest_free_Some_iff:
  "lowest_free s = Some p \<longleftrightarrow> page_free s p \<and> (\<forall>q < p. \<not> page_free s q)"
  unfolding lowest_free_def find_upt_Some_iff by (auto simp: page_free_def)

lemma lowest_free_None_iff: "lowest_free s = None \<longleftrightarrow> (\<forall>p. \<not> page_free s p)"
  unfolding lowest_free_def by (auto simp: find_None_iff page_free_def)


section \<open>Each operation keeps the invariant\<close>

lemma pmm_inv_cong:
  assumes "pmm_inv s" and "length r = length (pmm_ref_counts s)"
  shows "pmm_inv (s\<lparr>pmm_ref_counts := r\<rparr>)"
  using assms by (simp add: pmm_inv_def page_free_def page_bit_def)

lemma page_free_refs [simp]: "page_free (s\<lparr>pmm_ref_counts := r\<rparr>) = page_free s"
  by (simp add: page_free_def page_bit_def fun_eq_iff)

text \<open>
  \<open>pmm_alloc_page\<close> returns the lowest free page and marks that page only; with no free page
  it returns 0 and changes nothing.
\<close>

lemma pmm_alloc_lowest:
  assumes "pmm_inv s"
  shows "pmm_alloc_page s = (case lowest_free s of
           None \<Rightarrow> (0, s)
         | Some p \<Rightarrow> (of_nat p * 4096,
             (bitmap_set (of_nat p) s)\<lparr>pmm_free_pages_count := pmm_free_pages_count s - 1\<rparr>))"
proof (cases "lowest_free s")
  case None
  then show ?thesis
    using alloc_scan_lowest [OF assms] by (simp add: pmm_alloc_page_def)
next
  case (Some p)
  then have "page_free s p" by (simp add: lowest_free_Some_iff)
  then have "card {p. page_free s p} > 0" by (auto simp: card_gt_0_iff)
  then have "pmm_free_pages_count s \<noteq> 0" using assms(1) by (auto simp: pmm_inv_def)
  then show ?thesis
    using Some alloc_scan_lowest [OF assms] by (simp add: pmm_alloc_page_def Let_def)
qed

lemma page_free_small:
  assumes "pmm_inv s" and "page_free s p"
  shows "unat (of_nat p :: u64) = p" and "unat (of_nat p * 4096 :: u64) = p * 4096"
proof -
  have "p < 2 ^ 52" using assms by (auto simp: pmm_inv_def page_free_def)
  then show "unat (of_nat p :: u64) = p" and "unat (of_nat p * 4096 :: u64) = p * 4096"
    using unat_mult_u64 [of "of_nat p" 4096] unat_of_nat_u64 [of p] by simp_all
qed

lemma pmm_alloc_page_inv:
  assumes "pmm_inv s"
  shows "pmm_inv (snd (pmm_alloc_page s))"
proof (cases "lowest_free s")
  case (Some p)
  then have free: "page_free s p" by (simp add: lowest_free_Some_iff)
  then show ?thesis
    using pmm_inv_take(1) [OF assms(1), of "of_nat p"] page_free_small(1) [OF assms(1) free]
    by (simp add: pmm_alloc_lowest [OF assms] Some)
qed (simp add: pmm_alloc_lowest [OF assms] assms)

lemma pmm_alloc_page_free:
  assumes "pmm_inv s" and "lowest_free s = Some p"
  shows "page_free (snd (pmm_alloc_page s)) q \<longleftrightarrow> page_free s q \<and> q \<noteq> p"
proof -
  have free: "page_free s p" using assms(2) by (simp add: lowest_free_Some_iff)
  then show ?thesis
    using pmm_inv_take(2) [OF assms(1), of "of_nat p"] page_free_small(1) [OF assms(1) free]
    by (simp add: pmm_alloc_lowest [OF assms(1)] assms(2))
qed

lemma pmm_alloc_page_fields [simp]:
  "pmm_bitmap_size (snd (pmm_alloc_page s)) = pmm_bitmap_size s"
  "pmm_total_pages_count (snd (pmm_alloc_page s)) = pmm_total_pages_count s"
  "pmm_ref_counts (snd (pmm_alloc_page s)) = pmm_ref_counts s"
  "pmm_bitmap_addr (snd (pmm_alloc_page s)) = pmm_bitmap_addr s"
  "pmm_ref_start (snd (pmm_alloc_page s)) = pmm_ref_start s"
  "pmm_ref_end (snd (pmm_alloc_page s)) = pmm_ref_end s"
  by (simp_all add: pmm_alloc_page_def Let_def split: option.splits)

text \<open>
  \<open>pmm_free_page\<close> gives a used page back when the page's bit is in the lower half of its
  bitmap word, and is without effect for every other page.
\<close>

lemma pmm_free_page_eq:
  "pmm_free_page a s =
     (if unat a div 4096 < unat (pmm_total_pages_count s) \<and>
         page_bit s (unat a div 4096) \<and> unat a div 4096 mod 64 < 32
      then (bitmap_clear (a div 4096) s)\<lparr>pmm_free_pages_count := pmm_free_pages_count s + 1\<rparr>
      else s)"
  using bitmap_test_iff [of "a div 4096" s]
  by (auto simp: pmm_free_page_def Let_def word_le_nat_alt)

lemma pmm_free_page_inv: "pmm_inv s \<Longrightarrow> pmm_inv (pmm_free_page a s)"
  using pmm_inv_give(1) [of s "a div 4096"] by (simp add: pmm_free_page_eq)

lemma pmm_free_page_free:
  assumes "pmm_inv s"
  shows "page_free (pmm_free_page a s) q \<longleftrightarrow>
     page_free s q \<or> (q = unat a div 4096 \<and> q < unat (pmm_total_pages_count s) \<and> q mod 64 < 32)"
proof (cases "unat a div 4096 < unat (pmm_total_pages_count s) \<and>
         page_bit s (unat a div 4096) \<and> unat a div 4096 mod 64 < 32")
  case True
  then show ?thesis
    using pmm_inv_give(2) [OF assms, of "a div 4096"] by (auto simp: pmm_free_page_eq)
next
  case False
  then show ?thesis
    unfolding pmm_free_page_eq if_not_P [OF False] by (auto simp: page_free_def)
qed

lemma pmm_free_page_fields [simp]:
  "pmm_bitmap_size (pmm_free_page a s) = pmm_bitmap_size s"
  "pmm_total_pages_count (pmm_free_page a s) = pmm_total_pages_count s"
  "pmm_ref_counts (pmm_free_page a s) = pmm_ref_counts s"
  by (simp_all add: pmm_free_page_eq)

text \<open>One step of \<open>pmm_free_range\<close> frees at most its own page, and only outside the two tables.\<close>

lemma free_range_step_fields [simp]:
  "pmm_bitmap_size (free_range_step b e p s) = pmm_bitmap_size s"
  "pmm_total_pages_count (free_range_step b e p s) = pmm_total_pages_count s"
  "pmm_bitmap_addr (free_range_step b e p s) = pmm_bitmap_addr s"
  "pmm_ref_start (free_range_step b e p s) = pmm_ref_start s"
  "pmm_ref_end (free_range_step b e p s) = pmm_ref_end s"
  "pmm_ref_counts (free_range_step b e p s) = pmm_ref_counts s"
  by (simp_all add: free_range_step_def Let_def)

lemma free_range_step_cases:
  obtains "free_range_step b e x s = s"
  | "free_range_step b e x s =
       (bitmap_clear x s)\<lparr>pmm_free_pages_count := pmm_free_pages_count s + 1\<rparr>"
    and "page_bit s (unat x)"
    and "\<not> (b \<le> x * 4096 \<and> x * 4096 < e + 4096)"
    and "\<not> (pmm_ref_start s \<le> x * 4096 \<and> x * 4096 < pmm_ref_end s)"
  using bitmap_test_iff [of x s]
  by (cases "free_range_step b e x s = s")
     (auto simp: free_range_step_def Let_def split: if_splits)

lemma free_range_step_inv:
  assumes "pmm_inv s" and "x < pmm_total_pages_count s"
  shows "pmm_inv (free_range_step b e x s)"
proof (cases rule: free_range_step_cases [of b e x s])
  case 2
  then show ?thesis
    using pmm_inv_give(1) [OF assms(1), of x] assms(2) by (simp add: word_less_nat_alt)
qed (simp add: assms(1))


section \<open>Free pages stay clear of the kernel and the tables\<close>

text \<open>
  The tables are page aligned, lie after each other without wrapping, and every free page
  lies behind both of them.
\<close>

definition pmm_tables :: "pmm \<Rightarrow> bool" where
  "pmm_tables s \<longleftrightarrow>
     4096 dvd unat (pmm_bitmap_addr s) \<and>
     unat (pmm_bitmap_addr s) + 8 * unat (pmm_bitmap_size s) + 4096 < 2 ^ 64 \<and>
     unat (pmm_ref_start s) \<le> unat (pmm_bitmap_addr s) + 8 * unat (pmm_bitmap_size s) + 4096"

definition pmm_protected :: "pmm \<Rightarrow> bool" where
  "pmm_protected s \<longleftrightarrow> (\<forall>p. page_free s p \<longrightarrow> unat (pmm_ref_end s) \<le> p * 4096)"

definition pmm_ready :: "pmm \<Rightarrow> bool" where
  "pmm_ready s \<longleftrightarrow> pmm_inv s \<and> pmm_tables s \<and> pmm_protected s"

lemma pmm_tables_step [simp]: "pmm_tables (free_range_step b e x s) = pmm_tables s"
  by (simp add: pmm_tables_def)

lemma bitmap_end_nat:
  assumes "pmm_tables s"
  shows "unat (pmm_bitmap_addr s + pmm_bitmap_size s * 8 + 4096) =
         unat (pmm_bitmap_addr s) + 8 * unat (pmm_bitmap_size s) + 4096"
  using assms by (simp add: pmm_tables_def unat_word_ariths)

lemma page_addr_nat:
  assumes "pmm_inv s" and "x < pmm_total_pages_count s"
  shows "unat (x * 4096) = unat x * 4096"
proof -
  have "unat x < 2 ^ 52"
    using assms by (auto simp: pmm_inv_def word_less_nat_alt)
  then show ?thesis by (simp add: unat_word_ariths)
qed

lemma free_range_step_protected:
  assumes "pmm_ready s" and x: "x < pmm_total_pages_count s"
    and first: "pmm_bitmap_addr s div 4096 \<le> x"
  shows "pmm_ready (free_range_step (pmm_bitmap_addr s) (pmm_bitmap_addr s + pmm_bitmap_size s * 8) x s)"
    (is "pmm_ready ?t")
proof -
  have inv: "pmm_inv s" and tab: "pmm_tables s" and prot: "pmm_protected s"
    using assms(1) by (auto simp: pmm_ready_def)
  have "pmm_protected ?t"
  proof (cases rule: free_range_step_cases [of "pmm_bitmap_addr s"
        "pmm_bitmap_addr s + pmm_bitmap_size s * 8" x s])
    case 1
    with prot show ?thesis by simp
  next
    case 2
    have "unat (pmm_bitmap_addr s) \<le> unat x * 4096"
      using first tab by (auto simp: pmm_tables_def word_le_nat_alt)
    then have "unat (pmm_ref_end s) \<le> unat x * 4096"
      using 2(3,4) tab bitmap_end_nat [OF tab] page_addr_nat [OF inv x]
      by (auto simp: pmm_tables_def word_le_nat_alt word_less_nat_alt)
    then show ?thesis
      using prot pmm_inv_give(2) [OF inv, of x] 2(2) x
      by (auto simp: 2(1) pmm_protected_def word_less_nat_alt)
  qed
  then show ?thesis
    using inv x tab by (simp add: pmm_ready_def free_range_step_inv)
qed

lemma pmm_free_range_ready:
  assumes "pmm_ready s"
  shows "pmm_ready (pmm_free_range start len s)"
proof -
  let ?b = "pmm_bitmap_addr s" and ?n = "pmm_bitmap_size s" and ?tot = "pmm_total_pages_count s"
  let ?P = "\<lambda>t. pmm_ready t \<and> pmm_bitmap_addr t = ?b \<and> pmm_bitmap_size t = ?n \<and>
      pmm_total_pages_count t = ?tot"
  have "?P (word_for a (min l ?tot) (free_range_step ?b (?b + ?n * 8)) s)"
    if "?b div 4096 \<le> a" for a l
  proof (rule word_for_invariant)
    fix i t
    assume "?P t" "a \<le> i" "i < min l ?tot"
    then show "?P (free_range_step ?b (?b + ?n * 8) i t)"
      using free_range_step_protected [of t i] that by auto
  qed (simp add: assms)
  then show ?thesis
    by (simp add: pmm_free_range_def Let_def linorder_not_less)
qed

lemma mmap_free_walk_ready:
  "pmm_ready s \<Longrightarrow> pmm_ready (mmap_free_walk ent p e s)"
proof (induction ent p e s rule: mmap_free_walk.induct)
  case (1 ent p e s)
  then show ?case
    by (simp add: mmap_free_walk.simps [of ent p] pmm_free_range_ready)
qed

subsection \<open>The state right after the layout\<close>

lemma and_minus_4096: "x AND - 4096 = x - x mod 4096" for x :: u64
proof -
  have "x = (x AND mask 12) + (x AND NOT (mask 12))"
    by (auto simp: disjunctive_add_eq_or bit_eq_iff bit_and_iff bit_or_iff bit_not_iff)
  moreover have "x AND mask 12 = x mod 4096"
    by (simp add: take_bit_eq_mod flip: take_bit_eq_mask)
  moreover have "NOT (mask 12) = (- 4096 :: u64)"
    by (simp add: mask_eq_exp_minus_1)
  ultimately show ?thesis by (metis add_diff_cancel_left')
qed

lemma page_round_up_nat:
  assumes "unat x + 4095 < 2 ^ 64"
  shows "unat (page_round_up x) = (unat x + 4095) div 4096 * 4096"
proof -
  have sum: "unat (x + 4095) = unat x + 4095"
    using assms by (simp add: unat_word_ariths)
  have "x + 4096 - 1 = x + 4095" by simp
  then have "page_round_up x = (x + 4095) - (x + 4095) mod 4096"
    unfolding page_round_up_def by (simp add: and_minus_4096 add.commute)
  moreover have "(x + 4095) mod 4096 \<le> x + 4095"
    by (simp add: word_le_nat_alt unat_mod)
  ultimately have "unat (page_round_up x) = unat x + 4095 - (unat x + 4095) mod 4096"
    by (simp add: unat_sub unat_mod sum)
  then show ?thesis by (simp add: minus_mod_eq_div_mult)
qed

lemma page_round_up_bounds:
  assumes "unat x + 4095 < 2 ^ 64"
  shows "unat x \<le> unat (page_round_up x)" "unat (page_round_up x) \<le> unat x + 4095"
    "4096 dvd unat (page_round_up x)"
  unfolding page_round_up_nat [OF assms] by (linarith, linarith, simp)

lemma pmm_total_mem_bounds:
  "pmm_total_mem mbi ent \<noteq> 0" "unat (pmm_total_mem mbi ent) \<le> 0x20000000"
  by (simp_all add: pmm_total_mem_def Let_def word_less_nat_alt)

lemma pmm_layout_ready:
  assumes s: "s = pmm_layout kernel_end total_mem raw"
    and mem: "unat total_mem \<le> 0x20000000" and kernel: "unat kernel_end < 2 ^ 63"
  shows "pmm_ready s"
    and "unat kernel_end + 8 * unat (pmm_bitmap_size s) + 4 * unat (pmm_total_pages_count s)
           \<le> unat (pmm_ref_end s)"
    and "\<not> page_free s p"
proof -
  let ?pages = "total_mem div 4096"
  let ?words = "(?pages + 63) div 64"
  have pages: "unat ?pages \<le> 131072" using mem by simp
  then have words: "unat ?words = (unat ?pages + 63) div 64" "unat ?words \<le> 2048"
    by (simp_all add: unat_word_ariths)
  have limit: "\<not> ?words > 1048576" using words(2) by (simp add: word_less_nat_alt)
  have w8: "unat (?words * 8) = 8 * unat ?words" and p4: "unat (?pages * 4) = 4 * unat ?pages"
    using words(2) pages by (simp_all add: unat_word_ariths)
  have kernel': "unat kernel_end < 9223372036854775808" using kernel by simp
  have bm: "unat kernel_end + 4095 < 2 ^ 64" using kernel by simp
  have r8: "unat (?words * 8) + 4095 < 2 ^ 64" using words(2) w8 by simp
  have r4: "unat (?pages * 4) + 4095 < 2 ^ 64" using pages p4 by simp
  note bounds = page_round_up_bounds [OF bm] page_round_up_bounds [OF r8] page_round_up_bounds [OF r4]
  have all1: "pmm_bitmap s = replicate (unat ?words) (-1)"
    using limit by (auto simp: s pmm_layout_def Let_def map_replicate_const intro: nth_equalityI)
  show nofree: "\<not> page_free s p" for p
  proof -
    have "p div 64 < unat ?words" if "p < unat ?pages"
      using that words(1) by linarith
    moreover have "pmm_total_pages_count s = ?pages" by (simp add: s pmm_layout_def Let_def)
    ultimately show ?thesis by (auto simp: page_free_def page_bit_def all1)
  qed
  have fields: "pmm_bitmap_addr s = page_round_up kernel_end" "pmm_bitmap_size s = ?words"
    "pmm_total_pages_count s = ?pages" "pmm_free_pages_count s = 0"
    "length (pmm_ref_counts s) = unat ?pages"
    "pmm_ref_start s = page_round_up kernel_end + page_round_up (?words * 8)"
    "pmm_ref_end s = pmm_ref_start s + page_round_up (?pages * 4)"
    by (simp_all add: s pmm_layout_def Let_def)
  have rs: "unat (pmm_ref_start s) = unat (page_round_up kernel_end) + unat (page_round_up (?words * 8))"
  proof -
    have "unat (page_round_up kernel_end) + unat (page_round_up (?words * 8)) < 18446744073709551616"
      using bounds(2,5) kernel' words(2) w8 by linarith
    then show ?thesis unfolding fields by (intro unat_add_u64) simp
  qed
  have re: "unat (pmm_ref_end s) = unat (pmm_ref_start s) + unat (page_round_up (?pages * 4))"
  proof -
    have "unat (pmm_ref_start s) + unat (page_round_up (?pages * 4)) < 18446744073709551616"
      using rs bounds(2,5,8) kernel' words(2) pages w8 p4 by linarith
    then show ?thesis unfolding fields(7) by (intro unat_add_u64) simp
  qed
  show "unat kernel_end + 8 * unat (pmm_bitmap_size s) + 4 * unat (pmm_total_pages_count s)
           \<le> unat (pmm_ref_end s)"
    unfolding fields(2,3) using re rs bounds(1,4,7) w8 p4 by linarith
  have "pmm_inv s"
    using nofree words pages by (simp add: pmm_inv_def fields all1)
  moreover have "pmm_tables s"
    unfolding pmm_tables_def fields(1,2) using rs words(2) kernel' bounds(2,3,5) w8 by simp
  ultimately show "pmm_ready s"
    using nofree by (simp add: pmm_ready_def pmm_protected_def)
qed

lemma pmm_free_range_layout [simp]:
  "pmm_ref_end (pmm_free_range start len s) = pmm_ref_end s"
  "pmm_bitmap_size (pmm_free_range start len s) = pmm_bitmap_size s"
  "pmm_total_pages_count (pmm_free_range start len s) = pmm_total_pages_count s"
proof -
  let ?P = "\<lambda>t. pmm_ref_end t = pmm_ref_end s \<and> pmm_bitmap_size t = pmm_bitmap_size s \<and>
      pmm_total_pages_count t = pmm_total_pages_count s"
  have "?P (word_for a b (free_range_step c d) s)" for a b c d
    by (rule word_for_invariant) simp_all
  then show "pmm_ref_end (pmm_free_range start len s) = pmm_ref_end s"
    "pmm_bitmap_size (pmm_free_range start len s) = pmm_bitmap_size s"
    "pmm_total_pages_count (pmm_free_range start len s) = pmm_total_pages_count s"
    by (simp_all add: pmm_free_range_def Let_def)
qed

lemma mmap_free_walk_layout [simp]:
  "pmm_ref_end (mmap_free_walk ent p e s) = pmm_ref_end s"
  "pmm_bitmap_size (mmap_free_walk ent p e s) = pmm_bitmap_size s"
  "pmm_total_pages_count (mmap_free_walk ent p e s) = pmm_total_pages_count s"
  by (induction ent p e s rule: mmap_free_walk.induct, subst mmap_free_walk.simps, simp)+

lemma pmm_init_ready:
  assumes s: "s = pmm_init kernel_end mbi ent raw" and "unat kernel_end < 2 ^ 63"
  shows "pmm_ready s"
    and "unat kernel_end + 8 * unat (pmm_bitmap_size s) + 4 * unat (pmm_total_pages_count s)
           \<le> unat (pmm_ref_end s)"
  using pmm_layout_ready(1,2) [OF refl pmm_total_mem_bounds(2) assms(2)]
  by (auto simp: s pmm_init_def Let_def mmap_free_walk_ready)


section \<open>The allocator contract\<close>

definition pmm_ok :: "pmm \<Rightarrow> bool" where
  "pmm_ok s \<longleftrightarrow> pmm_inv s \<and> \<not> page_free s 0"

definition avail_pages :: "pmm \<Rightarrow> u64 set" where
  "avail_pages s = (\<lambda>p. of_nat p * 4096) ` {p. page_free s p}"

lemma avail_pages_iff:
  assumes "pmm_inv s"
  shows "a \<in> avail_pages s \<longleftrightarrow> unat a mod 4096 = 0 \<and> page_free s (unat a div 4096)"
proof
  assume "a \<in> avail_pages s"
  then obtain p where "a = of_nat p * 4096" "page_free s p" by (auto simp: avail_pages_def)
  then show "unat a mod 4096 = 0 \<and> page_free s (unat a div 4096)"
    using page_free_small(2) [OF assms] by simp
next
  assume r: "unat a mod 4096 = 0 \<and> page_free s (unat a div 4096)"
  then have "unat (of_nat (unat a div 4096) * 4096 :: u64) = unat a"
    using page_free_small(2) [OF assms, of "unat a div 4096"] by auto
  then have "a = of_nat (unat a div 4096) * 4096"
    by (simp only: word_unat_eq_iff)
  with r show "a \<in> avail_pages s" unfolding avail_pages_def by blast
qed

lemma avail_pages_alloc:
  assumes "pmm_inv s"
  shows "avail_pages s = {} \<Longrightarrow> pmm_alloc_page s = (0, s)"
    and "avail_pages s \<noteq> {} \<Longrightarrow> fst (pmm_alloc_page s) \<in> avail_pages s"
    and "avail_pages (snd (pmm_alloc_page s)) = avail_pages s - {fst (pmm_alloc_page s)}"
proof -
  show none: "avail_pages s = {} \<Longrightarrow> pmm_alloc_page s = (0, s)"
    by (simp add: avail_pages_def pmm_alloc_lowest [OF assms] lowest_free_None_iff [THEN iffD2])
  have some: "\<exists>p. lowest_free s = Some p \<and> fst (pmm_alloc_page s) = of_nat p * 4096"
    if "avail_pages s \<noteq> {}"
  proof -
    have "lowest_free s \<noteq> None" using that by (auto simp: avail_pages_def lowest_free_None_iff)
    then show ?thesis by (auto simp: pmm_alloc_lowest [OF assms])
  qed
  show "avail_pages s \<noteq> {} \<Longrightarrow> fst (pmm_alloc_page s) \<in> avail_pages s"
    using some by (auto simp: avail_pages_def lowest_free_Some_iff)
  show "avail_pages (snd (pmm_alloc_page s)) = avail_pages s - {fst (pmm_alloc_page s)}"
  proof (cases "avail_pages s = {}")
    case False
    then obtain p where p: "lowest_free s = Some p" "fst (pmm_alloc_page s) = of_nat p * 4096"
      using some by blast
    then have nat: "unat (fst (pmm_alloc_page s)) = p * 4096"
      using page_free_small(2) [OF assms] by (simp add: lowest_free_Some_iff)
    show ?thesis
      by (auto simp: avail_pages_iff [OF assms] avail_pages_iff [OF pmm_alloc_page_inv [OF assms]]
            pmm_alloc_page_free [OF assms p(1)] word_unat_eq_iff nat)
  qed (simp add: none)
qed

interpretation pmm_pages: page_allocator pmm_alloc_page pmm_free_page pmm_ok avail_pages
proof unfold_locales
  fix s a
  assume ok: "pmm_ok s"
  then have inv: "pmm_inv s" by (simp add: pmm_ok_def)
  show "finite (avail_pages s)" by (simp add: avail_pages_def)
  have "a \<noteq> 0 \<and> a mod 4096 = 0" if "a \<in> avail_pages s"
    using that ok
    by (cases "a = 0") (simp_all add: avail_pages_iff [OF inv] pmm_ok_def word_unat_eq_iff unat_mod)
  then show "a \<noteq> 0" "a mod 4096 = 0" if "a \<in> avail_pages s" using that by simp_all
  show "fst (pmm_alloc_page s) \<in> avail_pages s" if "avail_pages s \<noteq> {}"
    using avail_pages_alloc(2) [OF inv that] .
  show "pmm_alloc_page s = (0, s)" if "avail_pages s = {}"
    using avail_pages_alloc(1) [OF inv that] .
  show "avail_pages (snd (pmm_alloc_page s)) = avail_pages s - {fst (pmm_alloc_page s)}"
    using avail_pages_alloc(3) [OF inv] .
  show "pmm_ok (snd (pmm_alloc_page s))"
    using ok pmm_alloc_page_inv [OF inv] pmm_alloc_page_free [OF inv]
    by (cases "lowest_free s") (auto simp: pmm_ok_def pmm_alloc_lowest [OF inv])
  show "pmm_ok (pmm_free_page a s)" if "4096 \<le> a"
    using ok that by (auto simp: pmm_ok_def pmm_free_page_inv pmm_free_page_free word_le_nat_alt)
  show "avail_pages s \<subseteq> avail_pages (pmm_free_page a s)"
    by (auto simp: avail_pages_iff [OF inv] avail_pages_iff [OF pmm_free_page_inv [OF inv]]
          pmm_free_page_free [OF inv])
qed

lemma card_avail_pages:
  assumes "pmm_inv s"
  shows "card (avail_pages s) = unat (pmm_free_pages_count s)"
proof -
  have "inj_on (\<lambda>p. of_nat p * 4096 :: u64) {p. page_free s p}"
    using page_free_small(2) [OF assms] by (auto simp: inj_on_def) (metis mult_right_cancel zero_neq_numeral)
  then show ?thesis
    using assms by (simp add: avail_pages_def card_image pmm_inv_def)
qed



section \<open>Properties\<close>



text \<open>
  C2. On a well-formed state the nested bitmap scan of \<open>pmm_alloc_page\<close> is a search for the
  lowest free page: when a page is free, the lowest one is returned, it alone stops being
  free, and the count stays exact; when none is free the call returns 0 and changes nothing.
\<close>

theorem pmm_alloc_page_spec:
  assumes "pmm_inv s"
  shows "case find (page_free s) [0..<unat (pmm_total_pages_count s)] of
           None \<Rightarrow> pmm_alloc_page s = (0, s)
         | Some p \<Rightarrow> unat (fst (pmm_alloc_page s)) = p * 4096 \<and>
             (\<forall>q. page_free (snd (pmm_alloc_page s)) q \<longleftrightarrow> page_free s q \<and> q \<noteq> p) \<and>
             pmm_inv (snd (pmm_alloc_page s))"
proof (cases "lowest_free s")
  case None
  then show ?thesis
    unfolding lowest_free_def [symmetric] by (simp add: pmm_alloc_lowest [OF assms])
next
  case (Some p)
  have "unat (fst (pmm_alloc_page s)) = p * 4096"
    using page_free_small(2) [OF assms, of p] Some lowest_free_Some_iff [of s p]
    by (auto simp: pmm_alloc_lowest [OF assms])
  then show ?thesis
    unfolding lowest_free_def [symmetric]
    using Some pmm_alloc_page_free [OF assms Some] pmm_alloc_page_inv [OF assms] by simp
qed

definition sample_pmm :: pmm where
  "sample_pmm = \<lparr>pmm_bitmap = [0xFFFFFFFFFFFFFFF3], pmm_bitmap_addr = 0x1000, pmm_bitmap_size = 1,
     pmm_total_pages_count = 40, pmm_free_pages_count = 2,
     pmm_ref_counts = replicate 40 0, pmm_ref_start = 0x2000, pmm_ref_end = 0x2000\<rparr>"

lemma sample_pmm_free: "page_free sample_pmm p \<longleftrightarrow> p = 2 \<or> p = 3"
proof -
  have "page_free sample_pmm p \<longleftrightarrow> p \<in> set (filter (page_free sample_pmm) [0..<40])"
    by (auto simp: page_free_def sample_pmm_def)
  also have "filter (page_free sample_pmm) [0..<40] = [2, 3]"
    by (code_simp)
  finally show ?thesis by simp
qed

lemma sample_pmm_inv: "pmm_inv sample_pmm" "pmm_ok sample_pmm"
proof -
  have "{p. page_free sample_pmm p} = {2, 3}" using sample_pmm_free by auto
  then show "pmm_inv sample_pmm"
    by (simp add: pmm_inv_def sample_pmm_def)
  then show "pmm_ok sample_pmm"
    by (simp add: pmm_ok_def sample_pmm_free)
qed

theorem pmm_alloc_page_spec_witness:
  "unat (fst (pmm_alloc_page sample_pmm)) = 2 * 4096 \<and>
   (\<forall>q. page_free (snd (pmm_alloc_page sample_pmm)) q \<longleftrightarrow> page_free sample_pmm q \<and> q \<noteq> 2)"
proof -
  have "find (page_free sample_pmm) [0..<unat (pmm_total_pages_count sample_pmm)] = Some 2"
    by code_simp
  then show ?thesis
    using pmm_alloc_page_spec [OF sample_pmm_inv(1)] by simp
qed

text \<open>
  C3. Repeated allocation never hands out a page twice: \<open>n\<close> calls in a row return as many
  non-zero addresses as there are free pages, up to \<open>n\<close>, all different and page aligned.
\<close>

theorem pmm_alloc_distinct:
  assumes "pmm_inv s" and "\<not> page_free s 0"
  shows "let ps = filter (\<lambda>a. a \<noteq> 0) (fst (alloc_n pmm_alloc_page n s)) in
     length ps = min n (unat (pmm_free_pages_count s)) \<and> distinct ps \<and>
     (\<forall>a \<in> set ps. a mod 4096 = 0 \<and> page_free s (unat a div 4096))"
proof -
  have ok: "pmm_ok s" using assms by (simp add: pmm_ok_def)
  show ?thesis
    using pmm_pages.alloc_n_law [OF ok, of n] pmm_pages.avail_nonzero [OF ok] pmm_pages.avail_aligned [OF ok]
    by (auto simp: Let_def card_avail_pages [OF assms(1)] avail_pages_iff [OF assms(1)])
qed

theorem pmm_alloc_distinct_witness:
  "let ps = filter (\<lambda>a. a \<noteq> 0) (fst (alloc_n pmm_alloc_page 5 sample_pmm)) in
     length ps = 2 \<and> distinct ps"
  using pmm_alloc_distinct [OF sample_pmm_inv(1), of 5] sample_pmm_free
  by (simp add: Let_def sample_pmm_def)

text \<open>
  C4. \<open>pmm_free_page\<close> makes exactly the page of the address free, for pages whose bit lies
  in the lower half of a bitmap word, and keeps the count exact; for a page in the upper
  half (index modulo 64 at least 32) it does nothing, because \<open>bitmap_test\<close> returns an
  \<^verbatim>\<open>int\<close>.
\<close>

theorem pmm_free_page_spec:
  assumes "pmm_inv s" and "unat addr div 4096 < unat (pmm_total_pages_count s)"
  shows "pmm_inv (pmm_free_page addr s) \<and>
     (unat addr div 4096 mod 64 < 32 \<longrightarrow>
        (\<forall>q. page_free (pmm_free_page addr s) q \<longleftrightarrow> page_free s q \<or> q = unat addr div 4096)) \<and>
     (\<not> unat addr div 4096 mod 64 < 32 \<longrightarrow> pmm_free_page addr s = s)"
  using assms(2) pmm_free_page_inv [OF assms(1), of addr]
  by (auto simp: pmm_free_page_free [OF assms(1)]) (simp add: pmm_free_page_eq)

theorem pmm_free_page_spec_witness:
  "page_free (pmm_free_page 0x5000 sample_pmm) 5 \<and> pmm_free_page 0x25000 sample_pmm = sample_pmm"
  using pmm_free_page_spec [OF sample_pmm_inv(1), of "0x5000"]
    pmm_free_page_spec [OF sample_pmm_inv(1), of "0x25000"]
  by (simp add: sample_pmm_def)

end
