(* ===== verification/Bytes.thy ===== *)
theory Bytes
  imports Prelude
begin

text \<open>
  Byte-addressed memory. Every C object the kernel reaches through a raw pointer (heap block
  headers, page table entries, sectors, on-disk records) is a sequence of little-endian
  bytes in a \<open>mem\<close>; loads and stores of 16, 32 and 64 bits are defined from single bytes,
  so that overlapping objects alias as they do in the program.
\<close>

type_synonym mem = "u64 \<Rightarrow> u8"

section \<open>Little-endian words\<close>

fun le_join :: "u8 list \<Rightarrow> 'a::len word" where
  "le_join [] = 0"
| "le_join (b # bs) = push_bit 8 (le_join bs) OR ucast b"

definition le_split :: "nat \<Rightarrow> 'a::len word \<Rightarrow> u8 list" where
  "le_split n w = map (\<lambda>i. ucast (drop_bit (8 * i) w)) [0..<n]"

lemma length_le_split [simp]: "length (le_split n w) = n"
  by (simp add: le_split_def)

lemma bit_le_join:
  "bit (le_join bs :: 'a::len word) j \<longleftrightarrow>
     j < LENGTH('a) \<and> j div 8 < length bs \<and> bit (bs ! (j div 8)) (j mod 8)"
proof (induction bs arbitrary: j)
  case Nil
  then show ?case by simp
next
  case (Cons b bs)
  show ?case
  proof (cases "j < 8")
    case True
    then show ?thesis
      by (auto simp: bit_or_iff bit_push_bit_iff bit_ucast_iff)
  next
    case False
    then obtain i where j: "j = i + 8" by (metis add.commute le_Suc_ex linorder_not_less)
    have "\<not> bit b (i + 8)" using bit_imp_le_length [of b "i + 8"] by auto
    moreover have "(i + 8) div 8 = Suc (i div 8)" by simp
    ultimately show ?thesis
      by (auto simp: j bit_or_iff bit_push_bit_iff bit_ucast_iff Cons.IH)
  qed
qed

lemma bit_nth_le_split:
  assumes "i < n" and "j < 8"
  shows "bit (le_split n w ! i) j \<longleftrightarrow> bit w (8 * i + j)"
  using assms by (auto simp: le_split_def bit_ucast_iff bit_drop_bit_eq dest: bit_imp_le_length)

lemma le_join_split:
  assumes "LENGTH('a) \<le> 8 * n"
  shows "le_join (le_split n w) = (w :: 'a::len word)"
proof (rule bit_word_eqI)
  fix j
  assume "j < LENGTH('a)"
  then have "j div 8 < n" using assms by (simp add: less_mult_imp_div_less mult.commute)
  then have "bit (le_split n w ! (j div 8)) (j mod 8) = bit w (8 * (j div 8) + j mod 8)"
    by (intro bit_nth_le_split) simp_all
  then show "bit (le_join (le_split n w) :: 'a word) j = bit w j"
    using \<open>j < LENGTH('a)\<close> \<open>j div 8 < n\<close> by (simp add: bit_le_join)
qed

section \<open>Loads and stores\<close>

definition rd_bytes :: "mem \<Rightarrow> u64 \<Rightarrow> nat \<Rightarrow> u8 list" where
  "rd_bytes m a n = map (\<lambda>i. m (a + of_nat i)) [0..<n]"

definition wr_bytes :: "mem \<Rightarrow> u64 \<Rightarrow> u8 list \<Rightarrow> mem" where
  "wr_bytes m a bs = (\<lambda>x. if unat (x - a) < length bs then bs ! unat (x - a) else m x)"

definition rd16 :: "mem \<Rightarrow> u64 \<Rightarrow> u16" where
  "rd16 m a = le_join (rd_bytes m a 2)"

definition rd32 :: "mem \<Rightarrow> u64 \<Rightarrow> u32" where
  "rd32 m a = le_join (rd_bytes m a 4)"

definition rd64 :: "mem \<Rightarrow> u64 \<Rightarrow> u64" where
  "rd64 m a = le_join (rd_bytes m a 8)"

definition wr16 :: "mem \<Rightarrow> u64 \<Rightarrow> u16 \<Rightarrow> mem" where
  "wr16 m a v = wr_bytes m a (le_split 2 v)"

definition wr32 :: "mem \<Rightarrow> u64 \<Rightarrow> u32 \<Rightarrow> mem" where
  "wr32 m a v = wr_bytes m a (le_split 4 v)"

definition wr64 :: "mem \<Rightarrow> u64 \<Rightarrow> u64 \<Rightarrow> mem" where
  "wr64 m a v = wr_bytes m a (le_split 8 v)"

lemma length_rd_bytes [simp]: "length (rd_bytes m a n) = n"
  by (simp add: rd_bytes_def)

text \<open>Address \<open>x\<close> lies in the \<open>n\<close> bytes from \<open>a\<close> on.\<close>

definition in_range :: "u64 \<Rightarrow> u64 \<Rightarrow> nat \<Rightarrow> bool" where
  "in_range x a n \<longleftrightarrow> unat (x - a) < n"

definition disjoint_ranges :: "u64 \<Rightarrow> nat \<Rightarrow> u64 \<Rightarrow> nat \<Rightarrow> bool" where
  "disjoint_ranges a n b k \<longleftrightarrow> (\<forall>x. \<not> (in_range x a n \<and> in_range x b k))"

lemma in_range_nat:
  assumes "unat a + n \<le> 2 ^ 64"
  shows "in_range x a n \<longleftrightarrow> unat a \<le> unat x \<and> unat x < unat a + n"
proof (cases "a \<le> x")
  case True
  then show ?thesis
    by (auto simp: in_range_def unat_sub word_le_nat_alt)
next
  case False
  then have lt: "unat x < unat a" by (simp add: word_le_nat_alt)
  have "unat (x - a) = 2 ^ 64 + unat x - unat a"
    using lt by (simp add: unat_sub_if')
  then show ?thesis
    using assms lt by (simp add: in_range_def)
qed

lemma in_range_offset:
  assumes "i < n" and "n \<le> 2 ^ 64"
  shows "in_range (a + of_nat i) a n"
  using assms by (simp add: in_range_def unat_of_nat)

lemma disjoint_ranges_nat:
  assumes "unat a + n \<le> 2 ^ 64" and "unat b + k \<le> 2 ^ 64"
    and "unat a + n \<le> unat b \<or> unat b + k \<le> unat a"
  shows "disjoint_ranges a n b k"
  using assms(3) by (auto simp: disjoint_ranges_def in_range_nat [OF assms(1)] in_range_nat [OF assms(2)])

lemma wr_bytes_other: "\<not> in_range x a (length bs) \<Longrightarrow> wr_bytes m a bs x = m x"
  by (simp add: wr_bytes_def in_range_def)

lemma rd_wr_same:
  assumes "length bs \<le> 2 ^ 64"
  shows "rd_bytes (wr_bytes m a bs) a (length bs) = bs"
proof (rule nth_equalityI)
  fix i
  assume "i < length (rd_bytes (wr_bytes m a bs) a (length bs))"
  then have i: "i < length bs" by simp
  then have "unat (of_nat i :: u64) = i" using assms by (simp add: unat_of_nat)
  with i show "rd_bytes (wr_bytes m a bs) a (length bs) ! i = bs ! i"
    by (simp add: rd_bytes_def wr_bytes_def)
qed simp

lemma rd_wr_disjoint:
  assumes "disjoint_ranges a n b (length bs)" and "n \<le> 2 ^ 64"
  shows "rd_bytes (wr_bytes m b bs) a n = rd_bytes m a n"
proof -
  have "wr_bytes m b bs (a + of_nat i) = m (a + of_nat i)" if "i < n" for i
    using assms in_range_offset [OF that assms(2), of a]
    by (intro wr_bytes_other) (auto simp: disjoint_ranges_def)
  then show ?thesis by (simp add: rd_bytes_def)
qed

lemma rd64_wr64_same [simp]: "rd64 (wr64 m a v) a = v"
  using rd_wr_same [of "le_split 8 v" m a] by (simp add: rd64_def wr64_def le_join_split)

lemma rd32_wr32_same [simp]: "rd32 (wr32 m a v) a = v"
  using rd_wr_same [of "le_split 4 v" m a] by (simp add: rd32_def wr32_def le_join_split)

lemma rd16_wr16_same [simp]: "rd16 (wr16 m a v) a = v"
  using rd_wr_same [of "le_split 2 v" m a] by (simp add: rd16_def wr16_def le_join_split)

lemma rd64_wr_bytes_disjoint:
  "disjoint_ranges a 8 b (length bs) \<Longrightarrow> rd64 (wr_bytes m b bs) a = rd64 m a"
  by (simp add: rd64_def rd_wr_disjoint)

lemma rd64_wr64_disjoint:
  "disjoint_ranges a 8 b 8 \<Longrightarrow> rd64 (wr64 m b v) a = rd64 m a"
  by (simp add: wr64_def rd64_wr_bytes_disjoint)

lemma wr64_other: "\<not> in_range x a 8 \<Longrightarrow> wr64 m a v x = m x"
  by (simp add: wr64_def wr_bytes_other)

lemma rd64_cong:
  assumes "\<And>x. in_range x a 8 \<Longrightarrow> m x = m' x"
  shows "rd64 m a = rd64 m' a"
  using assms in_range_offset [of _ 8 a] by (auto simp: rd64_def rd_bytes_def intro!: arg_cong [of _ _ le_join])

text \<open>Two different 8-byte cells at aligned addresses do not overlap.\<close>

lemma disjoint_aligned8:
  assumes "unat a mod 8 = 0" and "unat b mod 8 = 0" and "a \<noteq> b"
  shows "disjoint_ranges a 8 b 8"
proof -
  have ends: "unat c + 8 \<le> 2 ^ 64" if "unat c mod 8 = 0" for c :: u64
  proof -
    have "unat c + 8 \<le> 18446744073709551616"
      using that unat_less_2p64 [of c] by presburger
    then show ?thesis by simp
  qed
  have "unat a \<noteq> unat b" using assms(3) by (simp add: word_unat_eq_iff)
  then have "unat a + 8 \<le> unat b \<or> unat b + 8 \<le> unat a"
    using assms(1,2) by presburger
  then show ?thesis
    by (intro disjoint_ranges_nat ends assms)
qed

lemma wr_bytes_Nil [simp]: "wr_bytes m a [] = m"
  by (simp add: wr_bytes_def)

lemma wr_bytes_Cons:
  assumes "length bs < 18446744073709551615"
  shows "wr_bytes m a (b # bs) = wr_bytes (m(a := b)) (a + 1) bs"
proof
  fix x
  show "wr_bytes m a (b # bs) x = wr_bytes (m(a := b)) (a + 1) bs x"
  proof (cases "x = a")
    case True
    have "(- 1 :: u64) = 18446744073709551615" by simp
    then have "unat (- 1 :: u64) = 18446744073709551615" by (simp only: unat_numeral) simp
    with True assms show ?thesis by (simp add: wr_bytes_def)
  next
    case False
    define d where "d = x - (a + 1)"
    have d: "x - a = d + 1" "d + 1 \<noteq> 0" using False by (simp_all add: d_def)
    then have "unat (x - a) = Suc (unat d)" by (metis unatSuc add.commute)
    then show ?thesis using False by (simp add: wr_bytes_def d_def)
  qed
qed

lemma nth_rd_bytes: "i < n \<Longrightarrow> rd_bytes m a n ! i = m (a + of_nat i)"
  by (simp add: rd_bytes_def)

lemma rd_wr_append:
  assumes "n + length bs < 18446744073709551616"
  shows "rd_bytes (wr_bytes m (a + of_nat n) bs) a (n + length bs) = rd_bytes m a n @ bs"
proof (rule nth_equalityI)
  fix i
  assume "i < length (rd_bytes (wr_bytes m (a + of_nat n) bs) a (n + length bs))"
  then have i: "i < n + length bs" by simp
  have off: "a + of_nat i - (a + of_nat n) = (of_nat i - of_nat n :: u64)" by simp
  show "rd_bytes (wr_bytes m (a + of_nat n) bs) a (n + length bs) ! i = (rd_bytes m a n @ bs) ! i"
  proof (cases "i < n")
    case True
    then have "unat (of_nat i - of_nat n :: u64) = 18446744073709551616 + i - n"
      using assms by (simp add: unat_sub_if' unat_of_nat_u64)
    moreover have "\<not> 18446744073709551616 + i - n < length bs" using True assms by linarith
    ultimately show ?thesis using True i by (simp add: nth_rd_bytes wr_bytes_def off nth_append)
  next
    case False
    then have "(of_nat i - of_nat n :: u64) = of_nat (i - n)" by simp
    then have "unat (of_nat i - of_nat n :: u64) = i - n" using assms i by (simp add: unat_of_nat_u64)
    moreover have "i - n < length bs" using False i by linarith
    ultimately show ?thesis using False i by (simp add: nth_rd_bytes wr_bytes_def off nth_append)
  qed
qed simp

end
