(* ===== verification/Paging.thy ===== *)
theory Paging
  imports Bytes Pmm
begin

text \<open>
  \<^verbatim>\<open>src/memory/paging.c\<close>: the four-level page tables. Tables are arrays of 512 64-bit entries
  in physical memory, which the kernel reaches through its identity map; the physical
  allocator of \<^verbatim>\<open>memory.c\<close> supplies new tables. \<^verbatim>\<open>invlpg\<close> and the console output have no
  effect on this state.
\<close>

section \<open>State and operations\<close>

record paging =
  pg_mem :: mem
  pg_pmm :: pmm
  pg_pml4 :: u64
  pg_cr3 :: u64

abbreviation PAGE_PRESENT :: u64 where "PAGE_PRESENT \<equiv> 0x01"
abbreviation PAGE_WRITABLE :: u64 where "PAGE_WRITABLE \<equiv> 0x02"
abbreviation PAGE_HUGE :: u64 where "PAGE_HUGE \<equiv> 0x80"
abbreviation ENTRIES_PER_TABLE :: nat where "ENTRIES_PER_TABLE \<equiv> 512"
abbreviation PTE_ADDR :: u64 where "PTE_ADDR \<equiv> 0x000FFFFFFFFFF000"

definition PML4_INDEX :: "u64 \<Rightarrow> u64" where "PML4_INDEX vaddr = drop_bit 39 vaddr AND 0x1FF"
definition PDPT_INDEX :: "u64 \<Rightarrow> u64" where "PDPT_INDEX vaddr = drop_bit 30 vaddr AND 0x1FF"
definition PD_INDEX :: "u64 \<Rightarrow> u64" where "PD_INDEX vaddr = drop_bit 21 vaddr AND 0x1FF"
definition PT_INDEX :: "u64 \<Rightarrow> u64" where "PT_INDEX vaddr = drop_bit 12 vaddr AND 0x1FF"

text \<open>The entry \<^verbatim>\<open>table[index]\<close>.\<close>

definition pte_get :: "mem \<Rightarrow> u64 \<Rightarrow> u64 \<Rightarrow> u64" where
  "pte_get m table index = rd64 m (table + 8 * index)"

definition pte_set :: "mem \<Rightarrow> u64 \<Rightarrow> u64 \<Rightarrow> u64 \<Rightarrow> mem" where
  "pte_set m table index v = wr64 m (table + 8 * index) v"

definition zero_table :: "u64 \<Rightarrow> mem \<Rightarrow> mem" where
  "zero_table table m = fold (\<lambda>i m. pte_set m table (of_nat i) 0) [0..<ENTRIES_PER_TABLE] m"

definition get_or_create_table :: "u64 \<Rightarrow> u64 \<Rightarrow> u64 \<Rightarrow> paging \<Rightarrow> u64 \<times> paging" where
  "get_or_create_table parent index flags s =
     (if pte_get (pg_mem s) parent index AND PAGE_PRESENT \<noteq> 0
      then (pte_get (pg_mem s) parent index AND PTE_ADDR, s)
      else
        (let (page, pm) = pmm_alloc_page (pg_pmm s);
             s = s\<lparr>pg_pmm := pm\<rparr>
         in if page = 0 then (0, s)
            else
              (let m = zero_table page (pg_mem s);
                   m = pte_set m parent index (page OR flags OR PAGE_PRESENT OR PAGE_WRITABLE)
               in (page, s\<lparr>pg_mem := m\<rparr>))))"

definition paging_map :: "u64 \<Rightarrow> u64 \<Rightarrow> u64 \<Rightarrow> paging \<Rightarrow> paging" where
  "paging_map vaddr paddr flags s =
     (let vaddr = vaddr AND 0xFFFFFFFFFFFFF000;
          paddr = paddr AND 0xFFFFFFFFFFFFF000;
          (pdpt, s) = get_or_create_table (pg_pml4 s) (PML4_INDEX vaddr) flags s
      in if pdpt = 0 then s else
         (let (pd, s) = get_or_create_table pdpt (PDPT_INDEX vaddr) flags s
          in if pd = 0 then s else
             (let (pt, s) = get_or_create_table pd (PD_INDEX vaddr) flags s
              in if pt = 0 then s else
                 s\<lparr>pg_mem := pte_set (pg_mem s) pt (PT_INDEX vaddr) (paddr OR flags OR PAGE_PRESENT)\<rparr>)))"

definition paging_map_huge :: "u64 \<Rightarrow> u64 \<Rightarrow> u64 \<Rightarrow> paging \<Rightarrow> paging" where
  "paging_map_huge vaddr paddr flags s =
     (let vaddr = vaddr AND 0xFFFFFFFFFFFFF000;
          paddr = paddr AND 0xFFFFFFFFFFFFF000;
          (pdpt, s) = get_or_create_table (pg_pml4 s) (PML4_INDEX vaddr) flags s
      in if pdpt = 0 then s else
         (let (pd, s) = get_or_create_table pdpt (PDPT_INDEX vaddr) flags s
          in if pd = 0 then s else
             s\<lparr>pg_mem := pte_set (pg_mem s) pd (PD_INDEX vaddr)
                            (paddr OR flags OR PAGE_PRESENT OR PAGE_HUGE)\<rparr>))"

definition paging_get_physical :: "paging \<Rightarrow> u64 \<Rightarrow> u64" where
  "paging_get_physical s vaddr =
     (let m = pg_mem s;
          pml4 = pg_pml4 s;
          offset = vaddr AND 0xFFF
      in if pte_get m pml4 (PML4_INDEX vaddr) AND PAGE_PRESENT = 0 then 0 else
         (let pdpt = pte_get m pml4 (PML4_INDEX vaddr) AND PTE_ADDR
          in if pte_get m pdpt (PDPT_INDEX vaddr) AND PAGE_PRESENT = 0 then 0 else
             (let pd = pte_get m pdpt (PDPT_INDEX vaddr) AND PTE_ADDR
              in if pte_get m pd (PD_INDEX vaddr) AND PAGE_HUGE \<noteq> 0
                 then (pte_get m pd (PD_INDEX vaddr) AND 0xFFFFFFFFFFE00000) + (vaddr AND 0x1FFFFF)
                 else if pte_get m pd (PD_INDEX vaddr) AND PAGE_PRESENT = 0 then 0
                 else
                   (let pt = pte_get m pd (PD_INDEX vaddr) AND PTE_ADDR
                    in if pte_get m pt (PT_INDEX vaddr) AND PAGE_PRESENT = 0 then 0
                       else (pte_get m pt (PT_INDEX vaddr) AND PTE_ADDR) + offset))))"

definition paging_alloc :: "u64 \<Rightarrow> u64 \<Rightarrow> paging \<Rightarrow> u64 \<times> paging" where
  "paging_alloc vaddr flags s =
     (let (phys, pm) = pmm_alloc_page (pg_pmm s);
          s = s\<lparr>pg_pmm := pm\<rparr>
      in if phys = 0 then (0, s) else (vaddr, paging_map vaddr phys flags s))"

text \<open>
  \<^verbatim>\<open>paging_init\<close>: \<open>pae\<close> is bit 5 of CR4. The first part extends the boot loader's identity
  map in place, the second builds the permanent tables. The loops step by 2 MiB below
  4 GiB, so their index does not wrap.
\<close>

definition extend_boot_map :: "u64 \<Rightarrow> paging \<Rightarrow> paging" where
  "extend_boot_map boot_pd s =
     (let total_phys = pmm_get_total (pg_pmm s);
          identity_limit = (if total_phys < 0x100000000 then total_phys else 0x100000000)
      in fold (\<lambda>addr s.
            let pd_idx = PD_INDEX (of_nat addr)
            in if pd_idx < 512
               then s\<lparr>pg_mem := pte_set (pg_mem s) boot_pd pd_idx
                                  (of_nat addr OR PAGE_WRITABLE OR PAGE_PRESENT OR PAGE_HUGE)\<rparr>
               else s)
          (addr_range 0x200000 0x400000 (unat identity_limit)) s)"

definition build_kernel_map :: "paging \<Rightarrow> paging" where
  "build_kernel_map s =
     (let s = s\<lparr>pg_mem := zero_table (pg_pml4 s) (pg_mem s)\<rparr>;
          s = fold (\<lambda>addr. paging_map_huge (of_nat addr) (of_nat addr) PAGE_WRITABLE)
                (addr_range 0x200000 0 0x100000000) s;
          kernel_base = 0xFFFFFFFF80000000;
          s = fold (\<lambda>offset. paging_map_huge (kernel_base + of_nat offset) (of_nat offset) PAGE_WRITABLE)
                (addr_range 0x200000 0 0x200000) s
      in s\<lparr>pg_cr3 := pg_pml4 s\<rparr>)"

definition paging_init :: "bool \<Rightarrow> paging \<Rightarrow> paging" where
  "paging_init pae s =
     (if \<not> pae then s else
      (let boot_pml4 = pg_cr3 s;
           boot_pml4 = (if boot_pml4 AND 0xFFF \<noteq> 0 then boot_pml4 AND PTE_ADDR else boot_pml4)
       in if pte_get (pg_mem s) boot_pml4 0 AND PAGE_PRESENT = 0 then s else
          (let boot_pdpt = pte_get (pg_mem s) boot_pml4 0 AND PTE_ADDR
           in if pte_get (pg_mem s) boot_pdpt 0 AND PAGE_PRESENT = 0 then s else
              (let boot_pd = pte_get (pg_mem s) boot_pdpt 0 AND PTE_ADDR;
                   s = extend_boot_map boot_pd s;
                   (page, pm) = pmm_alloc_page (pg_pmm s);
                   s = s\<lparr>pg_pmm := pm, pg_pml4 := page\<rparr>
               in if page = 0 then s else build_kernel_map s))))"

record paging_stats =
  total_pages :: u64
  free_pages :: u64
  kernel_heap_pages :: u64
  kernel_heap_used_pages :: u64
  ps_page_size :: u32
  paging_level :: u8

text \<open>The local \<^verbatim>\<open>mem_stats\<close> starts with unspecified contents, the argument \<open>raw\<close>.\<close>

definition paging_get_stats :: "paging_stats option \<Rightarrow> memory_stats \<Rightarrow> paging \<Rightarrow> paging_stats option" where
  "paging_get_stats stats raw s =
     (case (stats, memory_get_stats (Some raw) (pg_pmm s)) of
        (Some st, Some mem_stats) \<Rightarrow>
          Some (st\<lparr>total_pages := total_mb mem_stats * 256, free_pages := free_mb mem_stats * 256\<rparr>)
      | _ \<Rightarrow> None)"

section \<open>Entries of aligned tables\<close>

lemma bit_PTE_ADDR: "bit PTE_ADDR j \<longleftrightarrow> 12 \<le> j \<and> j < 52"
proof -
  have "PTE_ADDR = push_bit 12 (mask 40)" by (simp add: mask_eq_exp_minus_1)
  then show ?thesis by (auto simp only: bit_push_bit_iff bit_mask_iff) simp_all
qed

lemma index_less: "unat (x AND 0x1FF :: u64) < 512"
proof -
  have "x AND 0x1FF = x mod 512"
    using take_bit_eq_mask [of 9 x] by (simp add: take_bit_eq_mod mask_eq_exp_minus_1)
  then show ?thesis by (simp add: unat_mod)
qed

lemma present_iff: "e AND PAGE_PRESENT = 0 \<longleftrightarrow> \<not> bit e 0"
  using and_exp_eq_0 [of e 0] by simp

lemma huge_iff: "e AND PAGE_HUGE = 0 \<longleftrightarrow> \<not> bit e 7"
  using and_exp_eq_0 [of e 7] by simp

definition table_page :: "u64 \<Rightarrow> bool" where
  "table_page t \<longleftrightarrow> t \<noteq> 0 \<and> unat t mod 4096 = 0 \<and> t AND PTE_ADDR = t"

lemma page_end:
  fixes t :: u64
  assumes "unat t mod 4096 = 0"
  shows "unat t + 4096 \<le> 18446744073709551616"
proof -
  obtain k where k: "unat t = 4096 * k" using assms by (auto elim: dvdE)
  then have "k < 4503599627370496" using unat_less_2p64 [of t] by linarith
  with k show ?thesis by linarith
qed

lemma entry_addr:
  fixes t i :: u64
  assumes "unat t mod 4096 = 0" and "unat i < 512"
  shows "unat (t + 8 * i) = unat t + 8 * unat i"
    and "unat (t + 8 * i) mod 8 = 0"
    and "unat (t + 8 * i) div 4096 = unat t div 4096"
proof -
  have i8: "unat (8 * i) = 8 * unat i" using assms(2) by (simp add: unat_word_ariths)
  have "unat t + unat (8 * i) < 18446744073709551616"
    using page_end [OF assms(1)] assms(2) i8 by linarith
  then show eq: "unat (t + 8 * i) = unat t + 8 * unat i"
    using i8 unat_add_u64 [of t "8 * i"] by simp
  obtain k where k: "unat t = 4096 * k" using assms by (auto elim: dvdE)
  have "8 dvd 4096 * k + 8 * unat i" by (intro dvd_add) simp_all
  then show "unat (t + 8 * i) mod 8 = 0" unfolding eq k by simp
  show "unat (t + 8 * i) div 4096 = unat t div 4096" unfolding eq k using assms(2) by simp
qed

lemma entry_addr_eq:
  fixes t i t' j :: u64
  assumes "unat t mod 4096 = 0" "unat i < 512" "unat t' mod 4096 = 0" "unat j < 512"
  shows "t + 8 * i = t' + 8 * j \<longleftrightarrow> t = t' \<and> i = j"
proof
  assume "t + 8 * i = t' + 8 * j"
  then have "unat t div 4096 = unat t' div 4096" and e: "unat t + 8 * unat i = unat t' + 8 * unat j"
    using entry_addr [OF assms(1,2)] entry_addr [OF assms(3,4)] by simp_all
  then have "unat t = unat t'"
    using assms(1,3) by (metis add.right_neutral mult_div_mod_eq)
  with e show "t = t' \<and> i = j" by (simp add: word_unat_eq_iff)
qed simp

lemma pte_get_set:
  assumes "unat t mod 4096 = 0" "unat i < 512" "unat t' mod 4096 = 0" "unat j < 512"
  shows "pte_get (pte_set m t i v) t' j = (if t = t' \<and> i = j then v else pte_get m t' j)"
proof (cases "t = t' \<and> i = j")
  case False
  then have "disjoint_ranges (t' + 8 * j) 8 (t + 8 * i) 8"
    using entry_addr_eq [OF assms] entry_addr(2) [OF assms(1,2)] entry_addr(2) [OF assms(3,4)]
    by (intro disjoint_aligned8) metis+
  with False show ?thesis by (auto simp: pte_get_def pte_set_def rd64_wr64_disjoint)
qed (simp add: pte_get_def pte_set_def)

lemma zero_loop_get:
  assumes "unat t mod 4096 = 0" "unat t' mod 4096 = 0" "unat j < 512" "n \<le> 512"
  shows "pte_get (fold (\<lambda>i m. pte_set m t (of_nat i) 0) [0..<n] m) t' j =
         (if t = t' \<and> unat j < n then 0 else pte_get m t' j)"
  using assms(4)
proof (induction n)
  case (Suc n)
  have n: "unat (of_nat n :: u64) = n" using Suc.prems by (simp add: unat_of_nat)
  then have "unat (of_nat n :: u64) < 512" using Suc.prems by simp
  moreover have "of_nat n = j \<longleftrightarrow> unat j = n" using n by (auto simp: word_unat_eq_iff)
  ultimately show ?case
    using Suc pte_get_set [OF assms(1) _ assms(2,3)] by auto
qed simp

lemma zero_table_get:
  assumes "unat t mod 4096 = 0" "unat t' mod 4096 = 0" "unat j < 512"
  shows "pte_get (zero_table t m) t' j = (if t = t' then 0 else pte_get m t' j)"
  using zero_loop_get [OF assms, of 512] assms(3) by (simp add: zero_table_def)

section \<open>The tree of tables\<close>

type_synonym levels = "u64 \<Rightarrow> (nat \<times> u64 \<times> u64) option"

definition tables_ok :: "levels \<Rightarrow> paging \<Rightarrow> bool" where
  "tables_ok L s \<longleftrightarrow>
     pmm_ok (pg_pmm s) \<and> L (pg_pml4 s) = Some (4, 0, 0) \<and>
     (\<forall>t n p q. L t = Some (n, p, q) \<longrightarrow> n \<le> 4 \<and> table_page t \<and> t \<notin> avail_pages (pg_pmm s)) \<and>
     (\<forall>t n p q i. L t = Some (n, p, q) \<longrightarrow> 2 \<le> n \<longrightarrow> unat i < 512 \<longrightarrow>
        (let e = pte_get (pg_mem s) t i
         in (bit e 7 \<longrightarrow> bit e 0) \<and>
            (bit e 0 \<longrightarrow> \<not> (n = 2 \<and> bit e 7) \<longrightarrow> L (e AND PTE_ADDR) = Some (n - 1, t, i))))"

lemma tables_okD:
  assumes "tables_ok L s"
  shows "pmm_ok (pg_pmm s)" "L (pg_pml4 s) = Some (4, 0, 0)"
    "L t = Some (n, p, q) \<Longrightarrow> n \<le> 4" "L t = Some (n, p, q) \<Longrightarrow> table_page t"
    "L t = Some (n, p, q) \<Longrightarrow> t \<notin> avail_pages (pg_pmm s)"
    "L t = Some (n, p, q) \<Longrightarrow> 2 \<le> n \<Longrightarrow> unat i < 512 \<Longrightarrow>
       bit (pte_get (pg_mem s) t i) 7 \<Longrightarrow> bit (pte_get (pg_mem s) t i) 0"
    "L t = Some (n, p, q) \<Longrightarrow> 2 \<le> n \<Longrightarrow> unat i < 512 \<Longrightarrow> bit (pte_get (pg_mem s) t i) 0 \<Longrightarrow>
       n \<noteq> 2 \<or> \<not> bit (pte_get (pg_mem s) t i) 7 \<Longrightarrow>
       L (pte_get (pg_mem s) t i AND PTE_ADDR) = Some (n - 1, t, i)"
  using assms unfolding tables_ok_def Let_def by blast+

lemma index_bounds [simp]:
  "unat (PML4_INDEX v) < 512" "unat (PDPT_INDEX v) < 512" "unat (PD_INDEX v) < 512" "unat (PT_INDEX v) < 512"
  by (simp_all add: PML4_INDEX_def PDPT_INDEX_def PD_INDEX_def PT_INDEX_def index_less)

definition flags_ok :: "u64 \<Rightarrow> bool" where
  "flags_ok flags \<longleftrightarrow> take_bit 7 flags = flags"

lemma flags_okD: "flags_ok flags \<Longrightarrow> 7 \<le> j \<Longrightarrow> \<not> bit flags j"
  by (metis bit_take_bit_iff flags_ok_def linorder_not_less)

lemma table_page_bits: "table_page t \<Longrightarrow> bit t j \<Longrightarrow> 12 \<le> j \<and> j < 52"
  by (metis bit_PTE_ADDR bit_and_iff table_page_def)

lemma new_entry_bits:
  assumes "table_page t" and "flags_ok flags"
  defines "e \<equiv> t OR flags OR PAGE_PRESENT OR PAGE_WRITABLE"
  shows "bit e 0" "\<not> bit e 7" "e AND PTE_ADDR = t"
proof -
  have two: "bit PAGE_WRITABLE j \<longleftrightarrow> j = 1" for j
    using bit_push_bit_iff [of 1 "1 :: u64" j] by (auto simp: bit_1_iff)
  have e: "bit e j \<longleftrightarrow> bit t j \<or> bit flags j \<or> j = 0 \<or> j = 1" for j
    unfolding e_def bit_or_iff two bit_1_iff by blast
  show "bit e 0" by (simp add: e)
  show "\<not> bit e 7"
    using table_page_bits [OF assms(1), of 7] flags_okD [OF assms(2), of 7] by (auto simp: e)
  show "e AND PTE_ADDR = t"
    using table_page_bits [OF assms(1)] flags_okD [OF assms(2)]
    by (intro bit_word_eqI, unfold bit_and_iff bit_PTE_ADDR e) fastforce
qed

lemma bit_less_of_unat:
  fixes w :: u64
  assumes "unat w < 2 ^ n" and "bit w j"
  shows "j < n"
proof -
  have "unat (take_bit n w) = unat w"
    using assms(1) by (simp add: unsigned_take_bit_eq take_bit_nat_eq_self)
  then have "take_bit n w = w" by (simp add: word_unat_eq_iff)
  then show ?thesis using assms(2) by (metis bit_take_bit_iff)
qed

lemma avail_table_page:
  assumes "pmm_ok pm" and "a \<in> avail_pages pm"
  shows "table_page a"
proof -
  have inv: "pmm_inv pm" using assms(1) by (simp add: pmm_ok_def)
  have al: "unat a mod 4096 = 0" and fr: "page_free pm (unat a div 4096)"
    using assms(2) by (simp_all add: avail_pages_iff [OF inv])
  have p: "unat a div 4096 < 2 ^ 40"
    using fr inv by (auto simp: pmm_inv_def page_free_def)
  have "unat a < 2 ^ 52"
  proof -
    have "unat a = unat a div 4096 * 4096" using al by (metis add.right_neutral div_mult_mod_eq)
    with p show ?thesis by simp
  qed
  then have hi: "bit a j \<Longrightarrow> j < 52" for j by (rule bit_less_of_unat)
  have "take_bit 12 a = 0"
    using al by (simp add: take_bit_eq_mod word_unat_eq_iff unat_mod)
  then have lo: "bit a j \<Longrightarrow> 12 \<le> j" for j
    by (metis bit_0_eq bit_take_bit_iff bot_apply bot_bool_def linorder_not_less)
  have "a AND PTE_ADDR = a"
    using hi lo by (intro bit_word_eqI, unfold bit_and_iff bit_PTE_ADDR) blast
  moreover have "a \<noteq> 0" using pmm_pages.avail_nonzero [OF assms] by simp
  ultimately show ?thesis using al by (simp add: table_page_def)
qed

lemma table_page_align: "table_page t \<Longrightarrow> unat t mod 4096 = 0"
  by (simp add: table_page_def)

section \<open>The walk, level by level\<close>

definition level_index :: "nat \<Rightarrow> u64 \<Rightarrow> u64" where
  "level_index n v = (if n = 4 then PML4_INDEX v else if n = 3 then PDPT_INDEX v
                      else if n = 2 then PD_INDEX v else PT_INDEX v)"

lemma level_index_simps [simp]:
  "level_index 4 v = PML4_INDEX v" "level_index 3 v = PDPT_INDEX v"
  "level_index 2 v = PD_INDEX v" "level_index (Suc 0) v = PT_INDEX v"
  "unat (level_index n v) < 512"
  by (simp_all add: level_index_def)

primrec walk :: "mem \<Rightarrow> u64 \<Rightarrow> nat \<Rightarrow> u64 \<Rightarrow> u64" where
  "walk m v 0 t = 0"
| "walk m v (Suc n) t =
     (let e = pte_get m t (level_index (Suc n) v)
      in if n = 1 \<and> bit e 7 then (e AND 0xFFFFFFFFFFE00000) + (v AND 0x1FFFFF)
         else if \<not> bit e 0 then 0
         else if n = 0 then (e AND PTE_ADDR) + (v AND 0xFFF)
         else walk m v n (e AND PTE_ADDR))"

lemma paging_get_physical_walk: "paging_get_physical s v = walk (pg_mem s) v 4 (pg_pml4 s)"
  unfolding paging_get_physical_def Let_def present_iff huge_iff
  by (simp add: numeral_eq_Suc level_index_def Let_def del: bit_0)

lemma walk_zero_table:
  assumes "\<And>j. unat j < 512 \<Longrightarrow> pte_get m t j = 0"
  shows "walk m v n t = 0"
  using assms by (cases n) (simp_all add: Let_def)

lemma walk_step_cong:
  assumes e: "e = pte_get m t (level_index (Suc k) v)"
    and "pte_get m' t (level_index (Suc k) v) = e"
    and "bit e 0 \<Longrightarrow> k \<noteq> 0 \<Longrightarrow> \<not> (k = 1 \<and> bit e 7) \<Longrightarrow>
      walk m' v k (e AND PTE_ADDR) = walk m v k (e AND PTE_ADDR)"
  shows "walk m' v (Suc k) t = walk m v (Suc k) t"
  unfolding walk.simps(2) Let_def assms(2) e [symmetric]
  using assms(3) by (simp del: walk.simps)

text \<open>
  Linking a fresh, all-zero table \<open>r\<close> into an entry that was not present changes no
  translation: every walk through it still ends at an absent entry.
\<close>

lemma walk_link_empty:
  assumes ok: "tables_ok L s" and lt: "L t = Some (n, p, q)" and n: "2 \<le> n"
    and absent: "\<not> bit (pte_get (pg_mem s) t i) 0" and i: "unat i < 512"
    and other: "\<And>t' j. L t' \<noteq> None \<Longrightarrow> unat j < 512 \<Longrightarrow> (t', j) \<noteq> (t, i) \<Longrightarrow>
      pte_get m' t' j = pte_get (pg_mem s) t' j"
    and zero: "\<And>j. unat j < 512 \<Longrightarrow> pte_get m' r j = 0"
    and new: "pte_get m' t i AND PTE_ADDR = r" "bit (pte_get m' t i) 0" "\<not> bit (pte_get m' t i) 7"
  shows "L t' = Some (k, p', q') \<Longrightarrow> walk m' v k t' = walk (pg_mem s) v k t'"
proof (induction k arbitrary: t' p' q')
  case (Suc k)
  let ?e = "pte_get (pg_mem s) t' (level_index (Suc k) v)"
  show ?case
  proof (cases "(t', level_index (Suc k) v) = (t, i)")
    case True
    then have "n = Suc k" using Suc.prems lt by simp
    moreover have "\<not> bit (pte_get (pg_mem s) t i) 7"
      using tables_okD(6) [OF ok lt n i] absent by blast
    ultimately show ?thesis
      using True absent new n by (auto simp: Let_def walk_zero_table [OF zero])
  next
    case False
    then have e: "pte_get m' t' (level_index (Suc k) v) = ?e"
      using Suc.prems by (intro other) simp_all
    then show ?thesis
      using Suc.IH tables_okD(7) [OF ok Suc.prems, of "level_index (Suc k) v"]
      by (intro walk_step_cong [OF refl]) auto
  qed
qed simp

text \<open>
  Changing the entry that \<open>va\<close> selects in its level-\<open>k0\<close> table leaves every walk alone that
  differs from \<open>va\<close> in some index from level \<open>k0\<close> up. \<open>P\<close> gives the tables on the path of
  \<open>va\<close>.
\<close>

lemma walk_off_path:
  assumes ok: "tables_ok L s"
    and path: "\<And>k. k0 \<le> k \<Longrightarrow> k < 4 \<Longrightarrow> L (P k) = Some (k, P (Suc k), level_index (Suc k) va)"
    and top: "L (P 4) = Some (4, p, q)" and k0: "1 \<le> k0" "k0 \<le> 4"
  shows "L t' = Some (k, p', q') \<Longrightarrow>
     t' = P k \<longrightarrow> k0 \<le> k \<longrightarrow> (\<exists>j. k0 \<le> j \<and> j \<le> k \<and> level_index j v \<noteq> level_index j va) \<Longrightarrow>
     walk (pte_set (pg_mem s) (P k0) (level_index k0 va) x) v k t' = walk (pg_mem s) v k t'"
proof (induction k arbitrary: t' p' q')
  case (Suc k)
  let ?m = "pte_set (pg_mem s) (P k0) (level_index k0 va) x"
  let ?i = "level_index (Suc k) v"
  let ?e = "pte_get (pg_mem s) t' ?i"
  have lk0: "\<exists>p q. L (P k0) = Some (k0, p, q)"
    using path [of k0] top k0 by (cases "k0 = 4") auto
  then have "(t', ?i) \<noteq> (P k0, level_index k0 va)"
    using Suc.prems by auto
  then have e: "pte_get ?m t' ?i = ?e"
    using lk0 Suc.prems(1) tables_okD(4) [OF ok]
    by (subst pte_get_set) (auto simp: table_page_align)
  have "walk ?m v k (?e AND PTE_ADDR) = walk (pg_mem s) v k (?e AND PTE_ADDR)"
    if pr: "bit ?e 0" "k \<noteq> 0" "\<not> (k = 1 \<and> bit ?e 7)"
  proof (rule Suc.IH)
    show child: "L (?e AND PTE_ADDR) = Some (k, t', ?i)"
      using pr tables_okD(7) [OF ok Suc.prems(1), of ?i] by auto
    have "k < 4" using tables_okD(3) [OF ok Suc.prems(1)] by simp
    then show "?e AND PTE_ADDR = P k \<longrightarrow> k0 \<le> k \<longrightarrow>
        (\<exists>j. k0 \<le> j \<and> j \<le> k \<and> level_index j v \<noteq> level_index j va)"
      using child path [of k] Suc.prems(2) by (auto simp: le_Suc_eq)
  qed
  with e show ?case by (intro walk_step_cong [OF refl]) auto
qed simp

section \<open>Creating tables\<close>

text \<open>
  \<open>s'\<close> extends \<open>s\<close>: the tree of tables only grows, entries that were present stay as they
  are, and no translation changes.
\<close>

definition extends :: "levels \<Rightarrow> paging \<Rightarrow> levels \<Rightarrow> paging \<Rightarrow> bool" where
  "extends L s L' s' \<longleftrightarrow>
     tables_ok L' s' \<and> L \<subseteq>\<^sub>m L' \<and> pg_pml4 s' = pg_pml4 s \<and> pg_cr3 s' = pg_cr3 s \<and>
     (\<forall>t j. L t \<noteq> None \<longrightarrow> unat j < 512 \<longrightarrow> bit (pte_get (pg_mem s) t j) 0 \<longrightarrow>
        pte_get (pg_mem s') t j = pte_get (pg_mem s) t j) \<and>
     (\<forall>v. paging_get_physical s' v = paging_get_physical s v)"

lemma extends_refl: "tables_ok L s \<Longrightarrow> extends L s L s"
  by (simp add: extends_def)

lemma extends_dom:
  assumes "extends L s L' s'" and "L t = Some x"
  shows "L' t = Some x"
proof -
  have "L \<subseteq>\<^sub>m L'" using assms(1) unfolding extends_def by blast
  from bspec [OF this [unfolded map_le_def] domI [of L t x, OF assms(2)]] show ?thesis
    using assms(2) by simp
qed

lemma extends_trans:
  assumes 1: "extends L s L' s'" and 2: "extends L' s' L'' s''"
  shows "extends L s L'' s''"
proof -
  have "L \<subseteq>\<^sub>m L''"
    using 1 2 by (auto simp: extends_def intro: map_le_trans)
  moreover have "pte_get (pg_mem s'') t j = pte_get (pg_mem s) t j"
    if "L t \<noteq> None" "unat j < 512" "bit (pte_get (pg_mem s) t j) 0" for t j
  proof -
    have "L' t \<noteq> None" using that(1) extends_dom [OF 1] by auto
    then show ?thesis using 1 2 that by (simp add: extends_def)
  qed
  ultimately show ?thesis using 1 2 by (simp add: extends_def)
qed

text \<open>A new table: the page comes from the allocator, all its entries are zero.\<close>

definition fresh_state :: "u64 \<Rightarrow> u64 \<Rightarrow> u64 \<Rightarrow> paging \<Rightarrow> paging" where
  "fresh_state t i flags s =
     (let (r, pm) = pmm_alloc_page (pg_pmm s)
      in s\<lparr>pg_pmm := pm,
           pg_mem := pte_set (zero_table r (pg_mem s)) t i (r OR flags OR PAGE_PRESENT OR PAGE_WRITABLE)\<rparr>)"

lemma get_or_create_cases:
  assumes "pmm_ok (pg_pmm s)"
  obtains (present) "bit (pte_get (pg_mem s) t i) 0"
      "get_or_create_table t i flags s = (pte_get (pg_mem s) t i AND PTE_ADDR, s)"
  | (oom) "\<not> bit (pte_get (pg_mem s) t i) 0" "avail_pages (pg_pmm s) = {}"
      "get_or_create_table t i flags s = (0, s)"
  | (fresh) r where "\<not> bit (pte_get (pg_mem s) t i) 0" "r \<in> avail_pages (pg_pmm s)"
      "get_or_create_table t i flags s = (r, fresh_state t i flags s)"
      "fst (pmm_alloc_page (pg_pmm s)) = r"
proof (cases "bit (pte_get (pg_mem s) t i) 0")
  case True
  then show ?thesis by (intro present) (auto simp: get_or_create_table_def present_iff)
next
  case absent: False
  show ?thesis
  proof (cases "avail_pages (pg_pmm s) = {}")
    case True
    with absent show ?thesis
      by (intro oom) (auto simp: get_or_create_table_def present_iff pmm_pages.alloc_none [OF assms])
  next
    case False
    let ?r = "fst (pmm_alloc_page (pg_pmm s))"
    have "?r \<noteq> 0" using False pmm_pages.alloc_zero_iff [OF assms] by simp
    then show ?thesis
      using absent pmm_pages.alloc_some [OF assms False]
      by (intro fresh [of ?r])
        (auto simp: get_or_create_table_def fresh_state_def present_iff split_beta Let_def)
  qed
qed

lemma fresh_state_entries:
  fixes flags :: u64
  assumes ok: "tables_ok L s" and lt: "L t = Some (n, p, q)" and i: "unat i < 512"
    and r: "r \<in> avail_pages (pg_pmm s)" "fst (pmm_alloc_page (pg_pmm s)) = r"
  defines "m' \<equiv> pg_mem (fresh_state t i flags s)"
  shows "L t' \<noteq> None \<Longrightarrow> unat j < 512 \<Longrightarrow> pte_get m' t' j =
      (if t' = t \<and> j = i then r OR flags OR PAGE_PRESENT OR PAGE_WRITABLE else pte_get (pg_mem s) t' j)"
    and "unat j < 512 \<Longrightarrow> pte_get m' r j = 0"
    and "L r = None" and "table_page r"
proof -
  show Lr: "L r = None"
    using tables_okD(5) [OF ok, of r] r(1) by (cases "L r") auto
  show page: "table_page r"
    using avail_table_page [OF tables_okD(1) [OF ok] r(1)] .
  have m': "m' = pte_set (zero_table r (pg_mem s)) t i (r OR flags OR PAGE_PRESENT OR PAGE_WRITABLE)"
    using r(2) by (simp add: m'_def fresh_state_def split_beta Let_def)
  have al: "unat t mod 4096 = 0" "unat r mod 4096 = 0"
    using tables_okD(4) [OF ok lt] page by (simp_all add: table_page_align)
  show "pte_get m' t' j =
      (if t' = t \<and> j = i then r OR flags OR PAGE_PRESENT OR PAGE_WRITABLE else pte_get (pg_mem s) t' j)"
    if "L t' \<noteq> None" "unat j < 512"
  proof -
    have "unat t' mod 4096 = 0" "t' \<noteq> r"
      using that(1) Lr tables_okD(4) [OF ok] by (auto intro: table_page_align)
    then show ?thesis
      using al i that(2) by (auto simp: m' pte_get_set zero_table_get)
  qed
  show "pte_get m' r j = 0" if "unat j < 512"
  proof -
    have "t \<noteq> r" using lt Lr by auto
    then show ?thesis using al i that by (simp add: m' pte_get_set zero_table_get)
  qed
qed

lemma fresh_state_extends:
  assumes ok: "tables_ok L s" and lt: "L t = Some (n, p, q)" "2 \<le> n" and i: "unat i < 512"
    and fl: "flags_ok flags" and absent: "\<not> bit (pte_get (pg_mem s) t i) 0"
    and r: "r \<in> avail_pages (pg_pmm s)" "fst (pmm_alloc_page (pg_pmm s)) = r"
  shows "extends L s (L(r \<mapsto> (n - 1, t, i))) (fresh_state t i flags s)"
proof -
  let ?s = "fresh_state t i flags s" and ?L = "L(r \<mapsto> (n - 1, t, i))"
  note E = fresh_state_entries(1,2) [OF ok lt(1) i r, where flags = flags]
    fresh_state_entries(3,4) [OF ok lt(1) i r]
  note D = tables_okD [OF ok]
  note N = new_entry_bits [OF E(4) fl]
  have pm: "pg_pmm ?s = snd (pmm_alloc_page (pg_pmm s))" "pg_pml4 ?s = pg_pml4 s" "pg_cr3 ?s = pg_cr3 s"
    by (simp_all add: fresh_state_def split_beta Let_def)
  have av: "avail_pages (pg_pmm ?s) = avail_pages (pg_pmm s) - {r}"
    using pmm_pages.alloc_avail [OF D(1)] r(2) by (simp add: pm)
  have keep: "L t' = Some (k, p', q') \<Longrightarrow> t' \<noteq> r" for t' k p' q' using E(3) by auto
  have "tables_ok ?L ?s"
    unfolding tables_ok_def Let_def
  proof (intro conjI allI impI)
    show "pmm_ok (pg_pmm ?s)" unfolding pm by (rule pmm_pages.alloc_ok [OF D(1)])
    show "?L (pg_pml4 ?s) = Some (4, 0, 0)" using D(2) keep [OF D(2)] by (simp add: pm)
  next
    fix t' k p' q'
    assume L: "?L t' = Some (k, p', q')"
    show "k \<le> 4" "table_page t'" "t' \<notin> avail_pages (pg_pmm ?s)"
      using L D(3,4,5) [of t' k p' q'] D(3) [OF lt(1)] E(4) unfolding av by (auto split: if_splits)
  next
    fix t' k p' q' and j :: u64
    assume L: "?L t' = Some (k, p', q')" and k: "2 \<le> k" and j: "unat j < 512"
    let ?e = "pte_get (pg_mem ?s) t' j"
    show "bit ?e 0" if "bit ?e 7"
      using that L k j E(1) [of t' j] E(2) [OF j] N D(6) by (auto split: if_splits)
    show "?L (?e AND PTE_ADDR) = Some (k - 1, t', j)" if p: "bit ?e 0" "\<not> (k = 2 \<and> bit ?e 7)"
    proof (cases "t' = r \<or> (t' = t \<and> j = i)")
      case True
      then show ?thesis using p(1) L lt E(1) [of t i] E(2) [OF j] i N(3) keep [OF lt(1)] by (auto split: if_splits)
    next
      case False
      then have L': "L t' = Some (k, p', q')" using L by (auto split: if_splits)
      then have e: "?e = pte_get (pg_mem s) t' j" using E(1) [of t' j] j False by auto
      then have "L (?e AND PTE_ADDR) = Some (k - 1, t', j)"
        using D(7) [OF L' k j] p by auto
      then show ?thesis using keep by auto
    qed
  qed
  moreover have "L \<subseteq>\<^sub>m ?L" using E(3) by (auto simp: map_le_def)
  moreover have "pte_get (pg_mem ?s) t' j = pte_get (pg_mem s) t' j"
    if "L t' \<noteq> None" "unat j < 512" "bit (pte_get (pg_mem s) t' j) 0" for t' j
    using that E(1) absent by auto
  moreover have "paging_get_physical ?s v = paging_get_physical s v" for v
    unfolding paging_get_physical_walk pm
    by (rule walk_link_empty [OF ok lt absent i _ E(2) _ _ _ D(2)]) (use E(1) [of t i] E(1) lt(1) i N in auto)
  ultimately show ?thesis by (simp add: extends_def pm)
qed

lemma get_or_create_spec:
  assumes ok: "tables_ok L s" and lt: "L t = Some (n, p, q)" "2 \<le> n" and i: "unat i < 512"
    and fl: "flags_ok flags" and nh: "n = 2 \<longrightarrow> \<not> bit (pte_get (pg_mem s) t i) 7"
  obtains r s' L' where "get_or_create_table t i flags s = (r, s')" "extends L s L' s'"
    "avail_pages (pg_pmm s') = avail_pages (pg_pmm s) - {r}"
    "r = 0 \<Longrightarrow> avail_pages (pg_pmm s') = {}"
    "r \<noteq> 0 \<Longrightarrow> L' r = Some (n - 1, t, i)"
    "r \<noteq> 0 \<Longrightarrow> pte_get (pg_mem s') t i AND PTE_ADDR = r \<and> bit (pte_get (pg_mem s') t i) 0 \<and>
       (n = 2 \<longrightarrow> \<not> bit (pte_get (pg_mem s') t i) 7)"
    "r \<noteq> 0 \<Longrightarrow> s' = s \<or> (\<forall>j. unat j < 512 \<longrightarrow> pte_get (pg_mem s') r j = 0)"
proof (cases rule: get_or_create_cases [OF tables_okD(1) [OF ok], of t i flags])
  case 1
  let ?r = "pte_get (pg_mem s) t i AND PTE_ADDR"
  have Lr: "L ?r = Some (n - 1, t, i)" using tables_okD(7) [OF ok lt i] 1(1) nh by auto
  then have "?r \<noteq> 0" "?r \<notin> avail_pages (pg_pmm s)"
    using tables_okD(4,5) [OF ok Lr] by (auto simp: table_page_def)
  then show ?thesis
    using that [of ?r s L] 1 Lr nh extends_refl [OF ok] by auto
next
  case 2
  then show ?thesis using that [of 0 s L] extends_refl [OF ok] by auto
next
  case (3 r)
  let ?s = "fresh_state t i flags s" and ?L = "L(r \<mapsto> (n - 1, t, i))"
  note E = fresh_state_entries(1,2) [OF ok lt(1) i 3(2,4), where flags = flags]
  note page = fresh_state_entries(4) [OF ok lt(1) i 3(2,4)]
  have av: "avail_pages (pg_pmm ?s) = avail_pages (pg_pmm s) - {r}"
    using pmm_pages.alloc_avail [OF tables_okD(1) [OF ok]] 3(4)
    by (simp add: fresh_state_def split_beta Let_def)
  have "pte_get (pg_mem ?s) t i = r OR flags OR PAGE_PRESENT OR PAGE_WRITABLE"
    using E(1) [of t i] lt(1) i by auto
  then show ?thesis
    using that [OF 3(3) fresh_state_extends [OF ok lt i fl 3(1,2,4)] av] page
      new_entry_bits [OF page fl] E(2)
    by (auto simp: table_page_def)
qed

lemma walk_on_path:
  assumes "1 \<le> k0" and "k0 \<le> k"
    and "\<And>j. k0 < j \<Longrightarrow> j \<le> k \<Longrightarrow> (let e = pte_get m (P j) (level_index j v) in
       bit e 0 \<and> (j = 2 \<longrightarrow> \<not> bit e 7) \<and> e AND PTE_ADDR = P (j - 1))"
  shows "walk m v k (P k) = walk m v k0 (P k0)"
  using assms(2,3)
proof (induction k)
  case (Suc k)
  show ?case
  proof (cases "k0 = Suc k")
    case False
    then have "walk m v k (P k) = walk m v k0 (P k0)" using Suc by simp
    moreover have "k \<noteq> 0" using False assms(1) Suc.prems(1) by simp
    ultimately show ?thesis
      using Suc.prems(2) [of "Suc k"] False Suc.prems(1) by (auto simp: Let_def numeral_2_eq_2)
  qed simp
qed (use assms(1) in simp)

text \<open>Writing a leaf entry keeps the tree.\<close>

lemma tables_ok_leaf:
  assumes ok: "tables_ok L s" and lt: "L t = Some (n, p, q)" and i: "unat i < 512"
    and leaf: "n = 1 \<or> (n = 2 \<and> bit x 0 \<and> bit x 7)"
  shows "tables_ok L (s\<lparr>pg_mem := pte_set (pg_mem s) t i x\<rparr>)"
proof -
  note D = tables_okD [OF ok]
  have get: "pte_get (pte_set (pg_mem s) t i x) t' j = (if t = t' \<and> i = j then x else pte_get (pg_mem s) t' j)"
    if "L t' = Some (k, p', q')" "unat j < 512" for t' k p' q' j
    using that i D(4) [OF lt] D(4) [OF that(1)] by (intro pte_get_set) (simp_all add: table_page_align)
  show ?thesis
    unfolding tables_ok_def Let_def
    using D(1-5) D(6,7) lt leaf by (auto simp: get)
qed

definition same_page :: "u64 \<Rightarrow> u64 \<Rightarrow> bool" where
  "same_page v w \<longleftrightarrow> PML4_INDEX v = PML4_INDEX w \<and> PDPT_INDEX v = PDPT_INDEX w \<and>
     PD_INDEX v = PD_INDEX w \<and> PT_INDEX v = PT_INDEX w"

definition same_huge_page :: "u64 \<Rightarrow> u64 \<Rightarrow> bool" where
  "same_huge_page v w \<longleftrightarrow> PML4_INDEX v = PML4_INDEX w \<and> PDPT_INDEX v = PDPT_INDEX w \<and>
     PD_INDEX v = PD_INDEX w"

text \<open>\<open>vaddr\<close> lies in a region mapped by a 2 MiB page.\<close>

definition in_huge_page :: "paging \<Rightarrow> u64 \<Rightarrow> bool" where
  "in_huge_page s v =
     (let m = pg_mem s; e4 = pte_get m (pg_pml4 s) (PML4_INDEX v);
          e3 = pte_get m (e4 AND PTE_ADDR) (PDPT_INDEX v)
      in bit e4 0 \<and> bit e3 0 \<and> bit (pte_get m (e3 AND PTE_ADDR) (PD_INDEX v)) 7)"

lemma index_align:
  "PML4_INDEX (v AND 0xFFFFFFFFFFFFF000) = PML4_INDEX v"
  "PDPT_INDEX (v AND 0xFFFFFFFFFFFFF000) = PDPT_INDEX v"
  "PD_INDEX (v AND 0xFFFFFFFFFFFFF000) = PD_INDEX v"
  "PT_INDEX (v AND 0xFFFFFFFFFFFFF000) = PT_INDEX v"
  by (simp_all add: PML4_INDEX_def PDPT_INDEX_def PD_INDEX_def PT_INDEX_def and.assoc)

lemma phys_align:
  assumes "paddr AND PTE_ADDR = paddr"
  shows "paddr AND 0xFFFFFFFFFFFFF000 = paddr"
proof -
  have "paddr AND 0xFFFFFFFFFFFFF000 = (paddr AND PTE_ADDR) AND 0xFFFFFFFFFFFFF000"
    by (simp only: assms)
  also have "\<dots> = paddr AND PTE_ADDR" by (simp add: and.assoc)
  finally show ?thesis by (simp only: assms)
qed

lemma leaf_entry_bits:
  assumes "paddr AND PTE_ADDR = paddr" and "flags_ok flags"
  shows "bit (paddr OR flags OR PAGE_PRESENT) 0" "(paddr OR flags OR PAGE_PRESENT) AND PTE_ADDR = paddr"
proof -
  have p: "bit paddr j \<Longrightarrow> 12 \<le> j \<and> j < 52" for j
    using assms(1) by (metis bit_PTE_ADDR bit_and_iff)
  have e: "bit (paddr OR flags OR PAGE_PRESENT) j \<longleftrightarrow> bit paddr j \<or> bit flags j \<or> j = 0" for j
    unfolding bit_or_iff bit_1_iff by blast
  show "bit (paddr OR flags OR PAGE_PRESENT) 0" by (simp add: e)
  show "(paddr OR flags OR PAGE_PRESENT) AND PTE_ADDR = paddr"
    using p flags_okD [OF assms(2)]
    by (intro bit_word_eqI, unfold bit_and_iff bit_PTE_ADDR e) fastforce
qed

section \<open>Mapping one page\<close>

text \<open>The tables on the path of an address, as the two mapping functions find or create them.\<close>

definition path_ok :: "levels \<Rightarrow> paging \<Rightarrow> nat \<Rightarrow> (nat \<Rightarrow> u64) \<Rightarrow> u64 \<Rightarrow> bool" where
  "path_ok L s k0 P v \<longleftrightarrow> P 4 = pg_pml4 s \<and>
     (\<forall>k. k0 \<le> k \<longrightarrow> k < 4 \<longrightarrow> L (P k) = Some (k, P (Suc k), level_index (Suc k) v) \<and>
       (let e = pte_get (pg_mem s) (P (Suc k)) (level_index (Suc k) v)
        in bit e 0 \<and> (k = 1 \<longrightarrow> \<not> bit e 7) \<and> e AND PTE_ADDR = P k))"

lemma leaf_translation:
  fixes x :: u64
  assumes ok: "tables_ok L s" and path: "path_ok L s k0 P va" and k0: "1 \<le> k0" "k0 \<le> 2"
  defines "s' \<equiv> s\<lparr>pg_mem := pte_set (pg_mem s) (P k0) (level_index k0 va) x\<rparr>"
  shows "(\<exists>j. k0 \<le> j \<and> j \<le> 4 \<and> level_index j v \<noteq> level_index j va) \<Longrightarrow>
      paging_get_physical s' v = paging_get_physical s v"
    and "(\<And>j. k0 \<le> j \<Longrightarrow> j \<le> 4 \<Longrightarrow> level_index j v = level_index j va) \<Longrightarrow>
      paging_get_physical s' v = walk (pg_mem s') v k0 (P k0)"
proof -
  have P4: "P 4 = pg_pml4 s" using path by (simp add: path_ok_def)
  have LP: "k0 \<le> k \<Longrightarrow> k < 4 \<Longrightarrow> L (P k) = Some (k, P (Suc k), level_index (Suc k) va)" for k
    using path by (simp add: path_ok_def)
  note top = tables_okD(2) [OF ok, folded P4]
  have Lk: "\<exists>p q. L (P k) = Some (k, p, q)" if "k0 \<le> k" "k \<le> 4" for k
    using that LP [of k] top by (cases "k = 4") auto
  show "paging_get_physical s' v = paging_get_physical s v"
    if "\<exists>j. k0 \<le> j \<and> j \<le> 4 \<and> level_index j v \<noteq> level_index j va"
    using walk_off_path [OF ok LP top k0(1) _ top, of v x] that k0
    by (simp add: paging_get_physical_walk s'_def P4)
  assume same: "\<And>j. k0 \<le> j \<Longrightarrow> j \<le> 4 \<Longrightarrow> level_index j v = level_index j va"
  have "walk (pg_mem s') v 4 (P 4) = walk (pg_mem s') v k0 (P k0)"
  proof (rule walk_on_path)
    fix j
    assume j: "k0 < j" "j \<le> 4"
    then obtain k where k: "j = Suc k" "k0 \<le> k" "k < 4" by (cases j) auto
    have ne: "P j \<noteq> P k0" using Lk [of j] Lk [of k0] j k0 by auto
    have "pte_get (pg_mem s') (P j) (level_index j v) = pte_get (pg_mem s) (P j) (level_index j va)"
      using ne Lk [of j] Lk [of k0] j k0 same [of j] tables_okD(4) [OF ok]
      by (auto simp: s'_def table_page_align pte_get_set)
    then show "let e = pte_get (pg_mem s') (P j) (level_index j v) in
       bit e 0 \<and> (j = 2 \<longrightarrow> \<not> bit e 7) \<and> e AND PTE_ADDR = P (j - 1)"
      using path k by (auto simp: path_ok_def Let_def)
  qed (use k0 in simp_all)
  then show "paging_get_physical s' v = walk (pg_mem s') v k0 (P k0)"
    by (simp add: paging_get_physical_walk P4 s'_def)
qed

lemma level_index_Suc [simp]:
  "level_index (Suc (Suc 0)) v = PD_INDEX v"
  "level_index (Suc (Suc (Suc 0))) v = PDPT_INDEX v"
  by (simp_all add: level_index_def)

definition upper_tables :: "u64 \<Rightarrow> u64 \<Rightarrow> paging \<Rightarrow> u64 \<times> paging" where
  "upper_tables v flags s =
     (let (pdpt, s) = get_or_create_table (pg_pml4 s) (PML4_INDEX v) flags s
      in if pdpt = 0 then (0, s) else get_or_create_table pdpt (PDPT_INDEX v) flags s)"

lemma paging_map_upper:
  assumes "paddr AND PTE_ADDR = paddr"
  shows "paging_map vaddr paddr flags s =
     (let (pd, s) = upper_tables vaddr flags s
      in if pd = 0 then s else
         (let (pt, s) = get_or_create_table pd (PD_INDEX vaddr) flags s
          in if pt = 0 then s else
             s\<lparr>pg_mem := pte_set (pg_mem s) pt (PT_INDEX vaddr) (paddr OR flags OR PAGE_PRESENT)\<rparr>))"
  unfolding paging_map_def upper_tables_def index_align phys_align [OF assms] Let_def
  by (simp add: split_beta)

lemma paging_map_huge_upper:
  assumes "paddr AND PTE_ADDR = paddr"
  shows "paging_map_huge vaddr paddr flags s =
     (let (pd, s) = upper_tables vaddr flags s
      in if pd = 0 then s else
         s\<lparr>pg_mem := pte_set (pg_mem s) pd (PD_INDEX vaddr)
                        (paddr OR flags OR PAGE_PRESENT OR PAGE_HUGE)\<rparr>)"
  unfolding paging_map_huge_def upper_tables_def index_align phys_align [OF assms] Let_def
  by (simp add: split_beta)

lemma avail_no_zero: "tables_ok L s \<Longrightarrow> avail_pages (pg_pmm s) - {0} = avail_pages (pg_pmm s)"
  using pmm_pages.avail_nonzero [of "pg_pmm s" 0] by (auto simp: tables_ok_def)

lemma card_le_Diff_single: "finite A \<Longrightarrow> card A \<le> card (A - {r}) + 1"
  by (cases "r \<in> A") (simp_all add: card_Diff_singleton)

lemma upper_tables_spec:
  assumes ok: "tables_ok L s" and fl: "flags_ok flags"
  obtains pd s' L' where "upper_tables v flags s = (pd, s')" "extends L s L' s'"
    "pd = 0 \<Longrightarrow> avail_pages (pg_pmm s') = {}"
    "pd \<noteq> 0 \<Longrightarrow> \<exists>P. path_ok L' s' 2 P v \<and> P 2 = pd"
    "pd \<noteq> 0 \<Longrightarrow> \<not> in_huge_page s v \<Longrightarrow> \<not> bit (pte_get (pg_mem s') pd (PD_INDEX v)) 7"
    "card (avail_pages (pg_pmm s)) \<le> card (avail_pages (pg_pmm s')) + (if pd = 0 then 1 else 2)"
proof -
  let ?i4 = "PML4_INDEX v" and ?i3 = "PDPT_INDEX v" and ?i2 = "PD_INDEX v" and ?root = "pg_pml4 s"
  note root = tables_okD(2) [OF ok]
  obtain t3 s1 L1 where g1: "get_or_create_table ?root ?i4 flags s = (t3, s1)"
    and a1: "avail_pages (pg_pmm s1) = avail_pages (pg_pmm s) - {t3}"
    and x1: "extends L s L1 s1" and o1: "t3 = 0 \<Longrightarrow> avail_pages (pg_pmm s1) = {}"
    and l3: "t3 \<noteq> 0 \<Longrightarrow> L1 t3 = Some (3, ?root, ?i4)"
    and e4: "t3 \<noteq> 0 \<Longrightarrow> pte_get (pg_mem s1) ?root ?i4 AND PTE_ADDR = t3 \<and>
        bit (pte_get (pg_mem s1) ?root ?i4) 0"
    and z3: "t3 \<noteq> 0 \<Longrightarrow> s1 = s \<or> (\<forall>j. unat j < 512 \<longrightarrow> pte_get (pg_mem s1) t3 j = 0)"
    by (rule get_or_create_spec [where i = "?i4", OF ok root _ _ fl]) auto
  have c1: "card (avail_pages (pg_pmm s)) \<le> card (avail_pages (pg_pmm s1)) + 1"
    unfolding a1 by (rule card_le_Diff_single) (rule pmm_pages.avail_finite [OF tables_okD(1) [OF ok]])
  show thesis
  proof (cases "t3 = 0")
    case True
    with g1 x1 o1 c1 show thesis by (intro that [of 0 s1 L1]) (simp_all add: upper_tables_def)
  next
    case t3: False
    have ok1: "tables_ok L1 s1" using x1 by (simp add: extends_def)
    obtain t2 s2 L2 where g2: "get_or_create_table t3 ?i3 flags s1 = (t2, s2)"
      and a2: "avail_pages (pg_pmm s2) = avail_pages (pg_pmm s1) - {t2}"
      and x2: "extends L1 s1 L2 s2" and o2: "t2 = 0 \<Longrightarrow> avail_pages (pg_pmm s2) = {}"
      and l2: "t2 \<noteq> 0 \<Longrightarrow> L2 t2 = Some (2, t3, ?i3)"
      and e3: "t2 \<noteq> 0 \<Longrightarrow> pte_get (pg_mem s2) t3 ?i3 AND PTE_ADDR = t2 \<and>
          bit (pte_get (pg_mem s2) t3 ?i3) 0"
      and z2: "t2 \<noteq> 0 \<Longrightarrow> s2 = s1 \<or> (\<forall>j. unat j < 512 \<longrightarrow> pte_get (pg_mem s2) t2 j = 0)"
      by (rule get_or_create_spec [where i = "?i3", OF ok1 l3 [OF t3] _ _ fl]) auto
    have c2: "card (avail_pages (pg_pmm s1)) \<le> card (avail_pages (pg_pmm s2)) + 1"
      unfolding a2 by (rule card_le_Diff_single) (rule pmm_pages.avail_finite [OF tables_okD(1) [OF ok1]])
    have zero: "card (avail_pages (pg_pmm s)) \<le> 1" if "t2 = 0"
      using that o2 a2 c1 avail_no_zero [OF ok1] by simp
    have e4': "pte_get (pg_mem s2) ?root ?i4 = pte_get (pg_mem s1) ?root ?i4"
      using x2 e4 [OF t3] extends_dom [OF x1 root] by (auto simp: extends_def)
    have root2: "pg_pml4 s2 = ?root" using x1 x2 by (simp add: extends_def)
    have path: "path_ok L2 s2 2 (\<lambda>k. if k = 4 then ?root else if k = 3 then t3 else t2) v"
      if "t2 \<noteq> 0"
    proof -
      have four: "2 \<le> k \<Longrightarrow> k < 4 \<Longrightarrow> k = 2 \<or> k = 3" for k :: nat by auto
      show ?thesis
        using e4 [OF t3] e4' e3 [OF that] l2 [OF that] extends_dom [OF x2 l3 [OF t3]] root2
        by (auto simp: path_ok_def Let_def dest!: four)
    qed
    have nh: "\<not> bit (pte_get (pg_mem s2) t2 ?i2) 7" if "t2 \<noteq> 0" "\<not> in_huge_page s v"
    proof (cases "s2 = s1 \<and> s1 = s")
      case True
      then show ?thesis
        using that(2) e4 [OF t3] e3 [OF that(1)] by (simp add: in_huge_page_def Let_def)
    next
      case False
      moreover have "s2 \<noteq> s1" if "s1 \<noteq> s"
        using that z3 [OF t3] e3 [OF \<open>t2 \<noteq> 0\<close>] by auto
      ultimately show ?thesis using z2 [OF that(1)] by auto
    qed
    have pathE: "\<exists>P. path_ok L2 s2 2 P v \<and> P 2 = t2" if "t2 \<noteq> 0"
      by (rule exI, rule conjI, rule path [OF that]) simp
    show thesis
      using g1 g2 t3 o2 pathE nh extends_trans [OF x1 x2] c1 c2 zero
      by (intro that [of t2 s2 L2]) (simp_all add: upper_tables_def)
  qed
qed

lemma level_cases: "(\<forall>j. 1 \<le> j \<and> j \<le> 4 \<longrightarrow> Q j) \<longleftrightarrow> Q 4 \<and> Q 3 \<and> Q 2 \<and> Q (1 :: nat)"
proof -
  have "1 \<le> j \<and> j \<le> 4 \<longleftrightarrow> j = 4 \<or> j = 3 \<or> j = 2 \<or> j = 1" for j :: nat by auto
  then show ?thesis by auto
qed

lemma same_page_iff:
  "same_page v w \<longleftrightarrow> (\<forall>j. 1 \<le> j \<and> j \<le> 4 \<longrightarrow> level_index j v = level_index j w)"
  unfolding level_cases by (simp add: same_page_def)

lemma path_ok_extends:
  assumes path: "path_ok L s k0 P v" and ok: "tables_ok L s" and k0: "1 \<le> k0"
    and ext: "extends L s L' s'"
  shows "path_ok L' s' k0 P v"
proof -
  have P4: "P 4 = pg_pml4 s" using path by (simp add: path_ok_def)
  have LP: "\<exists>x. L (P (Suc k)) = Some x" if "k0 \<le> k" "k < 4" for k
    using path that tables_okD(2) [OF ok] P4 by (cases "k = 3") (auto simp: path_ok_def)
  have "pte_get (pg_mem s') (P (Suc k)) (level_index (Suc k) v) =
      pte_get (pg_mem s) (P (Suc k)) (level_index (Suc k) v)" if "k0 \<le> k" "k < 4" for k
    using LP [OF that] path that ext by (auto simp: path_ok_def extends_def Let_def)
  then show ?thesis
    using path ext extends_dom [OF ext] P4 by (auto simp: path_ok_def Let_def extends_def)
qed

lemma path_ok_extend:
  assumes "path_ok L s 2 P v"
    and "L t1 = Some (1, P 2, PD_INDEX v)"
    and "pte_get (pg_mem s) (P 2) (PD_INDEX v) AND PTE_ADDR = t1"
      "bit (pte_get (pg_mem s) (P 2) (PD_INDEX v)) 0"
      "\<not> bit (pte_get (pg_mem s) (P 2) (PD_INDEX v)) 7"
  shows "path_ok L s 1 (P(1 := t1)) v"
proof -
  have "1 \<le> k \<longleftrightarrow> k = 1 \<or> 2 \<le> k" for k :: nat by auto
  then show ?thesis
    using assms unfolding path_ok_def Let_def
    by (auto simp: numeral_2_eq_2)
qed

text \<open>
  Mapping a page: either the allocator ran dry and no translation changed, or exactly the
  page of \<open>vaddr\<close> translates to \<open>paddr\<close> and every other address as before.
\<close>

lemma paging_map_effect:
  assumes ok: "tables_ok L s" and fl: "flags_ok flags" and p: "paddr AND PTE_ADDR = paddr"
    and nh: "\<not> in_huge_page s vaddr"
  defines "s' \<equiv> paging_map vaddr paddr flags s"
  shows "(\<exists>L'. tables_ok L' s') \<and>
     (card (avail_pages (pg_pmm s)) \<le> 2 \<and> (\<forall>v. paging_get_physical s' v = paging_get_physical s v) \<or>
      (\<forall>v. paging_get_physical s' v =
         (if same_page v vaddr then paddr + (v AND 0xFFF) else paging_get_physical s v)))"
proof -
  obtain t2 s2 L2 where u: "upper_tables vaddr flags s = (t2, s2)" and x2: "extends L s L2 s2"
    and o2: "t2 = 0 \<Longrightarrow> avail_pages (pg_pmm s2) = {}"
    and p2: "t2 \<noteq> 0 \<Longrightarrow> \<exists>P. path_ok L2 s2 2 P vaddr \<and> P 2 = t2"
    and h2: "t2 \<noteq> 0 \<Longrightarrow> \<not> bit (pte_get (pg_mem s2) t2 (PD_INDEX vaddr)) 7"
    and c2: "card (avail_pages (pg_pmm s)) \<le> card (avail_pages (pg_pmm s2)) + (if t2 = 0 then 1 else 2)"
    by (rule upper_tables_spec [OF ok fl, of vaddr]) (use nh in blast)
  show ?thesis
  proof (cases "t2 = 0")
    case True
    then have "s' = s2" by (simp add: s'_def paging_map_upper [OF p] u)
    with True o2 x2 c2 show ?thesis by (auto simp: extends_def)
  next
    case t2: False
    obtain P where P: "path_ok L2 s2 2 P vaddr" "P 2 = t2" using p2 [OF t2] by blast
    have ok2: "tables_ok L2 s2" using x2 by (simp add: extends_def)
    have l2: "L2 t2 = Some (2, P 3, PDPT_INDEX vaddr)"
      using P by (auto simp: path_ok_def numeral_3_eq_3 dest: spec [of _ 2])
    obtain t1 s1 L1 where g: "get_or_create_table t2 (PD_INDEX vaddr) flags s2 = (t1, s1)"
      and a1: "avail_pages (pg_pmm s1) = avail_pages (pg_pmm s2) - {t1}"
      and x1: "extends L2 s2 L1 s1" and o1: "t1 = 0 \<Longrightarrow> avail_pages (pg_pmm s1) = {}"
      and l1: "t1 \<noteq> 0 \<Longrightarrow> L1 t1 = Some (1, t2, PD_INDEX vaddr)"
      and e2: "t1 \<noteq> 0 \<Longrightarrow> pte_get (pg_mem s1) t2 (PD_INDEX vaddr) AND PTE_ADDR = t1 \<and>
          bit (pte_get (pg_mem s1) t2 (PD_INDEX vaddr)) 0 \<and>
          \<not> bit (pte_get (pg_mem s1) t2 (PD_INDEX vaddr)) 7"
      by (rule get_or_create_spec [where i = "PD_INDEX vaddr", OF ok2 l2 _ _ fl]) (use h2 [OF t2] in auto)
    have x: "extends L s L1 s1" using extends_trans [OF x2 x1] .
    then have ok1: "tables_ok L1 s1" by (simp add: extends_def)
    show ?thesis
    proof (cases "t1 = 0")
      case True
      then have "s' = s1" using t2 by (simp add: s'_def paging_map_upper [OF p] u g)
      moreover have "avail_pages (pg_pmm s2) = {}"
        using True o1 a1 avail_no_zero [OF ok2] by simp
      ultimately show ?thesis using c2 t2 x by (auto simp: extends_def)
    next
      case t1: False
      let ?P = "P(1 := t1)" and ?x = "paddr OR flags OR PAGE_PRESENT"
      have s': "s' = s1\<lparr>pg_mem := pte_set (pg_mem s1) (?P 1) (level_index 1 vaddr) ?x\<rparr>"
        using t1 t2 by (simp add: s'_def paging_map_upper [OF p] u g)
      have path: "path_ok L1 s1 1 ?P vaddr"
        using path_ok_extend [OF path_ok_extends [OF P(1) ok2 _ x1]] P(2) l1 [OF t1] e2 [OF t1] by simp
      have leaf: "walk (pg_mem s') v 1 t1 = paddr + (v AND 0xFFF)" if "PT_INDEX v = PT_INDEX vaddr" for v
        using that leaf_entry_bits [OF p fl] by (simp add: s' pte_get_def pte_set_def)
      have "tables_ok L1 s'"
        unfolding s' by (rule tables_ok_leaf [OF ok1]) (use l1 [OF t1] in auto)
      moreover have "paging_get_physical s' v =
         (if same_page v vaddr then paddr + (v AND 0xFFF) else paging_get_physical s v)" for v
        using leaf_translation [OF ok1 path, of v ?x] leaf [of v] x unfolding s'
        by (auto simp: same_page_iff extends_def)
      ultimately show ?thesis by blast
    qed
  qed
qed

section \<open>Properties\<close>

lemma rd64_zero_mem [simp]: "rd64 (\<lambda>_. 0) a = 0"
  by (simp add: rd64_def rd_bytes_def upt_rec)

definition sample_paging :: paging where
  "sample_paging = \<lparr>pg_mem = (\<lambda>_. 0),
     pg_pmm = \<lparr>pmm_bitmap = [0xFFFFFFFFFFFFFF03], pmm_bitmap_addr = 0x1000, pmm_bitmap_size = 1,
       pmm_total_pages_count = 40, pmm_free_pages_count = 6,
       pmm_ref_counts = replicate 40 0, pmm_ref_start = 0x2000, pmm_ref_end = 0x2000\<rparr>,
     pg_pml4 = 0x1000, pg_cr3 = 0x1000\<rparr>"

lemma sample_paging_free: "{p. page_free (pg_pmm sample_paging) p} = {2, 3, 4, 5, 6, 7}"
proof -
  have "{p. page_free (pg_pmm sample_paging) p} = set (filter (page_free (pg_pmm sample_paging)) [0..<40])"
    by (auto simp: page_free_def sample_paging_def)
  also have "filter (page_free (pg_pmm sample_paging)) [0..<40] = [2, 3, 4, 5, 6, 7]"
    by code_simp
  finally show ?thesis by simp
qed

lemma sample_paging_pmm: "pmm_inv (pg_pmm sample_paging)" "pmm_ok (pg_pmm sample_paging)"
proof -
  show inv: "pmm_inv (pg_pmm sample_paging)"
    unfolding pmm_inv_def sample_paging_free by (simp add: sample_paging_def)
  have "0 \<notin> {p. page_free (pg_pmm sample_paging) p}" unfolding sample_paging_free by simp
  with inv show "pmm_ok (pg_pmm sample_paging)" by (simp add: pmm_ok_def)
qed

lemma sample_paging_ok: "tables_ok [0x1000 \<mapsto> (4, 0, 0)] sample_paging"
proof -
  have "1 \<notin> {p. page_free (pg_pmm sample_paging) p}" unfolding sample_paging_free by simp
  then have "0x1000 \<notin> avail_pages (pg_pmm sample_paging)"
    by (simp add: avail_pages_iff [OF sample_paging_pmm(1)])
  then show ?thesis
    using sample_paging_pmm(2)
    by (auto simp: tables_ok_def table_page_def sample_paging_def pte_get_def Let_def)
qed



end
