(* ===== verification/Kheap.thy ===== *)
theory Kheap
  imports Paging
begin

text \<open>
  \<^verbatim>\<open>src/memory/kheap.c\<close>: the kernel heap, a linked list of blocks, each a 24-byte header
  followed by its data, in the byte memory of the kernel's address space. A list may be
  cyclic once a header is damaged, so the loops over it are partial: \<open>None\<close> is a walk that
  does not end.
\<close>

section \<open>Block headers\<close>

text \<open>
  \<^verbatim>\<open>struct kheap_block\<close>: \<^verbatim>\<open>next\<close> at offset 0, \<^verbatim>\<open>size\<close> at 8, \<^verbatim>\<open>flags\<close> at 16, \<^verbatim>\<open>magic\<close> at 18; its
  size is 24 with the padding.
\<close>

abbreviation KHEAP_FREE :: u16 where "KHEAP_FREE \<equiv> 0"
abbreviation KHEAP_ALLOCATED :: u16 where "KHEAP_ALLOCATED \<equiv> 1"
abbreviation KHEAP_MAGIC :: u16 where "KHEAP_MAGIC \<equiv> 0xBEEF"
abbreviation BLOCK_HEADER :: u64 where "BLOCK_HEADER \<equiv> 24"
abbreviation MIN_BLOCK_SIZE :: u64 where "MIN_BLOCK_SIZE \<equiv> 40"

definition blk_next :: "mem \<Rightarrow> u64 \<Rightarrow> u64" where "blk_next m b = rd64 m b"
definition blk_size :: "mem \<Rightarrow> u64 \<Rightarrow> u64" where "blk_size m b = rd64 m (b + 8)"
definition blk_flags :: "mem \<Rightarrow> u64 \<Rightarrow> u16" where "blk_flags m b = rd16 m (b + 16)"
definition blk_magic :: "mem \<Rightarrow> u64 \<Rightarrow> u16" where "blk_magic m b = rd16 m (b + 18)"

definition set_next :: "u64 \<Rightarrow> u64 \<Rightarrow> mem \<Rightarrow> mem" where "set_next b v m = wr64 m b v"
definition set_size :: "u64 \<Rightarrow> u64 \<Rightarrow> mem \<Rightarrow> mem" where "set_size b v m = wr64 m (b + 8) v"
definition set_flags :: "u64 \<Rightarrow> u16 \<Rightarrow> mem \<Rightarrow> mem" where "set_flags b v m = wr16 m (b + 16) v"
definition set_magic :: "u64 \<Rightarrow> u16 \<Rightarrow> mem \<Rightarrow> mem" where "set_magic b v m = wr16 m (b + 18) v"

definition BLOCK_DATA :: "u64 \<Rightarrow> u64" where "BLOCK_DATA b = b + BLOCK_HEADER"
definition DATA_BLOCK :: "u64 \<Rightarrow> u64" where "DATA_BLOCK d = d - BLOCK_HEADER"
definition align_up16 :: "u64 \<Rightarrow> u64" where "align_up16 x = (x + 16 - 1) AND NOT (16 - 1)"

record kheap =
  kh_mem :: mem
  heap_first :: u64
  bytes_used :: u64
  bytes_free :: u64

section \<open>Operations\<close>

definition kheap_map_page :: "u64 \<Rightarrow> paging \<Rightarrow> paging" where
  "kheap_map_page addr pg =
     (let (phys, pm) = pmm_alloc_page (pg_pmm pg);
          pg = pg\<lparr>pg_pmm := pm\<rparr>
      in if phys \<noteq> 0 then paging_map addr phys PAGE_WRITABLE pg else pg)"

definition kheap_init :: "u64 \<Rightarrow> u64 \<Rightarrow> paging \<Rightarrow> kheap \<Rightarrow> (paging \<times> kheap) option" where
  "kheap_init start sz pg h =
     (case for_by 4096 start (start + sz) kheap_map_page pg of
        None \<Rightarrow> None
      | Some pg \<Rightarrow>
          Some (pg, h\<lparr>heap_first := start,
                     kh_mem := (set_magic start KHEAP_MAGIC \<circ> set_flags start KHEAP_FREE \<circ>
                                set_size start (sz - BLOCK_HEADER) \<circ> set_next start 0) (kh_mem h),
                     bytes_used := 0,
                     bytes_free := sz - BLOCK_HEADER\<rparr>))"

definition split_block :: "u64 \<Rightarrow> u64 \<Rightarrow> kheap \<Rightarrow> kheap" where
  "split_block block sz h =
     (let remaining = blk_size (kh_mem h) block - sz - BLOCK_HEADER
      in if remaining < MIN_BLOCK_SIZE then h
         else
           (let new_block = block + BLOCK_HEADER + sz;
                m = set_next new_block (blk_next (kh_mem h) block) (kh_mem h);
                m = set_size new_block remaining m;
                m = set_flags new_block KHEAP_FREE m;
                m = set_magic new_block KHEAP_MAGIC m;
                m = set_size block sz m;
                m = set_next block new_block m
            in h\<lparr>kh_mem := m, bytes_free := bytes_free h - BLOCK_HEADER\<rparr>))"

partial_function (option) merge_from :: "u64 \<Rightarrow> kheap \<Rightarrow> kheap option" where
  "merge_from block h =
     (let m = kh_mem h; nxt = blk_next m block
      in if block \<noteq> 0 \<and> nxt \<noteq> 0 then
           (if blk_flags m block AND KHEAP_ALLOCATED = 0 \<and> blk_flags m nxt AND KHEAP_ALLOCATED = 0 \<and>
               nxt = block + BLOCK_HEADER + blk_size m block
            then
              (let m' = set_size block (blk_size m block + (BLOCK_HEADER + blk_size m nxt)) m;
                   m' = set_next block (blk_next m' nxt) m'
               in merge_from block (h\<lparr>kh_mem := m', bytes_free := bytes_free h + BLOCK_HEADER\<rparr>))
            else merge_from nxt h)
         else Some h)"

definition merge_blocks :: "kheap \<Rightarrow> kheap option" where
  "merge_blocks h = merge_from (heap_first h) h"

partial_function (option) kmalloc_walk :: "u64 \<Rightarrow> u64 \<Rightarrow> kheap \<Rightarrow> (u64 \<times> kheap) option" where
  "kmalloc_walk sz block h =
     (if block = 0 then Some (0, h)
      else if blk_magic (kh_mem h) block \<noteq> KHEAP_MAGIC then Some (0, h)
      else if blk_flags (kh_mem h) block AND KHEAP_ALLOCATED = 0 \<and> blk_size (kh_mem h) block \<ge> sz
      then
        (let h = split_block block sz h;
             h = h\<lparr>kh_mem := set_flags block KHEAP_ALLOCATED (kh_mem h)\<rparr>
         in Some (BLOCK_DATA block,
                  h\<lparr>bytes_used := bytes_used h + blk_size (kh_mem h) block,
                    bytes_free := bytes_free h - blk_size (kh_mem h) block\<rparr>))
      else kmalloc_walk sz (blk_next (kh_mem h) block) h)"

definition kmalloc :: "u64 \<Rightarrow> kheap \<Rightarrow> (u64 \<times> kheap) option" where
  "kmalloc sz h = (if sz = 0 then Some (0, h) else kmalloc_walk (align_up16 sz) (heap_first h) h)"

definition kfree :: "u64 \<Rightarrow> kheap \<Rightarrow> kheap option" where
  "kfree ptr h =
     (if ptr = 0 then Some h
      else
        (let block = DATA_BLOCK ptr
         in if blk_magic (kh_mem h) block \<noteq> KHEAP_MAGIC then Some h
            else if blk_flags (kh_mem h) block AND KHEAP_ALLOCATED = 0 then Some h
            else
              (let m = set_flags block KHEAP_FREE (kh_mem h)
               in merge_blocks (h\<lparr>kh_mem := m,
                    bytes_used := bytes_used h - blk_size m block,
                    bytes_free := bytes_free h + blk_size m block\<rparr>))))"

text \<open>The copy loop of \<^verbatim>\<open>krealloc\<close> reads the old block's size again in every round.\<close>

function krealloc_copy :: "u64 \<Rightarrow> u64 \<Rightarrow> u64 \<Rightarrow> u64 \<Rightarrow> u64 \<Rightarrow> mem \<Rightarrow> mem" where
  "krealloc_copy block src dst new_size i m =
     (if i < blk_size m block \<and> i < new_size
      then krealloc_copy block src dst new_size (i + 1) (m(dst + i := m (src + i)))
      else m)"
  by pat_completeness auto
termination
  by (relation "measure (\<lambda>(block, src, dst, new_size, i, m). unat new_size - unat i)")
     (auto simp: unat_plus1_less word_less_nat_alt)

declare krealloc_copy.simps [simp del]

definition krealloc :: "u64 \<Rightarrow> u64 \<Rightarrow> kheap \<Rightarrow> (u64 \<times> kheap) option" where
  "krealloc ptr new_size h =
     (if new_size = 0 then map_option (\<lambda>h. (0, h)) (kfree ptr h)
      else if ptr = 0 then kmalloc new_size h
      else
        (let block = DATA_BLOCK ptr
         in if blk_magic (kh_mem h) block \<noteq> KHEAP_MAGIC then Some (0, h)
            else if new_size \<le> blk_size (kh_mem h) block then Some (ptr, h)
            else
              (case kmalloc new_size h of
                 None \<Rightarrow> None
               | Some (new_ptr, h) \<Rightarrow>
                   if new_ptr = 0 then Some (0, h)
                   else
                     map_option (\<lambda>h. (new_ptr, h))
                       (kfree ptr (h\<lparr>kh_mem := krealloc_copy block ptr new_ptr new_size 0 (kh_mem h)\<rparr>)))))"

section \<open>Statistics and validation\<close>

record kheap_stats =
  total_size :: u64
  used_size :: u64
  free_blocks :: u64
  largest_free :: u64
  block_count :: u32
  allocated_blocks :: u32

partial_function (option) stats_walk :: "kheap \<Rightarrow> u64 \<Rightarrow> kheap_stats \<Rightarrow> kheap_stats option" where
  "stats_walk h block st =
     (if block \<noteq> 0 \<and> blk_magic (kh_mem h) block = KHEAP_MAGIC then
        (let st = st\<lparr>block_count := block_count st + 1\<rparr>;
             st = (if blk_flags (kh_mem h) block AND KHEAP_ALLOCATED \<noteq> 0
                   then st\<lparr>allocated_blocks := allocated_blocks st + 1\<rparr>
                   else
                     (let st = st\<lparr>free_blocks := free_blocks st + 1\<rparr>
                      in if blk_size (kh_mem h) block > largest_free st
                         then st\<lparr>largest_free := blk_size (kh_mem h) block\<rparr> else st))
         in stats_walk h (blk_next (kh_mem h) block) st)
      else Some st)"

definition kheap_get_stats :: "kheap_stats option \<Rightarrow> kheap \<Rightarrow> kheap_stats option option" where
  "kheap_get_stats stats h =
     (case stats of
        None \<Rightarrow> Some None
      | Some st \<Rightarrow>
          map_option Some
            (stats_walk h (heap_first h)
              (st\<lparr>total_size := bytes_used h + bytes_free h, used_size := bytes_used h, free_blocks := 0,
                 largest_free := 0, block_count := 0, allocated_blocks := 0\<rparr>)))"

text \<open>\<^verbatim>\<open>walk_blocks\<close> returns the corruptions, the allocated blocks and the largest free block.\<close>

partial_function (option) walk_blocks_from ::
  "kheap \<Rightarrow> u64 \<Rightarrow> u64 \<Rightarrow> u64 \<Rightarrow> u64 \<Rightarrow> (u64 \<times> u64 \<times> u64) option" where
  "walk_blocks_from h block corruptions allocated largest =
     (if block = 0 then Some (corruptions, allocated, largest)
      else if blk_magic (kh_mem h) block \<noteq> KHEAP_MAGIC then Some (corruptions + 1, allocated, largest)
      else
        (let fl = blk_flags (kh_mem h) block;
             nxt = blk_next (kh_mem h) block;
             corruptions = (if fl \<noteq> KHEAP_FREE \<and> fl \<noteq> KHEAP_ALLOCATED then corruptions + 1 else corruptions);
             corruptions = (if nxt \<noteq> 0 \<and> nxt \<noteq> block + BLOCK_HEADER + blk_size (kh_mem h) block
                            then corruptions + 1 else corruptions);
             allocated' = (if fl AND KHEAP_ALLOCATED \<noteq> 0 then allocated + 1 else allocated);
             largest' = (if fl AND KHEAP_ALLOCATED \<noteq> 0 then largest
                         else if blk_size (kh_mem h) block > largest then blk_size (kh_mem h) block
                         else largest)
         in walk_blocks_from h nxt corruptions allocated' largest'))"

definition walk_blocks :: "kheap \<Rightarrow> (u64 \<times> u64 \<times> u64) option" where
  "walk_blocks h = walk_blocks_from h (heap_first h) 0 0 0"

definition kheap_validate :: "kheap \<Rightarrow> int option" where
  "kheap_validate h = map_option (\<lambda>(corruptions, _, _). sint (ucast corruptions :: u32)) (walk_blocks h)"

definition kheap_get_used :: "kheap \<Rightarrow> u64" where "kheap_get_used h = bytes_used h"
definition kheap_get_free :: "kheap \<Rightarrow> u64" where "kheap_get_free h = bytes_free h"

section \<open>Reading headers after writes\<close>

lemma disjoint_offsets:
  assumes "i + n \<le> j \<or> j + k \<le> i" "i + n < 2 ^ 63" "j + k < 2 ^ 63"
  shows "disjoint_ranges (b + of_nat i) n (b + of_nat j) k"
proof -
  have shift: "in_range x (b + c) l = in_range (x - b) c l" for x c l
    by (simp add: in_range_def algebra_simps)
  have "disjoint_ranges (of_nat i) n (of_nat j) k"
    using assms by (intro disjoint_ranges_nat) (auto simp: unat_of_nat_u64)
  then show ?thesis
    unfolding disjoint_ranges_def shift by blast
qed

lemma rd16_wr_disjoint:
  "disjoint_ranges a 2 b 8 \<Longrightarrow> rd16 (wr64 m b v) a = rd16 m a"
  "disjoint_ranges a 2 b 2 \<Longrightarrow> rd16 (wr16 m b w) a = rd16 m a"
  by (simp_all add: rd16_def wr64_def wr16_def rd_wr_disjoint)

lemma rd64_wr16_disjoint:
  "disjoint_ranges a 8 b 2 \<Longrightarrow> rd64 (wr16 m b v) a = rd64 m a"
  by (simp add: rd64_def wr16_def rd_wr_disjoint)

lemmas header_disjoint =
  disjoint_offsets [of 0 8 8 8, simplified] disjoint_offsets [of 8 8 0 8, simplified]
  disjoint_offsets [of 0 8 16 2, simplified] disjoint_offsets [of 16 2 0 8, simplified]
  disjoint_offsets [of 0 8 18 2, simplified] disjoint_offsets [of 18 2 0 8, simplified]
  disjoint_offsets [of 8 8 16 2, simplified] disjoint_offsets [of 16 2 8 8, simplified]
  disjoint_offsets [of 8 8 18 2, simplified] disjoint_offsets [of 18 2 8 8, simplified]
  disjoint_offsets [of 16 2 18 2, simplified] disjoint_offsets [of 18 2 16 2, simplified]

lemmas blk_defs = blk_next_def blk_size_def blk_flags_def blk_magic_def
  set_next_def set_size_def set_flags_def set_magic_def

lemma blk_set_same [simp]:
  "blk_next (set_next b v m) b = v" "blk_next (set_size b v m) b = blk_next m b"
  "blk_next (set_flags b w m) b = blk_next m b" "blk_next (set_magic b w m) b = blk_next m b"
  "blk_size (set_next b v m) b = blk_size m b" "blk_size (set_size b v m) b = v"
  "blk_size (set_flags b w m) b = blk_size m b" "blk_size (set_magic b w m) b = blk_size m b"
  "blk_flags (set_next b v m) b = blk_flags m b" "blk_flags (set_size b v m) b = blk_flags m b"
  "blk_flags (set_flags b w m) b = w" "blk_flags (set_magic b w m) b = blk_flags m b"
  "blk_magic (set_next b v m) b = blk_magic m b" "blk_magic (set_size b v m) b = blk_magic m b"
  "blk_magic (set_flags b w m) b = blk_magic m b" "blk_magic (set_magic b w m) b = w"
  by (simp_all add: blk_defs rd64_wr64_disjoint rd16_wr_disjoint rd64_wr16_disjoint header_disjoint)

text \<open>A header write changes only the 24 bytes of the header; a header depends on these only.\<close>

lemma in_range_part:
  assumes "in_range x (b + of_nat i) n" "i + n \<le> 24"
  shows "in_range x b 24"
proof -
  have "in_range (x - b) (of_nat i) n" using assms(1) by (simp add: in_range_def algebra_simps)
  then have "unat (x - b) < i + n"
    using assms(2) in_range_nat [of "of_nat i" n "x - b"] by (simp add: unat_of_nat_u64)
  then show ?thesis using assms(2) by (simp add: in_range_def)
qed

lemma wr16_other: "\<not> in_range x a 2 \<Longrightarrow> wr16 m a v x = m x"
  by (simp add: wr16_def wr_bytes_other)

lemma set_other:
  assumes "\<not> in_range x b 24"
  shows "set_next b v m x = m x" "set_size b v m x = m x"
    "set_flags b w m x = m x" "set_magic b w m x = m x"
  using assms in_range_part [of x b 0 8] in_range_part [of x b 8 8]
    in_range_part [of x b 16 2] in_range_part [of x b 18 2]
  by (auto simp: blk_defs intro!: wr64_other wr16_other)

lemma rd16_cong:
  assumes "\<And>x. in_range x a 2 \<Longrightarrow> m x = m' x"
  shows "rd16 m a = rd16 m' a"
  using assms in_range_offset [of _ 2 a]
  by (auto simp: rd16_def rd_bytes_def intro!: arg_cong [of _ _ le_join])

definition same_header :: "mem \<Rightarrow> mem \<Rightarrow> u64 \<Rightarrow> bool" where
  "same_header m m' b \<longleftrightarrow> blk_next m b = blk_next m' b \<and> blk_size m b = blk_size m' b \<and>
     blk_flags m b = blk_flags m' b \<and> blk_magic m b = blk_magic m' b"

lemma same_headerI:
  assumes "\<And>x. in_range x b 24 \<Longrightarrow> m x = m' x"
  shows "same_header m m' b"
  unfolding same_header_def blk_defs
  using assms in_range_part [of _ b 0 8] in_range_part [of _ b 8 8]
    in_range_part [of _ b 16 2] in_range_part [of _ b 18 2]
  by (auto intro!: rd64_cong rd16_cong)

section \<open>The list of blocks\<close>

text \<open>
  \<open>chain m a bs\<close>: from address \<open>a\<close> on the memory holds the blocks \<open>bs\<close>, each a size and
  whether it is allocated, one right after the other, the last with a null \<^verbatim>\<open>next\<close>.
\<close>

type_synonym blocks = "(nat \<times> bool) list"

fun chain :: "mem \<Rightarrow> nat \<Rightarrow> blocks \<Rightarrow> bool" where
  "chain m a [] = True"
| "chain m a ((sz, al) # bs) \<longleftrightarrow>
     blk_size m (of_nat a) = of_nat sz \<and> blk_flags m (of_nat a) = (if al then 1 else 0) \<and>
     blk_magic m (of_nat a) = KHEAP_MAGIC \<and>
     blk_next m (of_nat a) = (if bs = [] then 0 else of_nat (a + 24 + sz)) \<and>
     chain m (a + 24 + sz) bs"

definition extent :: "blocks \<Rightarrow> nat" where
  "extent bs = sum_list (map (\<lambda>(sz, al). 24 + sz) bs)"

lemma extent_simps [simp]: "extent [] = 0" "extent ((sz, al) # bs) = 24 + sz + extent bs"
  "extent (bs @ cs) = extent bs + extent cs"
  by (simp_all add: extent_def)

lemma chain_cong:
  assumes "a + extent bs \<le> 2 ^ 64"
    and "\<And>x. a \<le> unat x \<Longrightarrow> unat x < a + extent bs \<Longrightarrow> m x = m' x"
  shows "chain m a bs = chain m' a bs"
  using assms
proof (induction bs arbitrary: a)
  case (Cons b bs)
  obtain sz al where b: "b = (sz, al)" by force
  have "a < 2 ^ 64" using Cons.prems(1) b by simp
  then have a: "unat (of_nat a :: u64) = a" by (rule unat_of_nat_u64)
  have "in_range x (of_nat a) 24 \<Longrightarrow> m x = m' x" for x
    using Cons.prems b in_range_nat [of "of_nat a" 24 x] by (auto simp: a)
  then have "same_header m m' (of_nat a)" by (rule same_headerI)
  moreover have "chain m (a + 24 + sz) bs = chain m' (a + 24 + sz) bs"
    using Cons.prems b by (intro Cons.IH) auto
  ultimately show ?case by (simp add: b same_header_def)
qed simp

section \<open>Allocation on the list of blocks\<close>

fun first_fit :: "nat \<Rightarrow> blocks \<Rightarrow> (nat \<times> nat) option" where
  "first_fit n [] = None"
| "first_fit n ((sz, al) # bs) =
     (if \<not> al \<and> n \<le> sz then Some (0, sz)
      else map_option (\<lambda>(off, s). (24 + sz + off, s)) (first_fit n bs))"

definition taken_size :: "nat \<Rightarrow> nat \<Rightarrow> nat" where
  "taken_size n s = (if n + 64 \<le> s then n else s)"

fun take_fit :: "nat \<Rightarrow> blocks \<Rightarrow> blocks" where
  "take_fit n [] = []"
| "take_fit n ((sz, al) # bs) =
     (if \<not> al \<and> n \<le> sz
      then if n + 64 \<le> sz then (n, True) # (sz - n - 24, False) # bs else (sz, True) # bs
      else (sz, al) # take_fit n bs)"

definition used_bytes :: "blocks \<Rightarrow> nat" where
  "used_bytes bs = sum_list (map (\<lambda>(s, al). if al then s else 0) bs)"

definition unused_bytes :: "blocks \<Rightarrow> nat" where
  "unused_bytes bs = sum_list (map (\<lambda>(s, al). if al then 0 else s) bs)"

lemma bytes_simps [simp]:
  "used_bytes [] = 0" "used_bytes ((s, al) # bs) = (if al then s else 0) + used_bytes bs"
  "unused_bytes [] = 0" "unused_bytes ((s, al) # bs) = (if al then 0 else s) + unused_bytes bs"
  by (simp_all add: used_bytes_def unused_bytes_def)

lemma take_fit_extent [simp]: "extent (take_fit n bs) = extent bs"
  by (induction n bs rule: take_fit.induct) auto

lemma take_fit_bytes:
  assumes "first_fit n bs = Some (off, s)"
  shows "used_bytes (take_fit n bs) = used_bytes bs + taken_size n s"
    and "unused_bytes (take_fit n bs) + taken_size n s + (if n + 64 \<le> s then 24 else 0) = unused_bytes bs"
  using assms
  by (induction n bs arbitrary: off s rule: take_fit.induct) (auto simp: taken_size_def split: if_splits)

lemma first_fit_bounds:
  "first_fit n bs = Some (off, s) \<Longrightarrow> n \<le> s \<and> off + 24 + s \<le> extent bs"
proof (induction n bs arbitrary: off s rule: first_fit.induct)
  case (2 n sz al bs)
  show ?case
  proof (cases "\<not> al \<and> n \<le> sz")
    case False
    then obtain off' where "first_fit n bs = Some (off', s)" "off = 24 + sz + off'"
      using "2.prems" by auto
    with "2.IH" [OF False] show ?thesis by auto
  qed (use "2.prems" in auto)
qed simp

text \<open>Small addresses as words.\<close>

lemma of_nat_u64_inj: "x < 2 ^ 64 \<Longrightarrow> y < 2 ^ 64 \<Longrightarrow> (of_nat x :: u64) = of_nat y \<longleftrightarrow> x = y"
  by (metis unat_of_nat_u64)

lemma of_nat_u64_le: "x < 2 ^ 64 \<Longrightarrow> y < 2 ^ 64 \<Longrightarrow> (of_nat x :: u64) \<le> of_nat y \<longleftrightarrow> x \<le> y"
  by (simp add: word_le_nat_alt unat_of_nat_u64)

lemma of_nat_u64_less: "x < 2 ^ 64 \<Longrightarrow> y < 2 ^ 64 \<Longrightarrow> (of_nat x :: u64) < of_nat y \<longleftrightarrow> x < y"
  by (simp add: word_less_nat_alt unat_of_nat_u64)

lemma of_nat_u64_zero: "x < 2 ^ 64 \<Longrightarrow> (of_nat x :: u64) = 0 \<longleftrightarrow> x = 0"
  using of_nat_u64_inj [of x 0] by simp

text \<open>Splitting the block at \<open>a\<close>, when its size leaves room for a header.\<close>

lemma split_block_chain:
  assumes ch: "chain (kh_mem h) a ((s, False) # bs)" and bound: "a + 24 + s + extent bs \<le> 2 ^ 64"
    and room: "n + 24 \<le> s"
  defines "h' \<equiv> split_block (of_nat a) (of_nat n) h"
  shows "chain (kh_mem h') a (if n + 64 \<le> s then (n, False) # (s - n - 24, False) # bs else (s, False) # bs)"
    and "\<not> (a \<le> unat x \<and> unat x < a + 24 + s) \<Longrightarrow> kh_mem h' x = kh_mem h x"
    and "heap_first h' = heap_first h" "bytes_used h' = bytes_used h"
    and "bytes_free h' = bytes_free h - (if n + 64 \<le> s then 24 else 0)"
proof -
  let ?m = "kh_mem h" and ?a = "of_nat a :: u64"
  define b where "b = ?a + 24 + of_nat n"
  define r where "r = (of_nat (s - n - 24) :: u64)"
  have "blk_size ?m ?a = of_nat s" using ch by simp
  then have rem: "blk_size ?m ?a - of_nat n - 24 = r"
    using room by (simp add: r_def of_nat_diff)
  have "r < MIN_BLOCK_SIZE \<longleftrightarrow> s - n - 24 < 40"
    using of_nat_u64_less [of "s - n - 24" 40] bound unfolding r_def by simp
  then have big: "r < MIN_BLOCK_SIZE \<longleftrightarrow> \<not> n + 64 \<le> s" using room by auto
  define m1 where "m1 = set_magic b KHEAP_MAGIC (set_flags b KHEAP_FREE
      (set_size b r (set_next b (blk_next ?m ?a) ?m)))"
  define m2 where "m2 = set_next ?a b (set_size ?a (of_nat n) m1)"
  have h': "h' = (if n + 64 \<le> s then h\<lparr>kh_mem := m2, bytes_free := bytes_free h - 24\<rparr> else h)"
    unfolding h'_def split_block_def Let_def rem big b_def [symmetric] m2_def m1_def by simp
  have b_nat: "b = of_nat (a + 24 + n)" by (simp add: b_def)
  show "heap_first h' = heap_first h" "bytes_used h' = bytes_used h"
    "bytes_free h' = bytes_free h - (if n + 64 \<le> s then 24 else 0)" by (simp_all add: h')
  have a: "unat ?a = a" if "n + 64 \<le> s"
    by (rule unat_of_nat_u64) (use that bound in simp)
  have b: "unat b = a + 24 + n" if "n + 64 \<le> s"
    unfolding b_nat by (rule unat_of_nat_u64) (use that bound in simp)
  have ra: "in_range x ?a 24 \<longleftrightarrow> a \<le> unat x \<and> unat x < a + 24" if "n + 64 \<le> s" for x
    using in_range_nat [of ?a 24 x] a [OF that] bound by simp
  have rb: "in_range x b 24 \<longleftrightarrow> a + 24 + n \<le> unat x \<and> unat x < a + 48 + n" if "n + 64 \<le> s" for x
    using in_range_nat [of b 24 x] b [OF that] bound that by auto
  have m1: "m1 x = ?m x" if "\<not> in_range x b 24" for x using that by (simp add: m1_def set_other)
  have m2: "m2 x = m1 x" if "\<not> in_range x ?a 24" for x using that by (simp add: m2_def set_other)
  show "kh_mem h' x = kh_mem h x" if "\<not> (a \<le> unat x \<and> unat x < a + 24 + s)"
  proof (cases "n + 64 \<le> s")
    case True
    then have "\<not> in_range x ?a 24" "\<not> in_range x b 24" using that ra rb by auto
    then show ?thesis using True by (simp add: h' m1 m2)
  qed (simp add: h')
  show "chain (kh_mem h') a (if n + 64 \<le> s then (n, False) # (s - n - 24, False) # bs else (s, False) # bs)"
  proof (cases "n + 64 \<le> s")
    case True
    have sb: "same_header m1 m2 b"
      using ra [OF True] rb [OF True] by (intro same_headerI) (simp add: m2)
    have sa: "same_header ?m m1 ?a"
      using ra [OF True] rb [OF True] by (intro same_headerI) (simp add: m1)
    have rest: "chain m2 (a + 24 + s) bs"
      using ch chain_cong [of "a + 24 + s" bs m2 ?m] ra [OF True] rb [OF True] bound True
      by (auto simp: m1 m2)
    have pos: "a + 24 + n + 24 + (s - n - 24) = a + 24 + s" using True by simp
    have "blk_next m2 b = blk_next ?m ?a" "blk_size m2 b = r" "blk_flags m2 b = 0" "blk_magic m2 b = KHEAP_MAGIC"
      using sb by (simp_all add: same_header_def m1_def)
    then have tail: "chain m2 (a + 24 + n) ((s - n - 24, False) # bs)"
      unfolding chain.simps b_nat [symmetric] pos using ch rest by (simp add: r_def)
    have "blk_next m2 ?a = b" "blk_size m2 ?a = of_nat n" "blk_flags m2 ?a = 0" "blk_magic m2 ?a = KHEAP_MAGIC"
      using sa ch by (simp_all add: same_header_def m2_def)
    with tail have "chain m2 a ((n, False) # (s - n - 24, False) # bs)"
      by (simp only: chain.simps(2) [of m2 a] b_nat) simp
    then show ?thesis using True by (simp add: h')
  qed (use ch h' in simp)
qed

lemma set_flags_chain:
  assumes ch: "chain m a ((s, al) # bs)" and bound: "a + 24 + s + extent bs \<le> 2 ^ 64"
  shows "chain (set_flags (of_nat a) (if al' then 1 else 0) m) a ((s, al') # bs)"
    and "\<not> (a \<le> unat x \<and> unat x < a + 24) \<Longrightarrow> set_flags (of_nat a) v m x = m x"
proof -
  have ua: "unat (of_nat a :: u64) = a" by (rule unat_of_nat_u64) (use bound in simp)
  have r: "in_range x (of_nat a) 24 \<longleftrightarrow> a \<le> unat x \<and> unat x < a + 24" for x
    using in_range_nat [of "of_nat a" 24 x] ua bound by simp
  show other: "set_flags (of_nat a) v m x = m x" if "\<not> (a \<le> unat x \<and> unat x < a + 24)" for x v
    using that by (intro set_other) (simp add: r)
  have "chain (set_flags (of_nat a) (if al' then 1 else 0) m) (a + 24 + s) bs"
    using ch chain_cong [of "a + 24 + s" bs _ m] bound other by (auto simp del: of_nat_add)
  with ch show "chain (set_flags (of_nat a) (if al' then 1 else 0) m) a ((s, al') # bs)" by simp
qed

text \<open>The block at \<open>a\<close> is free and large enough: the loop ends here.\<close>

lemma kmalloc_walk_here:
  assumes ch: "chain (kh_mem h) a ((s, False) # bs)" and bound: "a + 24 + s + extent bs \<le> 2 ^ 64"
    and a: "0 < a" and room: "n + 24 \<le> s"
  obtains h' where "kmalloc_walk (of_nat n) (of_nat a) h = Some (of_nat (a + 24), h')"
    "chain (kh_mem h') a (take_fit n ((s, False) # bs))" "heap_first h' = heap_first h"
    "bytes_used h' = bytes_used h + of_nat (taken_size n s)"
    "bytes_free h' = bytes_free h - (if n + 64 \<le> s then 24 else 0) - of_nat (taken_size n s)"
    "\<And>x. \<not> (a \<le> unat x \<and> unat x < a + 24 + s) \<Longrightarrow> kh_mem h' x = kh_mem h x"
proof -
  define h1 where "h1 = split_block (of_nat a) (of_nat n) h"
  define m2 where "m2 = set_flags (of_nat a) KHEAP_ALLOCATED (kh_mem h1)"
  note sp = split_block_chain [OF ch bound room, folded h1_def]
  let ?rest = "if n + 64 \<le> s then (s - n - 24, False) # bs else bs"
  have c1: "chain (kh_mem h1) a ((taken_size n s, False) # ?rest)"
    using sp(1) by (simp add: taken_size_def split: if_splits)
  have ext: "a + 24 + taken_size n s + extent ?rest \<le> 2 ^ 64"
    using bound room by (simp add: taken_size_def)
  note fl = set_flags_chain [OF c1 ext]
  have c2: "chain m2 a ((taken_size n s, True) # ?rest)"
    using fl(1) [of True] by (simp add: m2_def)
  have small: "s < 2 ^ 64" "n < 2 ^ 64" "a < 2 ^ 64" using bound room by simp_all
  have test: "(of_nat a :: u64) \<noteq> 0" "blk_magic (kh_mem h) (of_nat a) = KHEAP_MAGIC"
    "blk_flags (kh_mem h) (of_nat a) = 0" "of_nat n \<le> blk_size (kh_mem h) (of_nat a)"
    using ch a small room by (simp_all add: of_nat_u64_zero of_nat_u64_le)
  let ?h = "h1\<lparr>kh_mem := m2, bytes_used := bytes_used h1 + blk_size m2 (of_nat a),
      bytes_free := bytes_free h1 - blk_size m2 (of_nat a)\<rparr>"
  have "kmalloc_walk (of_nat n) (of_nat a) h = Some (of_nat (a + 24), ?h)"
    using test by (subst kmalloc_walk.simps) (simp add: Let_def h1_def [symmetric] m2_def BLOCK_DATA_def)
  moreover have "chain m2 a (take_fit n ((s, False) # bs))"
    using c2 room by (simp add: taken_size_def split: if_splits)
  moreover have "blk_size m2 (of_nat a) = of_nat (taken_size n s)" using c2 by simp
  moreover have "m2 x = kh_mem h x" if "\<not> (a \<le> unat x \<and> unat x < a + 24 + s)" for x
    using sp(2) [OF that] fl(2) [of x] that by (auto simp: m2_def)
  ultimately show thesis
    using sp(3-5) by (intro that [of ?h]) simp_all
qed

lemma chain_next:
  assumes "chain m a ((s, al) # bs)" and "bs \<noteq> []" and "a + 24 + s + extent bs \<le> 2 ^ 64"
  shows "blk_next m (of_nat a) = of_nat (a + 24 + s)" "(of_nat (a + 24 + s) :: u64) \<noteq> 0"
    "a + 24 + s < 2 ^ 64"
proof -
  have "24 \<le> extent bs" using assms(2) by (cases bs) auto
  then show lt: "a + 24 + s < 2 ^ 64" using assms(3) by simp
  show "blk_next m (of_nat a) = of_nat (a + 24 + s)" using assms(1,2) by simp
  show "(of_nat (a + 24 + s) :: u64) \<noteq> 0" using of_nat_u64_zero [OF lt] by simp
qed

text \<open>What the search from the block at \<open>a\<close> on does, in terms of the list of blocks.\<close>

definition walk_result :: "nat \<Rightarrow> nat \<Rightarrow> blocks \<Rightarrow> kheap \<Rightarrow> bool" where
  "walk_result n a bs h \<longleftrightarrow>
     (case first_fit n bs of
        None \<Rightarrow> kmalloc_walk (of_nat n) (of_nat a) h = Some (0, h)
      | Some (off, s) \<Rightarrow> \<exists>h'. kmalloc_walk (of_nat n) (of_nat a) h = Some (of_nat (a + off + 24), h') \<and>
          chain (kh_mem h') a (take_fit n bs) \<and> heap_first h' = heap_first h \<and>
          bytes_used h' = bytes_used h + of_nat (taken_size n s) \<and>
          bytes_free h' = bytes_free h - (if n + 64 \<le> s then 24 else 0) - of_nat (taken_size n s) \<and>
          (\<forall>x. \<not> (a + off \<le> unat x \<and> unat x < a + off + 24 + s) \<longrightarrow> kh_mem h' x = kh_mem h x))"

lemma kmalloc_walk_skip:
  assumes "chain (kh_mem h) a ((sz, al) # bs)" "a + 24 + sz \<le> 2 ^ 64" "0 < a" "n < 2 ^ 64"
    and "\<not> (\<not> al \<and> n \<le> sz)"
  shows "kmalloc_walk (of_nat n) (of_nat a) h =
         kmalloc_walk (of_nat n) (blk_next (kh_mem h) (of_nat a)) h"
proof -
  have "sz < 2 ^ 64" "a < 2 ^ 64" using assms(2) by simp_all
  then show ?thesis
    using assms by (subst kmalloc_walk.simps) (auto simp: of_nat_u64_zero of_nat_u64_le)
qed

lemma walk_result_Cons:
  assumes ch: "chain (kh_mem h) a ((sz, al) # bs)" and bound: "a + 24 + sz + extent bs \<le> 2 ^ 64"
    and ne: "bs \<noteq> []" and nofit: "\<not> (\<not> al \<and> n \<le> sz)"
    and skip: "kmalloc_walk (of_nat n) (of_nat a) h =
       kmalloc_walk (of_nat n) (blk_next (kh_mem h) (of_nat a)) h"
    and rest: "walk_result n (a + 24 + sz) bs h"
  shows "walk_result n a ((sz, al) # bs) h"
proof -
  have ff: "first_fit n ((sz, al) # bs) = map_option (\<lambda>(off, s). (24 + sz + off, s)) (first_fit n bs)"
    and tf: "take_fit n ((sz, al) # bs) = (sz, al) # take_fit n bs"
    using nofit by auto
  note nx = chain_next [OF ch ne bound]
  show ?thesis
  proof (cases "first_fit n bs")
    case None
    then show ?thesis
      using rest skip nx(1) by (simp add: walk_result_def ff del: of_nat_add first_fit.simps(2))
  next
    case (Some fs)
    obtain off s where fs: "fs = (off, s)" by force
    obtain h' where h': "kmalloc_walk (of_nat n) (of_nat (a + 24 + sz)) h =
          Some (of_nat (a + 24 + sz + off + 24), h')"
        "chain (kh_mem h') (a + 24 + sz) (take_fit n bs)" "heap_first h' = heap_first h"
        "bytes_used h' = bytes_used h + of_nat (taken_size n s)"
        "bytes_free h' = bytes_free h - (if n + 64 \<le> s then 24 else 0) - of_nat (taken_size n s)"
        "\<And>x. \<not> (a + 24 + sz + off \<le> unat x \<and> unat x < a + 24 + sz + off + 24 + s) \<Longrightarrow>
          kh_mem h' x = kh_mem h x"
      using rest Some fs by (auto simp: walk_result_def)
    have ua: "unat (of_nat a :: u64) = a" by (rule unat_of_nat_u64) (use bound in simp)
    have "same_header (kh_mem h) (kh_mem h') (of_nat a)"
      using in_range_nat [of "of_nat a" 24] ua bound by (intro same_headerI h'(6) [symmetric]) auto
    moreover have "take_fit n bs \<noteq> []" using ne by (cases bs) (auto split: if_splits)
    ultimately have "chain (kh_mem h') a (take_fit n ((sz, al) # bs))"
      unfolding tf using ch h'(2) ne by (simp add: same_header_def)
    then show ?thesis
      using h' skip nx(1) Some fs
      by (simp add: walk_result_def ff add.assoc del: of_nat_add first_fit.simps(2) take_fit.simps(2))
  qed
qed

lemma kmalloc_walk_spec:
  assumes "chain (kh_mem h) a bs" "bs \<noteq> []" "0 < a" "a + extent bs \<le> 2 ^ 64" "n < 2 ^ 64"
    and "\<And>off s. first_fit n bs = Some (off, s) \<Longrightarrow> n + 24 \<le> s"
  shows "walk_result n a bs h"
  using assms
proof (induction bs arbitrary: a)
  case (Cons b bs)
  obtain sz al where b: "b = (sz, al)" by force
  have ch: "chain (kh_mem h) a ((sz, al) # bs)" and bound: "a + 24 + sz + extent bs \<le> 2 ^ 64"
    using Cons.prems b by auto
  show ?case
  proof (cases "\<not> al \<and> n \<le> sz")
    case True
    then have room: "n + 24 \<le> sz" using Cons.prems(6) [of 0 sz] b by simp
    from True have ch': "chain (kh_mem h) a ((sz, False) # bs)" using ch by simp
    show ?thesis
      by (rule kmalloc_walk_here [OF ch' bound Cons.prems(3) room])
        (use True b in \<open>auto simp: walk_result_def\<close>)
  next
    case False
    have skip: "kmalloc_walk (of_nat n) (of_nat a) h =
        kmalloc_walk (of_nat n) (blk_next (kh_mem h) (of_nat a)) h"
      by (rule kmalloc_walk_skip [OF ch _ Cons.prems(3,5) False]) (use bound in simp)
    show ?thesis
    proof (cases "bs = []")
      case True
      then have "first_fit n (b # bs) = None" using False b by auto
      moreover have "kmalloc_walk (of_nat n) (of_nat a) h = Some (0, h)"
        unfolding skip using True ch by (subst kmalloc_walk.simps) simp
      ultimately show ?thesis by (simp add: walk_result_def)
    next
      case ne: False
      have "walk_result n (a + 24 + sz) bs h"
        using Cons.prems b ch ne False by (intro Cons.IH) auto
      then show ?thesis
        unfolding b by (rule walk_result_Cons [OF ch bound ne False skip])
    qed
  qed
qed simp

section \<open>Freeing on the list of blocks\<close>

fun block_at :: "nat \<Rightarrow> blocks \<Rightarrow> (nat \<times> bool) option" where
  "block_at off [] = None"
| "block_at off ((s, al) # bs) =
     (if off = 0 then Some (s, al) else if off < 24 + s then None else block_at (off - (24 + s)) bs)"

fun mark_free :: "nat \<Rightarrow> blocks \<Rightarrow> blocks" where
  "mark_free off [] = []"
| "mark_free off ((s, al) # bs) =
     (if off = 0 then (s, False) # bs else (s, al) # mark_free (off - (24 + s)) bs)"

fun coalesce :: "blocks \<Rightarrow> blocks" where
  "coalesce ((s1, False) # (s2, False) # bs) = coalesce ((s1 + 24 + s2, False) # bs)"
| "coalesce (b # bs) = b # coalesce bs"
| "coalesce [] = []"

fun in_headers :: "nat \<Rightarrow> blocks \<Rightarrow> u64 \<Rightarrow> bool" where
  "in_headers a [] x = False"
| "in_headers a ((s, al) # bs) x = ((a \<le> unat x \<and> unat x < a + 24) \<or> in_headers (a + 24 + s) bs x)"

lemma extent_mark_free [simp]: "extent (mark_free off bs) = extent bs"
  by (induction off bs rule: mark_free.induct) auto

lemma mark_free_Nil [simp]: "mark_free off bs = [] \<longleftrightarrow> bs = []"
  by (cases "(off, bs)" rule: mark_free.cases) auto

lemma in_headers_mark_free [simp]: "in_headers a (mark_free off bs) x = in_headers a bs x"
  by (induction off bs arbitrary: a rule: mark_free.induct) auto

lemma extent_coalesce [simp]: "extent (coalesce bs) = extent bs"
  by (induction bs rule: coalesce.induct) auto

lemma coalesce_Nil [simp]: "coalesce bs = [] \<longleftrightarrow> bs = []"
  by (induction bs rule: coalesce.induct) auto

lemma length_coalesce: "length (coalesce bs) \<le> length bs"
  by (induction bs rule: coalesce.induct) auto

lemma mark_free_bytes:
  assumes "block_at off bs = Some (s, True)"
  shows "used_bytes (mark_free off bs) + s = used_bytes bs"
    and "unused_bytes (mark_free off bs) = unused_bytes bs + s"
  using assms by (induction off bs rule: mark_free.induct) (auto split: if_splits)

lemma coalesce_bytes:
  "used_bytes (coalesce bs) = used_bytes bs"
  "unused_bytes (coalesce bs) = unused_bytes bs + 24 * (length bs - length (coalesce bs))"
proof (induction bs rule: coalesce.induct)
  case (1 s1 s2 bs)
  { case 1 then show ?case using "1.IH" by simp }
  { case 2 then show ?case using "1.IH" length_coalesce [of "(s1 + 24 + s2, False) # bs"] by simp }
qed auto

lemma block_at_bounds: "block_at off bs = Some (s, al) \<Longrightarrow> off + 24 + s \<le> extent bs"
  by (induction off bs rule: block_at.induct) (auto split: if_splits)

lemma block_at_chain:
  assumes "chain m a bs" "block_at off bs = Some (s, al)"
  shows "blk_size m (of_nat (a + off)) = of_nat s \<and> blk_flags m (of_nat (a + off)) = (if al then 1 else 0) \<and>
    blk_magic m (of_nat (a + off)) = KHEAP_MAGIC"
  using assms
proof (induction off bs arbitrary: a rule: block_at.induct)
  case (2 off s' al' bs)
  have "a + 24 + s' + (off - (24 + s')) = a + off" if "\<not> off < 24 + s'"
    using that by simp
  with "2.IH" [of "a + 24 + s'"] "2.prems" show ?case
    by (auto split: if_splits simp del: of_nat_add)
qed simp

lemma mark_free_chain:
  assumes "chain m a bs" "block_at off bs = Some (s, True)" "a + extent bs \<le> 2 ^ 64"
  shows "chain (set_flags (of_nat (a + off)) 0 m) a (mark_free off bs)"
    and "\<not> in_headers a bs x \<Longrightarrow> set_flags (of_nat (a + off)) 0 m x = m x"
proof -
  have "chain (set_flags (of_nat (a + off)) 0 m) a (mark_free off bs) \<and>
     (\<forall>x. \<not> in_headers a bs x \<longrightarrow> set_flags (of_nat (a + off)) 0 m x = m x)"
    using assms
  proof (induction off bs arbitrary: a rule: mark_free.induct)
    case (2 off s' al bs)
    have bound: "a + 24 + s' + extent bs \<le> 2 ^ 64" using "2.prems"(3) by simp
    show ?case
    proof (cases "off = 0")
      case True
      then show ?thesis
        using set_flags_chain(1) [OF "2.prems"(1) bound, of False] set_flags_chain(2) [OF "2.prems"(1) bound]
        by auto
    next
      case False
      have off: "24 + s' \<le> off" and at: "block_at (off - (24 + s')) bs = Some (s, True)"
        using False "2.prems"(2) by (auto split: if_splits)
      define b where "b = (of_nat (a + off) :: u64)"
      have pos: "a + 24 + s' + (off - (24 + s')) = a + off" using off by simp
      have IH: "chain (set_flags b 0 m) (a + 24 + s') (mark_free (off - (24 + s')) bs)"
          "\<And>x. \<not> in_headers (a + 24 + s') bs x \<Longrightarrow> set_flags b 0 m x = m x"
        using "2.IH" [OF False _ at, of "a + 24 + s'"] "2.prems"(1) bound
        unfolding pos b_def by (auto simp del: of_nat_add)
      have ext: "off + 24 + s \<le> 24 + s' + extent bs" using block_at_bounds [OF at] off by simp
      have ub: "unat b = a + off" unfolding b_def by (rule unat_of_nat_u64) (use ext bound in simp)
      have ua: "unat (of_nat a :: u64) = a" by (rule unat_of_nat_u64) (use bound in simp)
      have "same_header m (set_flags b 0 m) (of_nat a)"
        using in_range_nat [of "of_nat a" 24] in_range_nat [of b 24] ua ub off ext bound
        by (intro same_headerI set_other(3) [symmetric]) auto
      moreover have "bs \<noteq> []" using at by auto
      ultimately have "chain (set_flags b 0 m) a (mark_free off ((s', al) # bs))"
        using "2.prems"(1) IH(1) False by (simp add: same_header_def)
      then show ?thesis using IH(2) False by (simp add: b_def del: of_nat_add)
    qed
  qed simp
  then show "chain (set_flags (of_nat (a + off)) 0 m) a (mark_free off bs)"
    and "\<not> in_headers a bs x \<Longrightarrow> set_flags (of_nat (a + off)) 0 m x = m x" by blast+
qed

lemma merge_pair:
  assumes ch: "chain m a ((s1, False) # (s2, False) # bs)"
    and bound: "a + 24 + s1 + 24 + s2 + extent bs \<le> 2 ^ 64"
  defines "m1 \<equiv> set_size (of_nat a) (blk_size m (of_nat a) + (24 + blk_size m (of_nat (a + 24 + s1)))) m"
  defines "m2 \<equiv> set_next (of_nat a) (blk_next m1 (of_nat (a + 24 + s1))) m1"
  shows "chain m2 a ((s1 + 24 + s2, False) # bs)"
    and "\<not> (a \<le> unat x \<and> unat x < a + 24) \<Longrightarrow> m2 x = m x"
proof -
  let ?a = "of_nat a :: u64"
  define b where "b = (of_nat (a + 24 + s1) :: u64)"
  have ua: "unat ?a = a" by (rule unat_of_nat_u64) (use bound in simp)
  have ub: "unat b = a + 24 + s1" unfolding b_def by (rule unat_of_nat_u64) (use bound in simp)
  have ra: "in_range x ?a 24 \<longleftrightarrow> a \<le> unat x \<and> unat x < a + 24" for x
    using in_range_nat [of ?a 24 x] ua bound by simp
  have rb: "in_range x b 24 \<longleftrightarrow> a + 24 + s1 \<le> unat x \<and> unat x < a + 48 + s1" for x
    using in_range_nat [of b 24 x] ub bound by auto
  have m1: "m1 x = m x" if "\<not> (a \<le> unat x \<and> unat x < a + 24)" for x
    using that by (simp add: m1_def set_other ra)
  show m2: "m2 x = m x" if "\<not> (a \<le> unat x \<and> unat x < a + 24)" for x
    using m1 [OF that] that by (simp add: m2_def set_other ra)
  have sb: "same_header m m1 b" by (intro same_headerI) (auto simp: rb m1)
  have rest: "chain m2 (a + 24 + (s1 + 24 + s2)) bs"
    using ch chain_cong [of "a + 24 + s1 + 24 + s2" bs m2 m] bound m2 by (simp add: add.assoc del: of_nat_add)
  have hb: "blk_size m b = of_nat s2" "blk_next m b = (if bs = [] then 0 else of_nat (a + 24 + s1 + 24 + s2))"
    using ch by (simp_all add: b_def del: of_nat_add)
  have ha: "blk_size m ?a = of_nat s1" "blk_flags m ?a = 0" "blk_magic m ?a = KHEAP_MAGIC"
    using ch by simp_all
  have m1': "m1 = set_size ?a (blk_size m ?a + (24 + blk_size m b)) m"
    and m2': "m2 = set_next ?a (blk_next m1 b) m1"
    by (simp_all only: m1_def m2_def b_def)
  have "blk_size m2 ?a = of_nat (s1 + 24 + s2)" by (simp add: m2' m1' ha hb)
  moreover have "blk_flags m2 ?a = 0" "blk_magic m2 ?a = KHEAP_MAGIC" by (simp_all add: m2' m1' ha)
  moreover have "blk_next m1 b = blk_next m b" using sb by (simp add: same_header_def)
  then have "blk_next m2 ?a = (if bs = [] then 0 else of_nat (a + 24 + (s1 + 24 + s2)))"
    using hb(2) by (auto simp: m2' algebra_simps)
  ultimately show "chain m2 a ((s1 + 24 + s2, False) # bs)"
    using rest by simp
qed

definition merge_result :: "nat \<Rightarrow> blocks \<Rightarrow> kheap \<Rightarrow> bool" where
  "merge_result a bs h \<longleftrightarrow>
     (\<exists>h'. merge_from (of_nat a) h = Some h' \<and> chain (kh_mem h') a (coalesce bs) \<and>
        heap_first h' = heap_first h \<and> bytes_used h' = bytes_used h \<and>
        bytes_free h' = bytes_free h + 24 * of_nat (length bs - length (coalesce bs)) \<and>
        (\<forall>x. \<not> in_headers a bs x \<longrightarrow> kh_mem h' x = kh_mem h x))"

lemma in_headers_bound: "in_headers a bs x \<Longrightarrow> a \<le> unat x"
  by (induction a bs x rule: in_headers.induct) auto

lemma merge_result_Cons:
  assumes ch: "chain (kh_mem h) a ((s, al) # bs)" and ne: "bs \<noteq> []"
    and bound: "a + 24 + s + extent bs \<le> 2 ^ 64" and a: "0 < a"
    and co: "coalesce ((s, al) # bs) = (s, al) # coalesce bs"
    and used: "al \<or> snd (hd bs)"
    and rest: "merge_result (a + 24 + s) bs h"
  shows "merge_result a ((s, al) # bs) h"
proof -
  note nx = chain_next [OF ch ne bound]
  define b where "b = (of_nat (a + 24 + s) :: u64)"
  have fl: "blk_flags (kh_mem h) b = (if snd (hd bs) then 1 else 0)"
    using ch ne by (cases bs) (auto simp: b_def simp del: of_nat_add)
  have "(of_nat a :: u64) \<noteq> 0" using a bound of_nat_u64_zero [of a] by simp
  then have step: "merge_from (of_nat a) h = merge_from b h"
    using nx(1,2) used ch fl unfolding b_def [symmetric] by (subst merge_from.simps) (auto simp: Let_def)
  obtain h' where h': "merge_from b h = Some h'" "chain (kh_mem h') (a + 24 + s) (coalesce bs)"
      "heap_first h' = heap_first h" "bytes_used h' = bytes_used h"
      "bytes_free h' = bytes_free h + 24 * of_nat (length bs - length (coalesce bs))"
      "\<And>x. \<not> in_headers (a + 24 + s) bs x \<Longrightarrow> kh_mem h' x = kh_mem h x"
    using rest unfolding merge_result_def b_def [symmetric] by blast
  have ua: "unat (of_nat a :: u64) = a" by (rule unat_of_nat_u64) (use bound in simp)
  have "same_header (kh_mem h) (kh_mem h') (of_nat a)"
    using in_range_nat [of "of_nat a" 24] ua bound in_headers_bound [of "a + 24 + s" bs]
    by (intro same_headerI h'(6) [symmetric]) fastforce
  then have "chain (kh_mem h') a (coalesce ((s, al) # bs))"
    unfolding co using ch h'(2) ne by (simp add: same_header_def)
  then show ?thesis
    using h' step unfolding merge_result_def co by auto
qed

lemma merge_result_merge:
  assumes ch: "chain (kh_mem h) a ((s1, False) # (s2, False) # bs)"
    and bound: "a + 24 + s1 + 24 + s2 + extent bs \<le> 2 ^ 64" and a: "0 < a"
    and rest: "\<And>h'. chain (kh_mem h') a ((s1 + 24 + s2, False) # bs) \<Longrightarrow>
      merge_result a ((s1 + 24 + s2, False) # bs) h'"
  shows "merge_result a ((s1, False) # (s2, False) # bs) h"
proof -
  let ?a = "of_nat a :: u64" and ?bs = "(s1 + 24 + s2, False) # bs"
  define b where "b = (of_nat (a + 24 + s1) :: u64)"
  define m1 where "m1 = set_size ?a (blk_size (kh_mem h) ?a + (24 + blk_size (kh_mem h) b)) (kh_mem h)"
  define m2 where "m2 = set_next ?a (blk_next m1 b) m1"
  define h1 where "h1 = h\<lparr>kh_mem := m2, bytes_free := bytes_free h + 24\<rparr>"
  note mp = merge_pair [OF ch bound, folded b_def, folded m1_def, folded m2_def]
  have bound': "a + 24 + s1 + extent ((s2, False) # bs) \<le> 2 ^ 64" using bound by simp
  note nx = chain_next [OF ch _ bound', folded b_def]
  have "?a \<noteq> 0" using a bound of_nat_u64_zero [of a] by simp
  moreover have "blk_flags (kh_mem h) ?a = 0" "blk_flags (kh_mem h) b = 0"
      "blk_size (kh_mem h) ?a = of_nat s1"
    using ch by (simp_all add: b_def del: of_nat_add)
  moreover have "b = ?a + 24 + of_nat s1" by (simp add: b_def)
  ultimately have step: "merge_from ?a h = merge_from ?a h1"
    using nx(1,2) by (subst merge_from.simps) (simp add: Let_def h1_def m2_def m1_def)
  have km: "kh_mem h1 = m2" by (simp add: h1_def)
  obtain h' where h': "merge_from ?a h1 = Some h'" "chain (kh_mem h') a (coalesce ?bs)"
      "heap_first h' = heap_first h1" "bytes_used h' = bytes_used h1"
      "bytes_free h' = bytes_free h1 + 24 * of_nat (length ?bs - length (coalesce ?bs))"
      "\<And>x. \<not> in_headers a ?bs x \<Longrightarrow> kh_mem h' x = kh_mem h1 x"
    using rest [of h1, unfolded km, OF mp(1)] unfolding merge_result_def km [symmetric] by blast
  have "length (coalesce ?bs) \<le> length ?bs" by (rule length_coalesce)
  then have len: "length ((s1, False) # (s2, False) # bs) - length (coalesce ?bs) =
      Suc (length ?bs - length (coalesce ?bs))" by simp
  have "bytes_free h' = bytes_free h + 24 * of_nat (length ((s1, False) # (s2, False) # bs) - length (coalesce ?bs))"
    unfolding len using h'(5) by (simp add: h1_def algebra_simps)
  moreover have "kh_mem h' x = kh_mem h x" if "\<not> in_headers a ((s1, False) # (s2, False) # bs) x" for x
  proof -
    have "\<not> in_headers a ?bs x" using that by (simp add: add.assoc)
    then show ?thesis using h'(6) mp(2) that by (simp add: h1_def)
  qed
  ultimately show ?thesis
    using h'(1-4) step unfolding merge_result_def by (simp add: h1_def)
qed

lemma merge_from_spec:
  assumes "chain (kh_mem h) a bs" "bs \<noteq> []" "0 < a" "a + extent bs \<le> 2 ^ 64"
  shows "merge_result a bs h"
  using assms
proof (induction "length bs" arbitrary: a bs h rule: less_induct)
  case less
  obtain s al cs where bs: "bs = (s, al) # cs" using less.prems(2) by (cases bs) auto
  have ch: "chain (kh_mem h) a ((s, al) # cs)" and bound: "a + 24 + s + extent cs \<le> 2 ^ 64"
    using less.prems bs by auto
  show ?case
  proof (cases "cs = []")
    case True
    then have "merge_from (of_nat a) h = Some h"
      using ch by (subst merge_from.simps) (simp add: Let_def)
    with True ch bs show ?thesis by (cases al) (auto simp: merge_result_def)
  next
    case ne: False
    then obtain s2 al2 ds where cs: "cs = (s2, al2) # ds" by (cases cs) auto
    have sub: "merge_result (a + 24 + s) cs h"
      using less.prems bs ne ch by (intro less.hyps) auto
    show ?thesis
    proof (cases "al \<or> al2")
      case True
      then have "coalesce bs = (s, al) # coalesce cs" by (cases al) (auto simp: bs cs)
      then show ?thesis
        using merge_result_Cons [OF ch ne bound less.prems(3) _ _ sub] True by (simp add: bs cs)
    next
      case False
      have "merge_result a ((s + 24 + s2, False) # ds) h'"
        if "chain (kh_mem h') a ((s + 24 + s2, False) # ds)" for h'
        using less.prems that bs cs by (intro less.hyps) auto
      then show ?thesis
        using merge_result_merge [of h a s s2 ds] ch bound less.prems(3) False by (simp add: bs cs)
    qed
  qed
qed

section \<open>The heap invariant\<close>

definition heap_inv :: "kheap \<Rightarrow> nat \<Rightarrow> blocks \<Rightarrow> bool" where
  "heap_inv h a bs \<longleftrightarrow>
     bs \<noteq> [] \<and> 0 < a \<and> a + extent bs < 2 ^ 64 \<and> heap_first h = of_nat a \<and> chain (kh_mem h) a bs \<and>
     bytes_used h = of_nat (used_bytes bs) \<and> bytes_free h = of_nat (unused_bytes bs)"

lemma and_minus_16: "x AND - 16 = x - x mod 16" for x :: u64
proof -
  have "x = (x AND mask 4) + (x AND NOT (mask 4))"
    by (auto simp: disjunctive_add_eq_or bit_eq_iff bit_and_iff bit_or_iff bit_not_iff)
  moreover have "x AND mask 4 = x mod 16"
    by (simp add: take_bit_eq_mod flip: take_bit_eq_mask)
  moreover have "NOT (mask 4) = (- 16 :: u64)"
    by (simp add: mask_eq_exp_minus_1)
  ultimately show ?thesis by (metis add_diff_cancel_left')
qed

definition round16 :: "nat \<Rightarrow> nat" where
  "round16 n = (n + 15) div 16 * 16"

lemma align_up16_nat:
  assumes "unat sz + 15 < 2 ^ 64"
  shows "align_up16 sz = of_nat (round16 (unat sz))"
proof -
  have sum: "unat (sz + 15) = unat sz + 15" using assms by (simp add: unat_word_ariths)
  have "sz + 16 - 1 = sz + 15" by simp
  then have "align_up16 sz = (sz + 15) - (sz + 15) mod 16"
    unfolding align_up16_def by (simp add: and_minus_16 add.commute)
  moreover have "(sz + 15) mod 16 \<le> sz + 15" by (simp add: word_le_nat_alt unat_mod)
  ultimately have "unat (align_up16 sz) = unat sz + 15 - (unat sz + 15) mod 16"
    by (simp add: unat_sub unat_mod sum)
  then have "unat (align_up16 sz) = round16 (unat sz)"
    by (simp add: round16_def minus_mod_eq_div_mult)
  then have "(of_nat (unat (align_up16 sz)) :: u64) = of_nat (round16 (unat sz))" by (simp only:)
  then show ?thesis by simp
qed

lemma round16_bounds: "n \<le> round16 n" "round16 n \<le> n + 15"
  unfolding round16_def by linarith+

definition loose_fit :: "nat \<Rightarrow> blocks \<Rightarrow> bool" where
  "loose_fit n bs = (case first_fit n bs of None \<Rightarrow> True | Some (off, s) \<Rightarrow> n + 24 \<le> s)"

lemma block_at_take_fit:
  assumes "first_fit n bs = Some (off, s)"
  shows "block_at off (take_fit n bs) = Some (taken_size n s, True)"
    and "block_at off' bs = Some (s', True) \<Longrightarrow> block_at off' (take_fit n bs) = Some (s', True)"
    and "block_at off' bs = Some (s', True) \<Longrightarrow> off' + 24 + s' \<le> off \<or> off + 24 + s \<le> off'"
proof -
  show "block_at off (take_fit n bs) = Some (taken_size n s, True)"
    using assms
    by (induction n bs arbitrary: off rule: take_fit.induct) (auto simp: taken_size_def split: if_splits)
  show "block_at off' bs = Some (s', True) \<Longrightarrow> block_at off' (take_fit n bs) = Some (s', True)"
    by (induction n bs arbitrary: off' rule: take_fit.induct) (auto split: if_splits)
  show "block_at off' bs = Some (s', True) \<Longrightarrow> off' + 24 + s' \<le> off \<or> off + 24 + s \<le> off'"
    using assms
  proof (induction n bs arbitrary: off off' rule: take_fit.induct)
    case (2 n sz al bs)
    show ?case
    proof (cases "\<not> al \<and> n \<le> sz")
      case False
      then obtain o1 where "first_fit n bs = Some (o1, s)" "off = 24 + sz + o1" using "2.prems" by auto
      with "2.IH" [OF False, of "off' - (24 + sz)" o1] "2.prems"(1) show ?thesis
        by (auto split: if_splits)
    qed (use "2.prems" in \<open>auto split: if_splits\<close>)
  qed simp
qed

lemma payload_not_header:
  assumes "block_at off bs = Some (s, al)" "a + off + 24 \<le> unat x" "unat x < a + off + 24 + s"
  shows "\<not> in_headers a bs x"
  using assms
  by (induction off bs arbitrary: a rule: block_at.induct)
     (auto split: if_splits dest: in_headers_bound)

lemma block_at_mark_free:
  assumes "block_at off bs = Some (s, True)" "block_at off' bs = Some (s', True)" "off \<noteq> off'"
  shows "block_at off' (mark_free off bs) = Some (s', True)"
  using assms
  by (induction off bs arbitrary: off' rule: mark_free.induct) (auto split: if_splits)

lemma coalesce_Cons:
  "coalesce ((s, al) # (s2, al2) # bs) =
     (if al \<or> al2 then (s, al) # coalesce ((s2, al2) # bs) else coalesce ((s + 24 + s2, False) # bs))"
  "coalesce [(s, al)] = [(s, al)]"
  by (cases al; cases al2; simp)+

lemma block_at_coalesce: "block_at off bs = Some (s, True) \<Longrightarrow> block_at off (coalesce bs) = Some (s, True)"
proof (induction "length bs" arbitrary: bs off rule: less_induct)
  case less
  obtain s1 al cs where bs: "bs = (s1, al) # cs" using less.prems by (cases bs) auto
  show ?case
  proof (cases cs)
    case Nil
    then show ?thesis using less.prems by (simp add: bs coalesce_Cons)
  next
    case (Cons c ds)
    obtain s2 al2 where c: "c = (s2, al2)" by force
    have IH: "block_at o1 cs = Some (s, True) \<Longrightarrow> block_at o1 (coalesce cs) = Some (s, True)"
      "block_at o1 ((s1 + 24 + s2, False) # ds) = Some (s, True) \<Longrightarrow>
       block_at o1 (coalesce ((s1 + 24 + s2, False) # ds)) = Some (s, True)" for o1
      using less.hyps [of cs o1] less.hyps [of "(s1 + 24 + s2, False) # ds" o1] by (simp_all add: bs Cons)
    show ?thesis
    proof (cases "al \<or> al2")
      case True
      then have "coalesce bs = (s1, al) # coalesce cs" by (auto simp: bs Cons c coalesce_Cons)
      then show ?thesis using less.prems IH(1) [of "off - (24 + s1)"] by (auto simp: bs split: if_splits)
    next
      case False
      then have "block_at off ((s1 + 24 + s2, False) # ds) = Some (s, True)"
        using less.prems by (auto simp: bs Cons c split: if_splits)
      then show ?thesis using IH(2) False by (simp add: bs Cons c coalesce_Cons)
    qed
  qed
qed

lemma kmalloc_effect:
  assumes inv: "heap_inv h a bs" and sz: "0 < sz" "unat sz + 15 < 2 ^ 64"
    and loose: "loose_fit (round16 (unat sz)) bs"
  shows "case first_fit (round16 (unat sz)) bs of
      None \<Rightarrow> kmalloc sz h = Some (0, h)
    | Some (off, s) \<Rightarrow> \<exists>h'. kmalloc sz h = Some (of_nat (a + off + 24), h') \<and>
        heap_inv h' a (take_fit (round16 (unat sz)) bs) \<and>
        (\<forall>x. \<not> (a + off \<le> unat x \<and> unat x < a + off + 24 + s) \<longrightarrow> kh_mem h' x = kh_mem h x)"
proof -
  let ?n = "round16 (unat sz)"
  have H: "chain (kh_mem h) a bs" "bs \<noteq> []" "0 < a" "a + extent bs \<le> 2 ^ 64"
    "heap_first h = of_nat a" "bytes_used h = of_nat (used_bytes bs)"
    "bytes_free h = of_nat (unused_bytes bs)"
    using inv by (simp_all add: heap_inv_def)
  have "?n < 2 ^ 64" using round16_bounds(2) [of "unat sz"] sz(2) by linarith
  then have res: "walk_result ?n a bs h"
    using loose H by (intro kmalloc_walk_spec) (auto simp: loose_fit_def)
  have eq: "kmalloc sz h = kmalloc_walk (of_nat ?n) (of_nat a) h"
    using sz by (auto simp: kmalloc_def align_up16_nat H(5))
  show ?thesis
  proof (cases "first_fit ?n bs")
    case None
    with res show ?thesis by (simp add: eq walk_result_def)
  next
    case (Some fs)
    obtain off s where fs: "fs = (off, s)" by force
    obtain h' where h': "kmalloc_walk (of_nat ?n) (of_nat a) h = Some (of_nat (a + off + 24), h')"
        "chain (kh_mem h') a (take_fit ?n bs)" "heap_first h' = heap_first h"
        "bytes_used h' = bytes_used h + of_nat (taken_size ?n s)"
        "bytes_free h' = bytes_free h - (if ?n + 64 \<le> s then 24 else 0) - of_nat (taken_size ?n s)"
        "\<forall>x. \<not> (a + off \<le> unat x \<and> unat x < a + off + 24 + s) \<longrightarrow> kh_mem h' x = kh_mem h x"
      using res unfolding walk_result_def Some fs option.case prod.case by blast
    note tb = take_fit_bytes [OF Some [unfolded fs]]
    have "of_nat (unused_bytes bs) = (of_nat (unused_bytes (take_fit ?n bs)) + of_nat (taken_size ?n s) +
        (if ?n + 64 \<le> s then 24 else 0) :: u64)"
      unfolding tb(2) [symmetric] by simp
    then have "bytes_free h' = of_nat (unused_bytes (take_fit ?n bs))"
      using h'(5) H(7) by (simp add: algebra_simps)
    moreover have "bytes_used h' = of_nat (used_bytes (take_fit ?n bs))"
      using h'(4) H(6) by (simp add: tb(1))
    moreover have "take_fit ?n bs \<noteq> []" using H(2) by (cases bs) (auto split: if_splits)
    ultimately have "heap_inv h' a (take_fit ?n bs)"
      using h' H inv by (simp add: heap_inv_def)
    with h' show ?thesis unfolding Some fs eq option.case prod.case by blast
  qed
qed

lemma kfree_effect:
  assumes inv: "heap_inv h a bs" and at: "block_at off bs = Some (s, True)"
  shows "\<exists>h'. kfree (of_nat (a + off + 24)) h = Some h' \<and>
     heap_inv h' a (coalesce (mark_free off bs)) \<and>
     (\<forall>x. \<not> in_headers a bs x \<longrightarrow> kh_mem h' x = kh_mem h x)"
proof -
  have H: "chain (kh_mem h) a bs" "bs \<noteq> []" "0 < a" "a + extent bs \<le> 2 ^ 64"
    "heap_first h = of_nat a" "bytes_used h = of_nat (used_bytes bs)"
    "bytes_free h = of_nat (unused_bytes bs)"
    using inv by (simp_all add: heap_inv_def)
  let ?bs = "mark_free off bs"
  define b where "b = (of_nat (a + off) :: u64)"
  define m where "m = set_flags b 0 (kh_mem h)"
  define h1 where "h1 = h\<lparr>kh_mem := m, bytes_used := bytes_used h - of_nat s, bytes_free := bytes_free h + of_nat s\<rparr>"
  have hd: "blk_size (kh_mem h) b = of_nat s" "blk_flags (kh_mem h) b = 1" "blk_magic (kh_mem h) b = KHEAP_MAGIC"
    using block_at_chain [OF H(1) at] by (simp_all add: b_def del: of_nat_add)
  have db: "DATA_BLOCK (of_nat (a + off + 24)) = b" by (simp add: DATA_BLOCK_def b_def)
  have "a + off + 24 < 2 ^ 64"
    using block_at_bounds [OF at] inv by (simp add: heap_inv_def)
  then have nz: "(of_nat (a + off + 24) :: u64) \<noteq> 0" using of_nat_u64_zero [of "a + off + 24"] by simp
  note mc = mark_free_chain [OF H(1) at H(4), folded b_def, folded m_def]
  have km: "kh_mem h1 = m" and hf: "heap_first h1 = of_nat a" using H(5) by (simp_all add: h1_def)
  have "merge_result a ?bs h1"
    by (rule merge_from_spec) (use mc H km in simp_all)
  then obtain h' where h': "merge_from (of_nat a) h1 = Some h'" "chain (kh_mem h') a (coalesce ?bs)"
      "heap_first h' = heap_first h1" "bytes_used h' = bytes_used h1"
      "bytes_free h' = bytes_free h1 + 24 * of_nat (length ?bs - length (coalesce ?bs))"
      "\<forall>x. \<not> in_headers a ?bs x \<longrightarrow> kh_mem h' x = kh_mem h1 x"
    unfolding merge_result_def by blast
  note mb = mark_free_bytes [OF at]
  have "of_nat (used_bytes ?bs) = (of_nat (used_bytes bs) - of_nat s :: u64)"
    unfolding mb(1) [symmetric] by simp
  then have "bytes_used h' = of_nat (used_bytes (coalesce ?bs))"
    using h'(4) H(6) by (simp add: h1_def coalesce_bytes)
  moreover have "bytes_free h' = of_nat (unused_bytes (coalesce ?bs))"
    using h'(5) H(7) mb(2) by (simp add: h1_def coalesce_bytes(2))
  ultimately have inv': "heap_inv h' a (coalesce ?bs)"
    using h' H hf inv by (simp add: heap_inv_def)
  have "kfree (of_nat (a + off + 24)) h = Some h'"
    using nz hd h'(1) H(5) unfolding kfree_def db Let_def
    by (simp add: merge_blocks_def h1_def m_def)
  then show ?thesis using inv' h'(6) mc(2) km by auto
qed

text \<open>Allocating and freeing again leaves the list as it was, up to merging.\<close>

lemma coalesce_Cons_cong:
  "coalesce bs = coalesce cs \<Longrightarrow> coalesce (b # bs) = coalesce (b # cs)"
proof -
  have "coalesce (b # coalesce bs) = coalesce (b # bs)" for b bs
  proof (induction "length bs" arbitrary: b bs rule: less_induct)
    case less
    obtain s al where b: "b = (s, al)" by force
    show ?case
    proof (cases bs)
      case (Cons c ds)
      obtain s2 al2 where c: "c = (s2, al2)" by force
      have IH: "coalesce (x # coalesce ds) = coalesce (x # ds)" for x
        using less.hyps [of ds x] Cons by simp
      show ?thesis
      proof (cases ds)
        case Nil
        then show ?thesis by (simp add: Cons c coalesce_Cons)
      next
        case (Cons d es)
        obtain s3 al3 where d: "d = (s3, al3)" by force
        show ?thesis
          using IH [of "(s2, al2)"] IH [of "(s + 24 + s2, False)"]
            less.hyps [of "(s2 + 24 + s3, False) # es" b] less.hyps [of es "(s + 24 + (s2 + 24 + s3), False)"]
          by (simp add: \<open>bs = c # ds\<close> Cons b c d coalesce_Cons(1) add.assoc split: if_splits)
      qed
    qed simp
  qed
  then show "coalesce bs = coalesce cs \<Longrightarrow> coalesce (b # bs) = coalesce (b # cs)" by metis
qed

lemma coalesce_mark_take:
  assumes "first_fit n bs = Some (off, s)" and "n + 24 \<le> s"
  shows "coalesce (mark_free off (take_fit n bs)) = coalesce bs"
  using assms(1)
proof (induction n bs arbitrary: off rule: take_fit.induct)
  case (2 n sz al bs)
  show ?case
  proof (cases "\<not> al \<and> n \<le> sz")
    case True
    then have off: "off = 0" "sz = s" using "2.prems" by auto
    show ?thesis
    proof (cases "n + 64 \<le> sz")
      case big: True
      then have "n + 24 + (sz - (n + 24)) = sz" by simp
      then show ?thesis using True off big by (simp add: coalesce_Cons)
    qed (use True off in simp)
  next
    case False
    then obtain o1 where o1: "first_fit n bs = Some (o1, s)" "off = 24 + sz + o1" using "2.prems" by auto
    have "mark_free off (take_fit n ((sz, al) # bs)) = (sz, al) # mark_free o1 (take_fit n bs)"
      using False o1(2) by auto
    then show ?thesis
      using coalesce_Cons_cong [OF "2.IH" [OF False o1(1)]] by simp
  qed
qed simp

lemma kheap_init_returns:
  assumes "0 < start" "24 \<le> unat sz" "unat start + unat sz + 4096 \<le> 2 ^ 64"
  obtains pg' h' where "kheap_init start sz pg h = Some (pg', h')"
    "heap_inv h' (unat start) [(unat sz - 24, False)]"
proof -
  have sum: "unat (start + sz) = unat start + unat sz"
    using assms(3) by (intro unat_add_u64) simp
  obtain pg' where pg': "for_by 4096 start (start + sz) kheap_map_page pg = Some pg'"
    using for_by_fold [of 4096 "start + sz" start kheap_map_page pg] sum assms(3) by auto
  let ?m = "set_magic start KHEAP_MAGIC (set_flags start KHEAP_FREE
      (set_size start (sz - 24) (set_next start 0 (kh_mem h))))"
  have size: "sz - 24 = of_nat (unat sz - 24)"
    using assms(2) by (simp add: of_nat_diff)
  have "unat start + 24 + (unat sz - 24) < 2 ^ 64" using assms by simp
  moreover have "0 < unat start" using assms(1) by (simp add: word_less_nat_alt)
  ultimately have "heap_inv (h\<lparr>heap_first := start, kh_mem := ?m, bytes_used := 0, bytes_free := sz - 24\<rparr>)
      (unat start) [(unat sz - 24, False)]"
    using size by (simp add: heap_inv_def)
  then show thesis
    using pg' by (intro that) (auto simp: kheap_init_def o_def)
qed

text \<open>The walk that collects the statistics ends as well.\<close>

lemma stats_walk_ok:
  assumes "chain (kh_mem h) a bs" "bs \<noteq> []" "0 < a" "a + extent bs < 2 ^ 64"
  shows "\<exists>st'. stats_walk h (of_nat a) st = Some st'"
  using assms
proof (induction bs arbitrary: a st)
  case (Cons b bs)
  obtain sz al where b: "b = (sz, al)" by force
  have ch: "chain (kh_mem h) a ((sz, al) # bs)" and bound: "a + 24 + sz + extent bs \<le> 2 ^ 64"
    using Cons.prems b by auto
  have nz: "(of_nat a :: u64) \<noteq> 0" using Cons.prems(3,4) of_nat_u64_zero [of a] by simp
  have "\<exists>st'. stats_walk h (blk_next (kh_mem h) (of_nat a)) st = Some st'" for st
  proof (cases "bs = []")
    case True
    then have "blk_next (kh_mem h) (of_nat a) = 0" using ch by simp
    then show ?thesis by (subst stats_walk.simps) simp
  next
    case False
    then show ?thesis using chain_next [OF ch False bound] Cons.IH [of "a + 24 + sz"] Cons.prems b ch by auto
  qed
  then show ?case using ch nz by (subst stats_walk.simps) (simp add: Let_def)
qed simp

text \<open>On a well-formed heap the validation walk ends and counts no corruption.\<close>

lemma walk_blocks_ok:
  assumes "chain (kh_mem h) a bs" "bs \<noteq> []" "0 < a" "a + extent bs < 2 ^ 64"
  shows "\<exists>al big. walk_blocks_from h (of_nat a) c n l = Some (c, al, big)"
  using assms
proof (induction bs arbitrary: a n l)
  case (Cons b bs)
  obtain sz al where b: "b = (sz, al)" by force
  have ch: "chain (kh_mem h) a ((sz, al) # bs)" and bound: "a + 24 + sz + extent bs \<le> 2 ^ 64"
    using Cons.prems b by auto
  have nz: "(of_nat a :: u64) \<noteq> 0" using Cons.prems(3,4) of_nat_u64_zero [of a] by simp
  show ?case
  proof (cases "bs = []")
    case True
    have "blk_next (kh_mem h) (of_nat a) = 0" using ch True by simp
    moreover have "\<exists>al big. walk_blocks_from h 0 c n' l' = Some (c, al, big)" for n' l'
      by (subst walk_blocks_from.simps) simp
    ultimately show ?thesis
      using ch nz by (subst walk_blocks_from.simps) (simp add: Let_def)
  next
    case ne: False
    note nx = chain_next [OF ch ne bound]
    have "\<exists>al big. walk_blocks_from h (of_nat (a + 24 + sz)) c n' l' = Some (c, al, big)" for n' l'
      using Cons.prems b ch ne by (intro Cons.IH) auto
    then show ?thesis
      using ch nz nx(1) ne by (subst walk_blocks_from.simps) (simp add: Let_def)
  qed
qed simp

text \<open>
  A header whose \<^verbatim>\<open>next\<close> points to itself keeps every list walk of the allocator from ending.
\<close>

definition self_loop :: "mem \<Rightarrow> u64 \<Rightarrow> bool" where
  "self_loop m b \<longleftrightarrow> b \<noteq> 0 \<and> blk_magic m b = KHEAP_MAGIC \<and> blk_next m b = b"

lemma walk_blocks_diverges:
  assumes "self_loop (kh_mem h) b"
  shows "walk_blocks_from h b c n l = None"
proof -
  have "\<not> self_loop (kh_mem h) b" if "walk_blocks_from h b c n l = Some r" for h b c n l r
  proof (rule walk_blocks_from.raw_induct
      [where P = "\<lambda>h b c n l r. \<not> self_loop (kh_mem h) b", OF _ that], goal_cases)
    case (1 f h b c n l r)
    show ?case
    proof
      assume loop: "self_loop (kh_mem h) b"
      then obtain c' n' l' where "f h b c' n' l' = Some r"
        using 1(2) by (auto simp: self_loop_def Let_def)
      with 1(1) loop show False by blast
    qed
  qed
  with assms show ?thesis by (cases "walk_blocks_from h b c n l") auto
qed

fun merged :: "blocks \<Rightarrow> bool" where
  "merged ((s1, False) # (s2, False) # bs) = False"
| "merged (b # bs) = merged bs"
| "merged [] = True"

lemma merged_coalesce: "merged (coalesce bs)"
  by (induction bs rule: coalesce.induct) auto

lemma coalesce_merged: "merged bs \<Longrightarrow> coalesce bs = bs"
  by (induction bs rule: merged.induct) auto

definition payload :: "nat \<Rightarrow> nat \<Rightarrow> nat \<Rightarrow> u64 \<Rightarrow> bool" where
  "payload a off s x \<longleftrightarrow> a + off + 24 \<le> unat x \<and> unat x < a + off + 24 + s"

section \<open>Properties\<close>

text \<open>A heap of one free block, as \<open>kheap_init\<close> leaves it.\<close>

definition sample_heap :: kheap where
  "sample_heap = snd (the (kheap_init 0x10000 0x1000 sample_paging
     \<lparr>kh_mem = (\<lambda>_. 0), heap_first = 0, bytes_used = 0, bytes_free = 0\<rparr>))"

lemma sample_heap_inv: "heap_inv sample_heap 0x10000 [(0xFE8, False)]"
proof -
  obtain pg' h' where "kheap_init 0x10000 0x1000 sample_paging
      \<lparr>kh_mem = (\<lambda>_. 0), heap_first = 0, bytes_used = 0, bytes_free = 0\<rparr> = Some (pg', h')"
    "heap_inv h' (unat (0x10000 :: u64)) [(unat (0x1000 :: u64) - 24, False)]"
    by (rule kheap_init_returns [of "0x10000" "0x1000"]) simp_all
  then show ?thesis by (simp add: sample_heap_def)
qed




lemma sample_heap_kmalloc:
  obtains h' where "kmalloc 100 sample_heap = Some (0x10018, h')"
    "heap_inv h' 0x10000 [(112, True), (0xF60, False)]"
proof -
  have fit: "first_fit (round16 (unat (100 :: u64))) [(0xFE8, False)] = Some (0, 0xFE8)"
    and loose: "loose_fit (round16 (unat (100 :: u64))) [(0xFE8, False)]"
    by (simp_all add: loose_fit_def round16_def)
  have "take_fit (round16 (unat (100 :: u64))) [(0xFE8, False)] = [(112, True), (0xF60, False)]"
    by (simp add: round16_def)
  then show thesis
    using kmalloc_effect [OF sample_heap_inv _ _ loose] fit that by auto
qed




text \<open>
  C9. The exact fit. When the first free block has exactly the requested size and an
  allocated block follows, \<open>split_block\<close> computes a negative remainder as a huge unsigned
  number and writes a header over the neighbour: the neighbour is marked free, its \<^verbatim>\<open>next\<close>
  points to itself, and \<open>kheap_validate\<close> never returns.
\<close>

theorem kmalloc_exact_fit:
  assumes inv: "heap_inv h a ((n, False) # (s2, True) # bs)" and n: "0 < n" "n mod 16 = 0"
  shows "\<exists>h'. kmalloc (of_nat n) h = Some (of_nat (a + 24), h') \<and>
     self_loop (kh_mem h') (of_nat (a + 24 + n)) \<and>
     blk_flags (kh_mem h') (of_nat (a + 24 + n)) = KHEAP_FREE \<and> kheap_validate h' = None"
proof -
  let ?m = "kh_mem h" and ?a = "of_nat a :: u64"
  define b where "b = (of_nat (a + 24 + n) :: u64)"
  have bound: "a + 48 + n + s2 + extent bs < 2 ^ 64" and a: "0 < a"
    and ch: "chain ?m a ((n, False) # (s2, True) # bs)" and hf: "heap_first h = ?a"
    using inv by (simp_all add: heap_inv_def)
  have ua: "unat ?a = a" by (rule unat_of_nat_u64) (use bound in simp)
  have ub: "unat b = a + 24 + n" unfolding b_def by (rule unat_of_nat_u64) (use bound in simp)
  have un: "unat (of_nat n :: u64) = n" by (rule unat_of_nat_u64) (use bound in simp)
  have nz: "?a \<noteq> 0" "b \<noteq> 0" "(of_nat n :: u64) \<noteq> 0"
    using a n ua ub un by (metis unat_0 less_numeral_extra(3) add_is_0)+
  have al: "align_up16 (of_nat n) = of_nat n"
  proof -
    have "unat (of_nat n :: u64) + 15 < 2 ^ 64" using un bound by simp
    moreover have "round16 n = n"
      using n(2) by (auto simp: round16_def elim: dvdE)
    ultimately show ?thesis using align_up16_nat [of "of_nat n"] un by simp
  qed
  have bb: "b = ?a + 24 + of_nat n" by (simp add: b_def)
  have hd: "blk_next ?m ?a = b" "blk_size ?m ?a = of_nat n" "blk_flags ?m ?a = 0" "blk_magic ?m ?a = KHEAP_MAGIC"
    using ch by (simp_all add: b_def)
  define m1 where "m1 = set_magic b KHEAP_MAGIC (set_flags b KHEAP_FREE (set_size b (- 24) (set_next b b ?m)))"
  define m2 where "m2 = set_flags ?a KHEAP_ALLOCATED (set_next ?a b (set_size ?a (of_nat n) m1))"
  have same: "same_header m1 m2 b"
    using in_range_nat [of ?a 24] in_range_nat [of b 24] ua ub bound
    by (intro same_headerI) (auto simp: m2_def set_other)
  have same': "same_header ?m m1 ?a"
    using in_range_nat [of ?a 24] in_range_nat [of b 24] ua ub bound
    by (intro same_headerI) (auto simp: m1_def set_other)
  have loop: "self_loop m2 b" "blk_flags m2 b = KHEAP_FREE"
    using same nz(2) by (simp_all add: self_loop_def same_header_def m1_def)
  define h' where "h' = h\<lparr>kh_mem := m2, bytes_used := bytes_used h + of_nat n,
      bytes_free := bytes_free h - 24 - of_nat n\<rparr>"
  have "kmalloc (of_nat n) h = Some (of_nat (a + 24), h')"
    using hd nz un hf al unfolding kmalloc_def
    by (subst kmalloc_walk.simps)
      (simp add: split_block_def Let_def BLOCK_DATA_def h'_def m2_def m1_def bb [symmetric] word_less_nat_alt)
  moreover have "kheap_validate h' = None"
  proof -
    have "walk_blocks_from h' b c k l = None" for c k l
      using loop(1) by (intro walk_blocks_diverges) (simp add: h'_def)
    moreover have "blk_next m2 ?a = b" "blk_magic m2 ?a = KHEAP_MAGIC"
      using same' hd by (simp_all add: m2_def same_header_def)
    ultimately show ?thesis
      using nz(1) hf unfolding kheap_validate_def walk_blocks_def
      by (subst walk_blocks_from.simps) (simp add: h'_def Let_def)
  qed
  ultimately show ?thesis using loop by (auto simp: h'_def b_def)
qed

theorem kmalloc_exact_fit_witness:
  "\<exists>h1 h2 h3 h4. kmalloc 100 sample_heap = Some (0x10018, h1) \<and> kmalloc 100 h1 = Some (0x100A0, h2) \<and>
     kfree 0x10018 h2 = Some h3 \<and> kmalloc 112 h3 = Some (0x10018, h4) \<and> kheap_validate h4 = None"
proof -
  let ?bs1 = "[(112, True), (0xF60, False)]" and ?bs2 = "[(112, True), (112, True), (0xED8, False)]"
  obtain h1 where h1: "kmalloc 100 sample_heap = Some (0x10018, h1)" "heap_inv h1 0x10000 ?bs1"
    by (rule sample_heap_kmalloc)
  have fit: "first_fit (round16 (unat (100 :: u64))) ?bs1 = Some (136, 0xF60)"
    "take_fit (round16 (unat (100 :: u64))) ?bs1 = ?bs2"
    and loose: "loose_fit (round16 (unat (100 :: u64))) ?bs1"
    by (simp_all add: loose_fit_def round16_def)
  obtain h2 where h2: "kmalloc 100 h1 = Some (0x100A0, h2)" "heap_inv h2 0x10000 ?bs2"
    using kmalloc_effect [OF h1(2) _ _ loose] fit by auto
  obtain h3 where h3: "kfree 0x10018 h2 = Some h3"
      "heap_inv h3 0x10000 ((112, False) # (112, True) # [(0xED8, False)])"
    using kfree_effect [OF h2(2), of 0 112] by auto
  show ?thesis
    using kmalloc_exact_fit [OF h3(2)] h1 h2 h3 by auto
qed

text \<open>
  \<open>kheap_validate\<close> accepts every well-formed heap: the walk ends and reports no corruption.
\<close>

lemma kheap_validate_healthy:
  assumes "heap_inv h a bs"
  shows "kheap_validate h = Some 0"
  using walk_blocks_ok [of h a bs 0 0 0] assms
  by (auto simp: heap_inv_def kheap_validate_def walk_blocks_def)

end
