(* ===== verification/Scheduler.thy ===== *)
theory Scheduler
  imports Interfaces
begin

text \<open>
  \<^verbatim>\<open>src/process/scheduler.c\<close>, \<^verbatim>\<open>src/kernel/switch.c\<close>, \<^verbatim>\<open>src/arch/timer.c\<close> and the parts of
  \<^verbatim>\<open>src/process/process.c\<close> that only touch the process table: the ready queue as a doubly
  linked list through the process table, time slices, sleeping and waking, and the PCID
  allocator. A \<^verbatim>\<open>process_t*\<close> always points into the process table and is an index here,
  \<open>None\<close> the null pointer. The register file that the assembly \<^verbatim>\<open>context_switch\<close> swaps is not
  part of the state.
\<close>

section \<open>Process table\<close>

abbreviation MAX_PROCESSES :: nat where "MAX_PROCESSES \<equiv> 64"
abbreviation TIME_SLICE_MS :: int where "TIME_SLICE_MS \<equiv> 10"

datatype process_state =
  PROC_STATE_UNUSED | PROC_STATE_READY | PROC_STATE_RUNNING | PROC_STATE_BLOCKED | PROC_STATE_ZOMBIE

record cpu_context =
  r15 :: u64  r14 :: u64  r13 :: u64  r12 :: u64  r11 :: u64  r10 :: u64  r9 :: u64  r8 :: u64
  rdi :: u64  rsi :: u64  rbp :: u64  rbx :: u64  rdx :: u64  rcx :: u64  rax :: u64
  rip :: u64  cs_reg :: u64  rflags :: u64
  rsp :: u64  ss_reg :: u64

record process =
  pid :: u64
  pname :: string
  pstate :: process_state
  pcontext :: cpu_context
  kernel_stack :: u64
  kernel_stack_top :: u64
  user_stack_top :: u64
  pvm :: u64
  fd_table :: u64
  wake_time :: u64
  priority :: int
  cpu_time :: u64
  exit_code :: int
  pnext :: "nat option"
  pprev :: "nat option"

record sched =
  process_table :: "process list"
  ready_queue :: "nat option"
  ready_queue_tail :: "nat option"
  current_process :: "nat option"
  schedule_needed :: int
  time_slice_counter :: int
  system_ticks :: u64
  next_pid :: u64

definition upd_proc :: "nat \<Rightarrow> (process \<Rightarrow> process) \<Rightarrow> sched \<Rightarrow> sched" where
  "upd_proc i f s = s\<lparr>process_table := (process_table s)[i := f (process_table s ! i)]\<rparr>"

definition proc :: "sched \<Rightarrow> nat \<Rightarrow> process" where
  "proc s i = process_table s ! i"

section \<open>The scheduler\<close>

definition scheduler_init :: "sched \<Rightarrow> sched" where
  "scheduler_init s =
     s\<lparr>ready_queue := None, ready_queue_tail := None, current_process := None, schedule_needed := 0\<rparr>"

definition scheduler_add :: "nat \<Rightarrow> sched \<Rightarrow> sched" where
  "scheduler_add p s =
     (let s = upd_proc p (\<lambda>r. r\<lparr>pnext := None\<rparr>) s;
          s = upd_proc p (\<lambda>r. r\<lparr>pprev := ready_queue_tail s\<rparr>) s;
          s = (case ready_queue_tail s of
                 Some t \<Rightarrow> upd_proc t (\<lambda>r. r\<lparr>pnext := Some p\<rparr>) s
               | None \<Rightarrow> s\<lparr>ready_queue := Some p\<rparr>);
          s = s\<lparr>ready_queue_tail := Some p\<rparr>
      in upd_proc p (\<lambda>r. r\<lparr>pstate := PROC_STATE_READY\<rparr>) s)"

definition scheduler_remove :: "nat \<Rightarrow> sched \<Rightarrow> sched" where
  "scheduler_remove p s =
     (let s = (case pprev (proc s p) of
                 Some q \<Rightarrow> upd_proc q (\<lambda>r. r\<lparr>pnext := pnext (proc s p)\<rparr>) s
               | None \<Rightarrow> s\<lparr>ready_queue := pnext (proc s p)\<rparr>);
          s = (case pnext (proc s p) of
                 Some q \<Rightarrow> upd_proc q (\<lambda>r. r\<lparr>pprev := pprev (proc s p)\<rparr>) s
               | None \<Rightarrow> s\<lparr>ready_queue_tail := pprev (proc s p)\<rparr>)
      in upd_proc p (\<lambda>r. r\<lparr>pstate := PROC_STATE_ZOMBIE\<rparr>) s)"

definition scheduler_pick :: "sched \<Rightarrow> nat option \<times> sched" where
  "scheduler_pick s =
     (case ready_queue s of
        None \<Rightarrow> (None, s)
      | Some p \<Rightarrow>
          (let s = s\<lparr>ready_queue := pnext (proc s p)\<rparr>;
               s = (case ready_queue s of
                      Some q \<Rightarrow> upd_proc q (\<lambda>r. r\<lparr>pprev := None\<rparr>) s
                    | None \<Rightarrow> s\<lparr>ready_queue_tail := None\<rparr>)
           in (Some p, s)))"

definition scheduler_tick :: "sched \<Rightarrow> sched" where
  "scheduler_tick s =
     (case current_process s of
        None \<Rightarrow> s
      | Some c \<Rightarrow>
          (let s = s\<lparr>time_slice_counter := time_slice_counter s + 1\<rparr>
           in if time_slice_counter s \<ge> TIME_SLICE_MS
              then (upd_proc c (\<lambda>r. r\<lparr>cpu_time := cpu_time r + 10\<rparr>) (s\<lparr>time_slice_counter := 0\<rparr>))
                     \<lparr>schedule_needed := 1\<rparr>
              else s))"

definition scheduler_reschedule :: "sched \<Rightarrow> sched" where
  "scheduler_reschedule s = s\<lparr>schedule_needed := 1\<rparr>"

text \<open>\<^verbatim>\<open>scheduler_runnable_count\<close> walks the list; \<open>None\<close> is a cyclic list, on which it does not end.\<close>

partial_function (option) runnable_count_from :: "sched \<Rightarrow> nat option \<Rightarrow> int \<Rightarrow> int option" where
  "runnable_count_from s p count =
     (case p of None \<Rightarrow> Some count | Some i \<Rightarrow> runnable_count_from s (pnext (proc s i)) (count + 1))"

definition scheduler_runnable_count :: "sched \<Rightarrow> int option" where
  "scheduler_runnable_count s = runnable_count_from s (ready_queue s) 0"

definition process_current :: "sched \<Rightarrow> nat option" where
  "process_current s = current_process s"

definition scheduler_set_current :: "nat option \<Rightarrow> sched \<Rightarrow> sched" where
  "scheduler_set_current p s =
     (let s = s\<lparr>current_process := p\<rparr>
      in case p of None \<Rightarrow> s | Some i \<Rightarrow> upd_proc i (\<lambda>r. r\<lparr>pstate := PROC_STATE_RUNNING\<rparr>) s)"

definition scheduler_needs_reschedule :: "sched \<Rightarrow> int" where
  "scheduler_needs_reschedule s = schedule_needed s"

definition scheduler_clear_reschedule :: "sched \<Rightarrow> sched" where
  "scheduler_clear_reschedule s = s\<lparr>schedule_needed := 0\<rparr>"

section \<open>The timer\<close>

definition timer_handler :: "sched \<Rightarrow> sched" where
  "timer_handler s = s\<lparr>system_ticks := system_ticks s + 1\<rparr>"

definition timer_get_ticks :: "sched \<Rightarrow> u64" where "timer_get_ticks s = system_ticks s"
definition timer_get_ms :: "sched \<Rightarrow> u64" where "timer_get_ms s = system_ticks s"

section \<open>Processes\<close>

definition alloc_process :: "sched \<Rightarrow> nat option" where
  "alloc_process s = first_index (\<lambda>r. pstate r = PROC_STATE_UNUSED) (process_table s)"

definition process_get :: "u64 \<Rightarrow> sched \<Rightarrow> nat option" where
  "process_get p s = first_index (\<lambda>r. pid r = p \<and> pstate r \<noteq> PROC_STATE_UNUSED) (process_table s)"

definition process_get_by_index :: "int \<Rightarrow> nat option" where
  "process_get_by_index i = (if i \<ge> 0 \<and> i < int MAX_PROCESSES then Some (nat i) else None)"

definition process_block :: "sched \<Rightarrow> sched" where
  "process_block s =
     (let s = (case process_current s of
                 Some c \<Rightarrow> upd_proc c (\<lambda>r. r\<lparr>pstate := PROC_STATE_BLOCKED\<rparr>) s
               | None \<Rightarrow> s)
      in scheduler_reschedule s)"

definition process_wake :: "nat option \<Rightarrow> sched \<Rightarrow> sched" where
  "process_wake p s =
     (case p of
        Some i \<Rightarrow> if pstate (proc s i) = PROC_STATE_BLOCKED
                  then scheduler_add i (upd_proc i (\<lambda>r. r\<lparr>pstate := PROC_STATE_READY\<rparr>) s)
                  else s
      | None \<Rightarrow> s)"

definition process_sleep :: "u64 \<Rightarrow> sched \<Rightarrow> sched" where
  "process_sleep ms s =
     (case process_current s of
        Some c \<Rightarrow>
          (let s = upd_proc c (\<lambda>r. r\<lparr>wake_time := timer_get_ms s + ms\<rparr>) s;
               s = upd_proc c (\<lambda>r. r\<lparr>pstate := PROC_STATE_BLOCKED\<rparr>) s
           in scheduler_reschedule s)
      | None \<Rightarrow> s)"

definition process_yield :: "sched \<Rightarrow> sched" where
  "process_yield s = scheduler_reschedule s"

definition process_current_vm :: "sched \<Rightarrow> u64" where
  "process_current_vm s = (case process_current s of Some c \<Rightarrow> pvm (proc s c) | None \<Rightarrow> 0)"

definition check_sleeper :: "u64 \<Rightarrow> nat \<Rightarrow> sched \<Rightarrow> sched" where
  "check_sleeper now i s =
     (if pstate (proc s i) = PROC_STATE_BLOCKED \<and> wake_time (proc s i) > 0 \<and> wake_time (proc s i) \<le> now
      then scheduler_add i
             (upd_proc i (\<lambda>r. r\<lparr>pstate := PROC_STATE_READY\<rparr>) (upd_proc i (\<lambda>r. r\<lparr>wake_time := 0\<rparr>) s))
      else s)"

definition process_check_sleepers :: "sched \<Rightarrow> sched" where
  "process_check_sleepers s = fold (check_sleeper (timer_get_ms s)) [0..<MAX_PROCESSES] s"

definition process_get_count :: "sched \<Rightarrow> nat" where
  "process_get_count s = length (filter (\<lambda>r. pstate r \<noteq> PROC_STATE_UNUSED) (process_table s))"

section \<open>Context switches\<close>

definition switch_schedule :: "sched \<Rightarrow> sched" where
  "switch_schedule s =
     (let s = process_check_sleepers s;
          current = process_current s;
          (nxt, s) = scheduler_pick s
      in case (nxt, current) of
           (None, None) \<Rightarrow> s
         | (None, Some c) \<Rightarrow> scheduler_clear_reschedule s
         | (Some n, None) \<Rightarrow> scheduler_clear_reschedule (scheduler_set_current (Some n) s)
         | (Some n, Some c) \<Rightarrow>
             (let s = (if pstate (proc s c) = PROC_STATE_RUNNING
                       then scheduler_add c (upd_proc c (\<lambda>r. r\<lparr>pstate := PROC_STATE_READY\<rparr>) s)
                       else s)
              in scheduler_clear_reschedule (scheduler_set_current (Some n) s)))"

text \<open>\<open>saved_rsp\<close> is the stack pointer at the time of the interrupt. \<open>None\<close>: the count does not end.\<close>

definition switch_timer_tick :: "u64 \<Rightarrow> sched \<Rightarrow> sched option" where
  "switch_timer_tick saved_rsp s =
     (let s = scheduler_tick s;
          current = process_current s
      in case (if current = None then scheduler_runnable_count s else Some 0) of
           None \<Rightarrow> None
         | Some count \<Rightarrow>
             (let s = (if current = None \<and> count > 0 then scheduler_reschedule s else s)
              in if scheduler_needs_reschedule s = 0 then Some s
                 else
                   (let (nxt, s) = scheduler_pick s
                    in case (nxt, current) of
                         (None, _) \<Rightarrow> Some (scheduler_clear_reschedule s)
                       | (Some n, None) \<Rightarrow>
                           Some (scheduler_clear_reschedule (scheduler_set_current (Some n) s))
                       | (Some n, Some c) \<Rightarrow>
                           (let s = upd_proc c (\<lambda>r. r\<lparr>pcontext := (pcontext r)\<lparr>rsp := saved_rsp\<rparr>\<rparr>) s;
                                s = upd_proc c (\<lambda>r. r\<lparr>pstate := PROC_STATE_READY\<rparr>) s;
                                s = scheduler_add c s
                            in Some (scheduler_clear_reschedule (scheduler_set_current (Some n) s))))))"

definition schedule :: "sched \<Rightarrow> sched" where "schedule s = switch_schedule s"

definition scheduler_timer_tick :: "u64 \<Rightarrow> sched \<Rightarrow> sched option" where
  "scheduler_timer_tick saved_rsp s = switch_timer_tick saved_rsp s"

section \<open>PCID allocation\<close>

record pcids =
  pcid_bitmap :: "u64 list"
  pcid_initialized :: int

abbreviation PCID_MAX :: nat where "PCID_MAX \<equiv> 4096"

definition pcid_allocator_init :: "pcids \<Rightarrow> pcids" where
  "pcid_allocator_init s =
     (let bm = replicate (PCID_MAX div 64) 0
      in s\<lparr>pcid_bitmap := bm[0 := bm ! 0 OR 1], pcid_initialized := 1\<rparr>)"

fun pcid_scan :: "nat \<Rightarrow> nat \<Rightarrow> pcids \<Rightarrow> u16 \<times> pcids" where
  "pcid_scan i 0 s = (0, s)"
| "pcid_scan i (Suc k) s =
     (let w = i div 64; b = i mod 64
      in if pcid_bitmap s ! w AND push_bit b 1 = 0
         then (of_nat i, s\<lparr>pcid_bitmap := (pcid_bitmap s)[w := pcid_bitmap s ! w OR push_bit b 1]\<rparr>)
         else pcid_scan (Suc i) k s)"

definition pcid_alloc :: "pcids \<Rightarrow> u16 \<times> pcids" where
  "pcid_alloc s =
     pcid_scan 1 (PCID_MAX - 1) (if pcid_initialized s = 0 then pcid_allocator_init s else s)"

definition pcid_free :: "u16 \<Rightarrow> pcids \<Rightarrow> pcids" where
  "pcid_free pcid s =
     (if pcid = 0 \<or> unat pcid \<ge> PCID_MAX then s
      else
        (let w = unat pcid div 64; b = unat pcid mod 64
         in s\<lparr>pcid_bitmap := (pcid_bitmap s)[w := pcid_bitmap s ! w AND NOT (push_bit b 1)]\<rparr>))"

text \<open>The assembly reports whether the processor supports PCIDs: \<open>supported\<close>.\<close>

definition init_pcid_system_c :: "bool \<Rightarrow> pcids \<Rightarrow> int \<times> pcids" where
  "init_pcid_system_c supported s = (if supported then (0, pcid_allocator_init s) else (-1, s))"

section \<open>The ready queue as a list\<close>

lemma upd_proc_fields [simp]:
  "ready_queue (upd_proc i f s) = ready_queue s" "ready_queue_tail (upd_proc i f s) = ready_queue_tail s"
  "current_process (upd_proc i f s) = current_process s" "schedule_needed (upd_proc i f s) = schedule_needed s"
  "time_slice_counter (upd_proc i f s) = time_slice_counter s" "system_ticks (upd_proc i f s) = system_ticks s"
  "next_pid (upd_proc i f s) = next_pid s"
  "length (process_table (upd_proc i f s)) = length (process_table s)"
  by (simp_all add: upd_proc_def)

lemma proc_upd_proc:
  "proc (upd_proc i f s) j = (if i = j \<and> j < length (process_table s) then f (proc s j) else proc s j)"
  by (cases "i = j") (auto simp: proc_def upd_proc_def list_update_beyond)

lemma proc_other_fields [simp]:
  "proc (s\<lparr>ready_queue := a\<rparr>) = proc s" "proc (s\<lparr>ready_queue_tail := a\<rparr>) = proc s"
  "proc (s\<lparr>current_process := a\<rparr>) = proc s" "proc (s\<lparr>schedule_needed := n\<rparr>) = proc s"
  "proc (s\<lparr>time_slice_counter := n\<rparr>) = proc s"
  by (auto simp: proc_def fun_eq_iff)

text \<open>
  \<open>dll s pv xs nx\<close>: the processes \<open>xs\<close> are linked in both directions, the first points back to
  \<open>pv\<close> and the last on to \<open>nx\<close>.
\<close>

fun dll :: "sched \<Rightarrow> nat option \<Rightarrow> nat list \<Rightarrow> nat option \<Rightarrow> bool" where
  "dll s pv [] nx = True"
| "dll s pv (x # xs) nx \<longleftrightarrow>
     pprev (proc s x) = pv \<and> pnext (proc s x) = (if xs = [] then nx else Some (hd xs)) \<and>
     dll s (Some x) xs nx"

lemma dll_append:
  "dll s pv (xs @ ys) nx \<longleftrightarrow>
     dll s pv xs (if ys = [] then nx else Some (hd ys)) \<and>
     dll s (if xs = [] then pv else Some (last xs)) ys nx"
  by (induction xs arbitrary: pv) auto

lemma dll_cong:
  assumes "\<And>x. x \<in> set xs \<Longrightarrow> pnext (proc s x) = pnext (proc t x) \<and> pprev (proc s x) = pprev (proc t x)"
  shows "dll s pv xs nx = dll t pv xs nx"
  using assms by (induction xs arbitrary: pv) auto

definition rq :: "sched \<Rightarrow> nat list \<Rightarrow> bool" where
  "rq s q \<longleftrightarrow>
     length (process_table s) = MAX_PROCESSES \<and> distinct q \<and> (\<forall>i \<in> set q. i < MAX_PROCESSES) \<and>
     ready_queue s = (if q = [] then None else Some (hd q)) \<and>
     ready_queue_tail s = (if q = [] then None else Some (last q)) \<and> dll s None q None"

lemma rq_add:
  assumes "rq s q" and "p < MAX_PROCESSES" and "p \<notin> set q"
  shows "rq (scheduler_add p s) (q @ [p])"
proof (cases q rule: rev_cases)
  case Nil
  then show ?thesis
    using assms by (auto simp: rq_def scheduler_add_def Let_def proc_upd_proc)
next
  case (snoc xs t)
  let ?s = "scheduler_add p s"
  have t: "ready_queue_tail s = Some t" "t < MAX_PROCESSES" "t \<noteq> p" "t \<notin> set xs"
    and len: "length (process_table s) = MAX_PROCESSES"
    using assms snoc by (auto simp: rq_def)
  have old: "dll s None xs (Some t)" "pprev (proc s t) = (if xs = [] then None else Some (last xs))"
    using assms(1) snoc by (auto simp: rq_def dll_append)
  have links: "pprev (proc ?s i) = (if i = p then Some t else pprev (proc s i))"
    "pnext (proc ?s i) = (if i = p then None else if i = t then Some p else pnext (proc s i))" for i
    using t len assms(2) by (auto simp: scheduler_add_def Let_def proc_upd_proc)
  have "dll ?s None xs (Some t) = dll s None xs (Some t)"
    using assms(3) snoc t by (intro dll_cong) (auto simp: links)
  then have "dll ?s None (xs @ [t, p]) None"
    using old t by (auto simp: dll_append links)
  then show ?thesis
    using assms snoc t by (auto simp: rq_def scheduler_add_def Let_def hd_append)
qed

lemma rq_pick_empty: "rq s [] \<Longrightarrow> scheduler_pick s = (None, s)"
  by (simp add: rq_def scheduler_pick_def)

lemma rq_pick:
  assumes "rq s (p # q)"
  shows "fst (scheduler_pick s) = Some p" and "rq (snd (scheduler_pick s)) q"
proof -
  have rqs: "ready_queue s = Some p" and nx: "pnext (proc s p) = (if q = [] then None else Some (hd q))"
    and d: "dll s (Some p) q None" and len: "length (process_table s) = MAX_PROCESSES"
    using assms by (auto simp: rq_def)
  show "fst (scheduler_pick s) = Some p"
    using rqs by (simp add: scheduler_pick_def Let_def)
  show "rq (snd (scheduler_pick s)) q"
  proof (cases q)
    case Nil
    then show ?thesis using assms rqs nx by (simp add: rq_def scheduler_pick_def Let_def)
  next
    case (Cons x xs)
    let ?s = "upd_proc x (\<lambda>r. r\<lparr>pprev := None\<rparr>) (s\<lparr>ready_queue := Some x\<rparr>)"
    have "dll ?s (Some x) xs None = dll s (Some x) xs None"
      using assms Cons by (intro dll_cong) (auto simp: rq_def proc_upd_proc)
    then have "dll ?s None q None"
      using d len assms Cons by (auto simp: rq_def proc_upd_proc)
    then show ?thesis
      using assms rqs nx Cons by (auto simp: rq_def scheduler_pick_def Let_def)
  qed
qed

interpretation ready: fifo scheduler_add scheduler_pick rq
  "\<lambda>p s q. p < MAX_PROCESSES \<and> p \<notin> set q"
  by unfold_locales (auto simp: rq_add rq_pick rq_pick_empty)

lemma runnable_count_dll:
  "dll s pv q None \<Longrightarrow>
     runnable_count_from s (if q = [] then None else Some (hd q)) n = Some (n + int (length q))"
  by (induction q arbitrary: pv n) (subst runnable_count_from.simps; auto)+

lemma rq_remove:
  assumes "rq s (xs @ p # ys)"
  shows "rq (scheduler_remove p s) (xs @ ys)" and "pstate (proc (scheduler_remove p s) p) = PROC_STATE_ZOMBIE"
proof -
  let ?s = "scheduler_remove p s"
  let ?pv = "if xs = [] then None else Some (last xs)" and ?nx = "if ys = [] then None else Some (hd ys)"
  have len: "length (process_table s) = MAX_PROCESSES" and dist: "distinct (xs @ p # ys)"
    and lt: "\<forall>i \<in> set (xs @ p # ys). i < MAX_PROCESSES"
    and dxs: "dll s None xs (Some p)" and dys: "dll s (Some p) ys None"
    and pv: "pprev (proc s p) = ?pv" and nx: "pnext (proc s p) = ?nx"
    using assms by (auto simp: rq_def dll_append split: if_splits)
  have ne: "xs \<noteq> [] \<Longrightarrow> last xs \<noteq> p" "ys \<noteq> [] \<Longrightarrow> hd ys \<noteq> p"
    "xs \<noteq> [] \<Longrightarrow> last xs \<in> set xs" "ys \<noteq> [] \<Longrightarrow> hd ys \<in> set ys"
    using dist last_in_set [of xs] hd_in_set [of ys] by auto
  have "last xs \<noteq> hd ys" if "xs \<noteq> []" "ys \<noteq> []"
    using dist ne(3) [OF that(1)] ne(4) [OF that(2)] by auto
  note ne = ne this
  have sep: "i \<notin> set ys" if "i \<in> set xs" for i using dist that by auto
  have next': "pnext (proc ?s i) = (if xs \<noteq> [] \<and> i = last xs then ?nx else pnext (proc s i))" for i
    using len lt ne pv nx by (auto simp: scheduler_remove_def Let_def proc_upd_proc)
  have prev': "pprev (proc ?s i) = (if ys \<noteq> [] \<and> i = hd ys then ?pv else pprev (proc s i))" for i
    using len lt ne pv nx by (auto simp: scheduler_remove_def Let_def proc_upd_proc)
  have dx: "dll ?s None xs ?nx"
  proof (cases xs rule: rev_cases)
    case (snoc zs z)
    have "ys \<noteq> [] \<Longrightarrow> hd ys \<notin> set xs" using sep ne(4) by blast
    then have "dll ?s None zs (Some z) = dll s None zs (Some z)"
      using dist snoc by (intro dll_cong) (auto simp: next' prev')
    then show ?thesis using dxs snoc dist ne(4) by (auto simp: dll_append next' prev')
  qed simp
  have dy: "dll ?s ?pv ys None"
  proof (cases ys)
    case (Cons y zs)
    have "xs \<noteq> [] \<Longrightarrow> last xs \<notin> set zs" using sep ne(3) Cons by force
    then have "dll ?s (Some y) zs None = dll s (Some y) zs None"
      using dist Cons by (intro dll_cong) (auto simp: next' prev')
    then show ?thesis using dys Cons dist ne(3) by (auto simp: next' prev')
  qed simp
  show "rq ?s (xs @ ys)"
    unfolding rq_def
  proof (intro conjI)
    show "dll ?s None (xs @ ys) None" using dx dy by (simp add: dll_append)
    show "ready_queue ?s = (if xs @ ys = [] then None else Some (hd (xs @ ys)))"
      using assms pv nx len ne by (auto simp: rq_def scheduler_remove_def Let_def proc_upd_proc hd_append split: if_splits)
    show "ready_queue_tail ?s = (if xs @ ys = [] then None else Some (last (xs @ ys)))"
      using assms pv nx len ne by (auto simp: rq_def scheduler_remove_def Let_def proc_upd_proc split: if_splits)
  qed (use assms in \<open>auto simp: rq_def scheduler_remove_def Let_def split: option.splits\<close>)
  show "pstate (proc ?s p) = PROC_STATE_ZOMBIE"
    using len lt by (auto simp: scheduler_remove_def Let_def proc_upd_proc split: option.splits)
qed

text \<open>Fields that do not take part in the links may change freely.\<close>

lemma rq_cong:
  assumes "rq s q" and "length (process_table t) = length (process_table s)"
    and "ready_queue t = ready_queue s" "ready_queue_tail t = ready_queue_tail s"
    and "\<And>i. pnext (proc t i) = pnext (proc s i) \<and> pprev (proc t i) = pprev (proc s i)"
  shows "rq t q"
  using assms dll_cong [of q t s] by (simp add: rq_def)

lemma rq_upd_proc:
  assumes "rq s q" and "\<And>r. pnext (f r) = pnext r" "\<And>r. pprev (f r) = pprev r"
  shows "rq (upd_proc i f s) q"
  by (rule rq_cong [OF assms(1)]) (simp_all add: proc_upd_proc assms(2,3))

lemma rq_fields [simp]:
  "rq (s\<lparr>current_process := a\<rparr>) q = rq s q" "rq (s\<lparr>schedule_needed := n\<rparr>) q = rq s q"
  "rq (s\<lparr>time_slice_counter := m\<rparr>) q = rq s q"
  by (rule iffI; erule rq_cong; simp add: proc_def)+

section \<open>Time slices\<close>

definition running :: "sched \<Rightarrow> nat \<Rightarrow> nat list \<Rightarrow> bool" where
  "running s c q \<longleftrightarrow>
     rq s q \<and> current_process s = Some c \<and> c < MAX_PROCESSES \<and> c \<notin> set q \<and>
     time_slice_counter s = 0 \<and> schedule_needed s = 0"

lemma switch_keep:
  assumes "current_process s = Some c" "time_slice_counter s + 1 < TIME_SLICE_MS" "schedule_needed s = 0"
  shows "switch_timer_tick r s = Some (s\<lparr>time_slice_counter := time_slice_counter s + 1\<rparr>)"
  using assms
  by (simp add: switch_timer_tick_def scheduler_tick_def process_current_def scheduler_needs_reschedule_def Let_def)

lemma switch_over:
  assumes rqs: "rq s (n # q)" and cur: "current_process s = Some c" "c < MAX_PROCESSES" "c \<notin> set (n # q)"
    and due: "TIME_SLICE_MS \<le> time_slice_counter s + 1 \<or> schedule_needed s \<noteq> 0"
  obtains s' where "switch_timer_tick r s = Some s'" "rq s' (q @ [c])" "current_process s' = Some n"
    "schedule_needed s' = 0" "pstate (proc s' c) = PROC_STATE_READY" "pstate (proc s' n) = PROC_STATE_RUNNING"
    "time_slice_counter s' = (if TIME_SLICE_MS \<le> time_slice_counter s + 1 then 0 else time_slice_counter s + 1)"
proof -
  define s1 where "s1 = scheduler_tick s"
  have s1: "rq s1 (n # q)" "current_process s1 = Some c" "schedule_needed s1 \<noteq> 0"
    "time_slice_counter s1 = (if TIME_SLICE_MS \<le> time_slice_counter s + 1 then 0 else time_slice_counter s + 1)"
    using rqs cur due by (auto simp: s1_def scheduler_tick_def Let_def intro!: rq_upd_proc)
  define s2 where "s2 = snd (scheduler_pick s1)"
  have s2: "rq s2 q" "fst (scheduler_pick s1) = Some n" "time_slice_counter s2 = time_slice_counter s1"
    using rq_pick [OF s1(1)] by (auto simp: s2_def scheduler_pick_def Let_def split: option.splits)
  define s3 where "s3 = upd_proc c (\<lambda>r. r\<lparr>pstate := PROC_STATE_READY\<rparr>)
      (upd_proc c (\<lambda>x. x\<lparr>pcontext := (pcontext x)\<lparr>rsp := r\<rparr>\<rparr>) s2)"
  have s3: "rq s3 q" using s2(1) by (auto simp: s3_def intro!: rq_upd_proc)
  define s4 where "s4 = scheduler_add c s3"
  have s4: "rq s4 (q @ [c])" using rq_add [OF s3 cur(2)] cur(3) by (simp add: s4_def)
  have st: "pstate (proc s4 c) = PROC_STATE_READY"
    using s3 cur(2) by (auto simp: s4_def scheduler_add_def Let_def proc_upd_proc rq_def split: option.splits)
  have n: "n < MAX_PROCESSES" "n \<noteq> c" using rqs cur by (auto simp: rq_def)
  let ?s = "scheduler_clear_reschedule (scheduler_set_current (Some n) s4)"
  have "switch_timer_tick r s = Some ?s"
    using s1(2,3) s2(2)
    by (simp add: switch_timer_tick_def process_current_def scheduler_needs_reschedule_def Let_def
        split_beta s1_def [symmetric] s2_def [symmetric] s3_def [symmetric] s4_def [symmetric])
  moreover have "time_slice_counter s4 = time_slice_counter s1"
    using s2(3) by (simp add: s4_def s3_def scheduler_add_def Let_def split: option.splits)
  moreover have "rq ?s (q @ [c])"
    using s4 by (simp add: scheduler_clear_reschedule_def scheduler_set_current_def rq_upd_proc)
  moreover have "length (process_table s4) = MAX_PROCESSES" using s4 by (simp add: rq_def)
  ultimately show thesis
    using st n s1(4)
    by (intro that [of ?s])
      (auto simp: scheduler_clear_reschedule_def scheduler_set_current_def Let_def proc_upd_proc)
qed

primrec ticks :: "(nat \<Rightarrow> u64) \<Rightarrow> nat \<Rightarrow> sched \<Rightarrow> sched option" where
  "ticks r 0 s = Some s"
| "ticks r (Suc n) s = Option.bind (switch_timer_tick (r 0) s) (ticks (\<lambda>i. r (Suc i)) n)"

lemma ticks_add: "ticks r (m + n) s = Option.bind (ticks r m s) (ticks (\<lambda>i. r (m + i)) n)"
  by (induction m arbitrary: r s) (auto split: bind_splits)

lemma ticks_keep:
  assumes "current_process s = Some c" "schedule_needed s = 0" "time_slice_counter s + int n < TIME_SLICE_MS"
  shows "ticks r n s = Some (s\<lparr>time_slice_counter := time_slice_counter s + int n\<rparr>)"
  using assms
proof (induction n arbitrary: r s)
  case (Suc n)
  then show ?case using switch_keep [of s c "r 0"] by (simp add: add_ac)
qed simp

lemma slice:
  assumes "running s c (n # q)"
  obtains s' where "ticks r 10 s = Some s'" "running s' n (q @ [c])"
proof -
  let ?s = "s\<lparr>time_slice_counter := 9\<rparr>"
  have s: "rq s (n # q)" "current_process s = Some c" "c < MAX_PROCESSES" "c \<notin> set (n # q)"
    "time_slice_counter s = 0" "schedule_needed s = 0" using assms by (simp_all add: running_def)
  have keep: "ticks r 9 s = Some ?s"
    using ticks_keep [OF s(2,6), of 9 r] s(5) by simp
  obtain s' where "switch_timer_tick (r 9) ?s = Some s'" "rq s' (q @ [c])" "current_process s' = Some n"
    "schedule_needed s' = 0" "time_slice_counter s' = 0"
    by (rule switch_over [of ?s n q c "r 9"]) (use s in auto)
  moreover have "n < MAX_PROCESSES" "n \<notin> set (q @ [c])" using s by (auto simp: rq_def)
  ultimately show thesis
    using that [of s'] ticks_add [of r 9 1 s] keep by (simp add: running_def)
qed

lemma slice_alone:
  assumes "running s c []"
  obtains s' where "ticks r 10 s = Some s'" "running s' c []"
proof -
  let ?s = "s\<lparr>time_slice_counter := 9\<rparr>"
  have s: "rq s []" "current_process s = Some c" "c < MAX_PROCESSES"
    "time_slice_counter s = 0" "schedule_needed s = 0" using assms by (simp_all add: running_def)
  have keep: "ticks r 9 s = Some ?s" using ticks_keep [OF s(2,5), of 9 r] s(4) by simp
  have "rq (scheduler_tick ?s) []"
    using s by (auto simp: scheduler_tick_def Let_def intro!: rq_upd_proc)
  then have "scheduler_pick (scheduler_tick ?s) = (None, scheduler_tick ?s)" by (rule rq_pick_empty)
  then have "switch_timer_tick (r 9) ?s = Some (scheduler_clear_reschedule (scheduler_tick ?s))"
    using s by (simp add: switch_timer_tick_def Let_def process_current_def scheduler_needs_reschedule_def
        scheduler_tick_def)
  moreover have "running (scheduler_clear_reschedule (scheduler_tick ?s)) c []"
    using s by (auto simp: running_def scheduler_clear_reschedule_def scheduler_tick_def Let_def intro!: rq_upd_proc)
  ultimately show thesis using that ticks_add [of r 9 1 s] keep by simp
qed

lemma slices:
  assumes "running s c q"
  obtains s' where "ticks r (10 * k) s = Some s'" "running s' (hd (rotate k (c # q))) (tl (rotate k (c # q)))"
  using assms
proof (induction k arbitrary: thesis r)
  case (Suc k)
  let ?l = "rotate k (c # q)"
  obtain s1 where s1: "ticks r (10 * k) s = Some s1" "running s1 (hd ?l) (tl ?l)"
    using Suc.IH [OF _ Suc.prems(2)] by blast
  have l: "?l \<noteq> []" by simp
  have split: "ticks r (10 * Suc k) s = ticks (\<lambda>i. r (10 * k + i)) 10 s1"
    using ticks_add [of r "10 * k" 10 s] s1(1) by (simp add: add_ac del: ticks.simps)
  show ?case
  proof (cases "tl ?l")
    case Nil
    then have "rotate (Suc k) (c # q) = ?l" using l by (cases ?l) auto
    then show ?thesis using slice_alone [of s1 "hd ?l"] s1(2) Nil split Suc.prems(1) by metis
  next
    case (Cons n t)
    then have "rotate (Suc k) (c # q) = n # t @ [hd ?l]" using l by (cases ?l) auto
    then show ?thesis using slice [of s1 "hd ?l" n t] s1(2) Cons split Suc.prems(1) by (metis list.sel(1,3))
  qed
qed auto

text \<open>
  C10. Round robin is fair. From a state in which process \<open>c\<close> has just been given the processor and
  the processes \<open>q\<close> wait in the ready queue, \<open>10 * k\<close> timer interrupts later the processes have been
  served in queue order: the running one is the \<open>k\<close>-th of the rotation of \<open>c # q\<close> and the others
  wait in rotated order. In particular every waiting process runs after at most
  \<open>10 * length q\<close> interrupts, and no process is lost.
\<close>

theorem switch_timer_tick_round_robin:
  assumes "running s c q"
  shows "\<exists>s'. ticks r (10 * k) s = Some s' \<and> running s' (hd (rotate k (c # q))) (tl (rotate k (c # q)))"
  using slices [OF assms] by metis

text \<open>
  C11. A process that leaves the running state is put back by the timer. Whatever state \<open>st\<close> the
  current process has been given (\<^verbatim>\<open>process_block\<close> and \<^verbatim>\<open>process_sleep\<close> make it \<open>BLOCKED\<close>,
  \<^verbatim>\<open>process_exit\<close> makes it a \<open>ZOMBIE\<close>, all three ask for a reschedule), the next timer
  interrupt that switches to a waiting process makes it \<open>READY\<close> and appends it to the ready queue.
\<close>

theorem switch_timer_tick_resurrects:
  assumes "rq s (n # q)" and "current_process s = Some c" "c < MAX_PROCESSES" "c \<notin> set (n # q)"
  shows "\<exists>s'. switch_timer_tick r (scheduler_reschedule (upd_proc c (\<lambda>p. p\<lparr>pstate := st\<rparr>) s)) = Some s' \<and>
    current_process s' = Some n \<and> pstate (proc s' c) = PROC_STATE_READY \<and> rq s' (q @ [c])"
proof -
  let ?s = "scheduler_reschedule (upd_proc c (\<lambda>p. p\<lparr>pstate := st\<rparr>) s)"
  have "rq ?s (n # q)" "current_process ?s = Some c" "schedule_needed ?s \<noteq> 0"
    using assms by (simp_all add: scheduler_reschedule_def rq_upd_proc)
  then show ?thesis using switch_over [of ?s n q c r] assms(3,4) by metis
qed

section \<open>Sleeping and waking\<close>

definition sleep_over :: "u64 \<Rightarrow> sched \<Rightarrow> nat \<Rightarrow> bool" where
  "sleep_over now s i \<longleftrightarrow>
     pstate (proc s i) = PROC_STATE_BLOCKED \<and> 0 < wake_time (proc s i) \<and> wake_time (proc s i) \<le> now"

lemma scheduler_add_state:
  assumes "length (process_table s) = MAX_PROCESSES" "p < MAX_PROCESSES"
  shows "pstate (proc (scheduler_add p s) i) = (if i = p then PROC_STATE_READY else pstate (proc s i))"
    and "wake_time (proc (scheduler_add p s) i) = wake_time (proc s i)"
    and "length (process_table (scheduler_add p s)) = MAX_PROCESSES"
  using assms by (auto simp: scheduler_add_def Let_def proc_upd_proc split: option.splits)

lemma check_sleeper_state:
  assumes "length (process_table s) = MAX_PROCESSES" "p < MAX_PROCESSES"
  shows "pstate (proc (check_sleeper now p s) i) =
      (if i = p \<and> sleep_over now s p then PROC_STATE_READY else pstate (proc s i))"
    and "wake_time (proc (check_sleeper now p s) i) =
      (if i = p \<and> sleep_over now s p then 0 else wake_time (proc s i))"
  using assms by (auto simp: check_sleeper_def sleep_over_def scheduler_add_state proc_upd_proc)

lemma check_sleepers_fold:
  assumes "rq s q" "distinct L" "\<forall>i \<in> set L. i < MAX_PROCESSES"
    and "\<forall>i \<in> set L. sleep_over now s i \<longrightarrow> i \<notin> set q"
  shows "rq (fold (check_sleeper now) L s) (q @ filter (sleep_over now s) L) \<and>
    (\<forall>i. pstate (proc (fold (check_sleeper now) L s) i) =
      (if i \<in> set L \<and> sleep_over now s i then PROC_STATE_READY else pstate (proc s i)) \<and>
    wake_time (proc (fold (check_sleeper now) L s) i) =
      (if i \<in> set L \<and> sleep_over now s i then 0 else wake_time (proc s i)))"
  using assms
proof (induction L arbitrary: s q)
  case (Cons p L)
  let ?s = "check_sleeper now p s" and ?q = "q @ (if sleep_over now s p then [p] else [])"
  have len: "length (process_table s) = MAX_PROCESSES" and p: "p < MAX_PROCESSES"
    using Cons.prems by (auto simp: rq_def)
  have rqs: "rq ?s ?q"
    using Cons.prems p by (auto simp: check_sleeper_def sleep_over_def intro!: rq_add rq_upd_proc)
  have same: "sleep_over now ?s i = sleep_over now s i" if "i \<in> set L" for i
    using that Cons.prems(2) check_sleeper_state [OF len p] by (auto simp: sleep_over_def)
  have fits: "\<forall>i \<in> set L. sleep_over now ?s i \<longrightarrow> i \<notin> set ?q"
    using Cons.prems by (auto simp: same)
  have filt: "filter (sleep_over now ?s) L = filter (sleep_over now s) L"
    by (intro filter_cong) (auto simp: same)
  have "rq (fold (check_sleeper now) L ?s) (?q @ filter (sleep_over now s) L)"
    and "pstate (proc (fold (check_sleeper now) L ?s) i) =
      (if i \<in> set L \<and> sleep_over now s i then PROC_STATE_READY else pstate (proc ?s i))"
    and "wake_time (proc (fold (check_sleeper now) L ?s) i) =
      (if i \<in> set L \<and> sleep_over now s i then 0 else wake_time (proc ?s i))" for i
    using Cons.IH [OF rqs _ _ fits] Cons.prems filt same [of i] by auto
  then show ?case using check_sleeper_state [OF len p] by auto
qed auto

text \<open>
  C12. Waking sleepers. If the processes whose sleep is over are not already in the ready queue,
  \<^verbatim>\<open>process_check_sleepers\<close> appends exactly those processes to it, in table order; each becomes
  \<open>READY\<close> with its wake time cleared, and no other process changes its state or its wake time.
\<close>

theorem process_check_sleepers_spec:
  assumes "rq s q" and "\<And>i. i < MAX_PROCESSES \<Longrightarrow> sleep_over (timer_get_ms s) s i \<Longrightarrow> i \<notin> set q"
  shows "rq (process_check_sleepers s) (q @ filter (sleep_over (timer_get_ms s) s) [0..<MAX_PROCESSES]) \<and>
    (\<forall>i < MAX_PROCESSES.
       (if sleep_over (timer_get_ms s) s i
        then pstate (proc (process_check_sleepers s) i) = PROC_STATE_READY \<and>
             wake_time (proc (process_check_sleepers s) i) = 0
        else pstate (proc (process_check_sleepers s) i) = pstate (proc s i) \<and>
             wake_time (proc (process_check_sleepers s) i) = wake_time (proc s i)))"
proof -
  have "\<forall>i \<in> set [0..<MAX_PROCESSES]. sleep_over (timer_get_ms s) s i \<longrightarrow> i \<notin> set q" using assms(2) by simp
  note fold = check_sleepers_fold [OF assms(1) distinct_upt _ this]
  show ?thesis
    unfolding process_check_sleepers_def using fold by (simp del: upt_conv_Cons upt_rec_numeral)
qed

text \<open>
  C13. Removal. Removing a queued process unlinks it and nothing else: the others keep their order,
  the removed process is a zombie, and the count of runnable processes drops by one.
\<close>

theorem scheduler_remove_spec:
  assumes "rq s q" and "p \<in> set q"
  shows "rq (scheduler_remove p s) (remove1 p q) \<and> pstate (proc (scheduler_remove p s) p) = PROC_STATE_ZOMBIE \<and>
    scheduler_runnable_count s = Some (int (length q)) \<and>
    scheduler_runnable_count (scheduler_remove p s) = Some (int (length q) - 1)"
proof -
  obtain xs ys where q: "q = xs @ p # ys" "p \<notin> set xs" using split_list_first [OF assms(2)] by blast
  then have "remove1 p q = xs @ ys" by (simp add: remove1_append)
  moreover have cnt: "scheduler_runnable_count s = Some (int (length q))" if "rq s q" for s q
    using that runnable_count_dll [of s None q 0] by (simp add: rq_def scheduler_runnable_count_def)
  ultimately show ?thesis
    using rq_remove [of s xs p ys] assms(1) q(1) cnt [of s q] cnt [of "scheduler_remove p s" "xs @ ys"] by simp
qed

section \<open>PCIDs\<close>

definition pcid_used :: "pcids \<Rightarrow> nat \<Rightarrow> bool" where
  "pcid_used s i = bit (pcid_bitmap s ! (i div 64)) (i mod 64)"

definition pcid_ok :: "pcids \<Rightarrow> bool" where
  "pcid_ok s \<longleftrightarrow> length (pcid_bitmap s) = 64 \<and> pcid_initialized s \<noteq> 0"

definition pcid_avail :: "pcids \<Rightarrow> u16 set" where
  "pcid_avail s = {p. p \<noteq> 0 \<and> unat p < PCID_MAX \<and> \<not> pcid_used s (unat p)}"

lemma unat_of_nat_u16: "n < PCID_MAX \<Longrightarrow> unat (of_nat n :: u16) = n"
  by (simp add: unat_of_nat take_bit_nat_eq_self)

lemma pcid_mark:
  assumes "pcid_ok s" "i < PCID_MAX"
  defines "t \<equiv> s\<lparr>pcid_bitmap := (pcid_bitmap s)[i div 64 := pcid_bitmap s ! (i div 64) OR push_bit (i mod 64) 1]\<rparr>"
  shows "pcid_ok t" and "pcid_used t j \<longleftrightarrow> pcid_used s j \<or> j = i"
proof -
  show "pcid_ok t" using assms by (simp add: pcid_ok_def)
  have "i div 64 < 64" using assms(2) by simp
  moreover have "j = i" if "j div 64 = i div 64" "j mod 64 = i mod 64"
    using that by (metis div_mult_mod_eq)
  ultimately show "pcid_used t j \<longleftrightarrow> pcid_used s j \<or> j = i"
    using assms(1) by (auto simp: pcid_used_def t_def pcid_ok_def nth_list_update bit_simps)
qed

lemma pcid_scan_some:
  assumes "pcid_ok s" "i + k = PCID_MAX" "i \<le> m" "m < PCID_MAX" "\<not> pcid_used s m"
    "\<And>j. i \<le> j \<Longrightarrow> j < m \<Longrightarrow> pcid_used s j"
  shows "fst (pcid_scan i k s) = of_nat m \<and> pcid_ok (snd (pcid_scan i k s)) \<and>
    (\<forall>j. pcid_used (snd (pcid_scan i k s)) j \<longleftrightarrow> pcid_used s j \<or> j = m)"
  using assms(2,3,6)
proof (induction k arbitrary: i)
  case (Suc k)
  have used: "pcid_bitmap s ! (i div 64) AND push_bit (i mod 64) 1 = 0 \<longleftrightarrow> \<not> pcid_used s i"
    by (simp add: pcid_used_def and_exp_eq_0)
  show ?case
  proof (cases "i = m")
    case True
    then show ?thesis using pcid_mark [OF assms(1,4)] assms(5) used by (simp add: Let_def)
  next
    case False
    then have "pcid_used s i" using Suc.prems by simp
    then show ?thesis using Suc False used by (simp add: Let_def)
  qed
qed (use assms(4) in simp)

lemma pcid_scan_none:
  "(\<And>j. i \<le> j \<Longrightarrow> j < i + k \<Longrightarrow> pcid_used s j) \<Longrightarrow> pcid_scan i k s = (0, s)"
  by (induction k arbitrary: i) (simp_all add: Let_def pcid_used_def and_exp_eq_0)

lemma pcid_avail_of_nat: "pcid_avail s = of_nat ` {i. 0 < i \<and> i < PCID_MAX \<and> \<not> pcid_used s i}"
proof -
  have "p \<in> of_nat ` {i. 0 < i \<and> i < PCID_MAX \<and> \<not> pcid_used s i}" if "p \<in> pcid_avail s" for p :: u16
    using that by (intro image_eqI [of _ _ "unat p"]) (auto simp: pcid_avail_def unat_gt_0)
  moreover have "of_nat i \<in> pcid_avail s" if "0 < i" "i < PCID_MAX" "\<not> pcid_used s i" for i
    using that unat_of_nat_u16 [of i] by (force simp: pcid_avail_def)
  ultimately show ?thesis by blast
qed

lemma pcid_alloc_law:
  assumes "pcid_ok s"
  shows "if pcid_avail s = {} then pcid_alloc s = (0, s)
    else fst (pcid_alloc s) \<in> pcid_avail s \<and> pcid_ok (snd (pcid_alloc s)) \<and>
         pcid_avail (snd (pcid_alloc s)) = pcid_avail s - {fst (pcid_alloc s)} \<and>
         (\<forall>p \<in> pcid_avail s. fst (pcid_alloc s) \<le> p)"
proof (cases "pcid_avail s = {}")
  case True
  then have "pcid_used s j" if "1 \<le> j" "j < 1 + (PCID_MAX - 1)" for j
    using that by (auto simp: pcid_avail_of_nat)
  then have "pcid_scan 1 (PCID_MAX - 1) s = (0, s)" by (rule pcid_scan_none)
  then show ?thesis using True assms by (simp add: pcid_alloc_def pcid_ok_def)
next
  case False
  let ?P = "\<lambda>i. 0 < i \<and> i < PCID_MAX \<and> \<not> pcid_used s i"
  define m where "m = (LEAST i. ?P i)"
  have m: "?P m" and least: "\<And>j. ?P j \<Longrightarrow> m \<le> j"
    using False LeastI [of ?P] Least_le [of ?P] unfolding m_def pcid_avail_of_nat by blast+
  have used: "pcid_used s j" if "1 \<le> j" "j < m" for j
    using that m least [of j] by linarith
  note scan = pcid_scan_some [OF assms, of 1 "PCID_MAX - 1" m, OF _ _ _ _ used]
  have alloc: "pcid_alloc s = pcid_scan 1 (PCID_MAX - 1) s"
    using assms by (simp add: pcid_alloc_def pcid_ok_def)
  have fst: "fst (pcid_alloc s) = of_nat m" and ok: "pcid_ok (snd (pcid_alloc s))"
    and used': "\<And>j. pcid_used (snd (pcid_alloc s)) j \<longleftrightarrow> pcid_used s j \<or> j = m"
    using scan m unfolding alloc by auto
  have "pcid_avail (snd (pcid_alloc s)) = pcid_avail s - {of_nat m}"
    unfolding pcid_avail_def used' using m unat_of_nat_u16 [of m] by (auto simp: word_unat_eq_iff)
  moreover have "of_nat m \<le> p" if "p \<in> pcid_avail s" for p :: u16
    using that least [of "unat p"] m unat_of_nat_u16 [of m]
    by (auto simp: pcid_avail_def word_le_nat_alt unat_gt_0)
  ultimately show ?thesis using False fst ok m by (auto simp: pcid_avail_of_nat)
qed

lemma pcid_used_free:
  assumes "pcid_ok s"
  shows "pcid_used (pcid_free a s) j \<longleftrightarrow> pcid_used s j \<and> (a = 0 \<or> unat a \<ge> PCID_MAX \<or> j \<noteq> unat a)"
proof -
  have "j = unat a" if "j div 64 = unat a div 64" "j mod 64 = unat a mod 64"
    using that by (metis div_mult_mod_eq)
  then show ?thesis
    using assms
    by (auto simp: pcid_free_def pcid_used_def pcid_ok_def Let_def nth_list_update bit_simps split: if_splits)
qed

interpretation pcid: name_allocator pcid_alloc pcid_free pcid_ok pcid_avail
proof unfold_locales
  fix s a
  assume ok: "pcid_ok s"
  note law = pcid_alloc_law [OF ok]
  show "finite (pcid_avail s)" by simp
  show "a \<noteq> 0" if "a \<in> pcid_avail s" using that by (simp add: pcid_avail_def)
  show "fst (pcid_alloc s) \<in> pcid_avail s" if "pcid_avail s \<noteq> {}" using law that by simp
  show "pcid_alloc s = (0, s)" if "pcid_avail s = {}" using law that by simp
  show "pcid_avail (snd (pcid_alloc s)) = pcid_avail s - {fst (pcid_alloc s)}"
    using law by (cases "pcid_avail s = {}") simp_all
  show "pcid_ok (snd (pcid_alloc s))" using law ok by (cases "pcid_avail s = {}") simp_all
  show "pcid_avail s \<subseteq> pcid_avail (pcid_free a s)"
    using ok by (auto simp: pcid_avail_def pcid_used_free)
qed

lemma pcid_init_avail:
  "pcid_ok (pcid_allocator_init s)" "pcid_avail (pcid_allocator_init s) = {p. p \<noteq> 0 \<and> unat p < PCID_MAX}"
proof -
  show "pcid_ok (pcid_allocator_init s)" by (simp add: pcid_ok_def pcid_allocator_init_def)
  have "\<not> pcid_used (pcid_allocator_init s) i" if "0 < i" "i < PCID_MAX" for i
    using that
    by (cases "i div 64 = 0")
      (auto simp: pcid_used_def pcid_allocator_init_def nth_list_update bit_simps)
  then show "pcid_avail (pcid_allocator_init s) = {p. p \<noteq> 0 \<and> unat p < PCID_MAX}"
    by (auto simp: pcid_avail_def unat_gt_0)
qed

lemma card_pcids: "card {p :: u16. p \<noteq> 0 \<and> unat p < PCID_MAX} = PCID_MAX - 1"
proof -
  have "p \<in> of_nat ` {1..<PCID_MAX}" if "p \<noteq> 0" "unat p < PCID_MAX" for p :: u16
    using that by (intro image_eqI [of _ _ "unat p"]) (auto simp: Suc_le_eq unat_gt_0)
  moreover have "(of_nat i :: u16) \<noteq> 0" if "0 < i" "i < PCID_MAX" for i
    using unat_of_nat_u16 [of i] that by force
  ultimately have "{p :: u16. p \<noteq> 0 \<and> unat p < PCID_MAX} = of_nat ` {1..<PCID_MAX}"
    using unat_of_nat_u16 by auto
  moreover have "inj_on (of_nat :: nat \<Rightarrow> u16) {1..<PCID_MAX}"
    using unat_of_nat_u16 by (intro inj_onI) (metis atLeastLessThan_iff)
  ultimately show ?thesis by (simp add: card_image)
qed

text \<open>
  C14. PCIDs are unique. After \<^verbatim>\<open>pcid_allocator_init\<close>, any \<open>n\<close> allocations in a row return
  pairwise different PCIDs between 1 and 4095 until all 4095 are taken; the rest return 0, which is
  the kernel's own PCID and never handed out as a success.
\<close>

theorem pcid_alloc_distinct:
  "let ps = filter (\<lambda>p. p \<noteq> 0) (fst (alloc_n pcid_alloc n (pcid_allocator_init s)))
   in distinct ps \<and> length ps = min n 4095 \<and> set ps \<subseteq> {p. unat p < 4096}"
  using pcid.alloc_n_law [OF pcid_init_avail(1), of n s] card_pcids
  unfolding pcid_init_avail(2) Let_def by auto

definition blank_process :: process where
  "blank_process =
     \<lparr>pid = 0, pname = [], pstate = PROC_STATE_UNUSED,
      pcontext = \<lparr>r15 = 0, r14 = 0, r13 = 0, r12 = 0, r11 = 0, r10 = 0, r9 = 0, r8 = 0, rdi = 0, rsi = 0,
        rbp = 0, rbx = 0, rdx = 0, rcx = 0, rax = 0, rip = 0, cs_reg = 0, rflags = 0, rsp = 0, ss_reg = 0\<rparr>,
      kernel_stack = 0, kernel_stack_top = 0, user_stack_top = 0, pvm = 0, fd_table = 0, wake_time = 0,
      priority = 0, cpu_time = 0, exit_code = 0, pnext = None, pprev = None\<rparr>"

definition sample_sched :: sched where
  "sample_sched =
     scheduler_add 2 (scheduler_add 1
       \<lparr>process_table = (replicate 64 blank_process)
          [3 := blank_process\<lparr>pstate := PROC_STATE_BLOCKED, wake_time := 5\<rparr>],
        ready_queue = None, ready_queue_tail = None, current_process = Some 0, schedule_needed = 0,
        time_slice_counter = 0, system_ticks = 7, next_pid = 4\<rparr>)"

lemma sample_rq: "rq sample_sched [1, 2]"
proof -
  have "rq \<lparr>process_table = (replicate 64 blank_process)
          [3 := blank_process\<lparr>pstate := PROC_STATE_BLOCKED, wake_time := 5\<rparr>],
        ready_queue = None, ready_queue_tail = None, current_process = Some 0, schedule_needed = 0,
        time_slice_counter = 0, system_ticks = 7, next_pid = 4\<rparr> []" by (simp add: rq_def)
  then show ?thesis
    unfolding sample_sched_def using rq_add [OF rq_add, of _ "[]" 1 2] by simp
qed

lemma scheduler_add_other [simp]:
  "current_process (scheduler_add p s) = current_process s" "schedule_needed (scheduler_add p s) = schedule_needed s"
  "time_slice_counter (scheduler_add p s) = time_slice_counter s" "system_ticks (scheduler_add p s) = system_ticks s"
  by (simp_all add: scheduler_add_def Let_def split: option.splits)

lemma sample_sched_fields:
  "current_process sample_sched = Some 0" "schedule_needed sample_sched = 0"
  "time_slice_counter sample_sched = 0" "system_ticks sample_sched = 7"
  by (simp_all add: sample_sched_def)

theorem switch_timer_tick_round_robin_witness:
  "\<exists>s'. ticks (\<lambda>_. 0) 10 sample_sched = Some s' \<and> running s' 1 [2, 0]"
proof -
  have "running sample_sched 0 [1, 2]" by (simp add: running_def sample_rq [simplified] sample_sched_fields)
  from switch_timer_tick_round_robin [OF this, of "\<lambda>_. 0" 1] show ?thesis by (simp del: ticks.simps)
qed

theorem switch_timer_tick_resurrects_witness:
  "\<exists>s'. switch_timer_tick 0 (scheduler_reschedule (upd_proc 0 (\<lambda>p. p\<lparr>pstate := PROC_STATE_ZOMBIE\<rparr>) sample_sched))
     = Some s' \<and> current_process s' = Some 1 \<and> pstate (proc s' 0) = PROC_STATE_READY \<and> rq s' [2, 0]"
  using switch_timer_tick_resurrects [of sample_sched 1 "[2]" 0 0 PROC_STATE_ZOMBIE]
  by (simp add: sample_rq [simplified] sample_sched_fields)

theorem scheduler_remove_spec_witness:
  "rq (scheduler_remove 1 sample_sched) [2] \<and> pstate (proc (scheduler_remove 1 sample_sched) 1) = PROC_STATE_ZOMBIE \<and>
   scheduler_runnable_count (scheduler_remove 1 sample_sched) = Some 1"
  using scheduler_remove_spec [OF sample_rq, of 1] by simp

theorem process_check_sleepers_spec_witness:
  "sleep_over 7 sample_sched 3 \<and>
   rq (process_check_sleepers sample_sched) ([1, 2] @ filter (sleep_over 7 sample_sched) [0..<MAX_PROCESSES]) \<and>
   pstate (proc (process_check_sleepers sample_sched) 3) = PROC_STATE_READY"
proof -
  have st: "pstate (proc sample_sched i) = PROC_STATE_READY" if "i \<in> {1, 2}" for i
    using that by (auto simp: sample_sched_def scheduler_add_state)
  have now: "timer_get_ms sample_sched = 7" by (simp add: timer_get_ms_def sample_sched_fields)
  have "sleep_over 7 sample_sched 3"
    by (simp add: sleep_over_def sample_sched_def scheduler_add_state proc_def)
      (simp add: scheduler_add_state [unfolded proc_def] blank_process_def)
  moreover have "rq (process_check_sleepers sample_sched)
      ([1, 2] @ filter (sleep_over 7 sample_sched) [0..<MAX_PROCESSES]) \<and>
    (\<forall>i < MAX_PROCESSES.
       (if sleep_over 7 sample_sched i
        then pstate (proc (process_check_sleepers sample_sched) i) = PROC_STATE_READY \<and>
             wake_time (proc (process_check_sleepers sample_sched) i) = 0
        else pstate (proc (process_check_sleepers sample_sched) i) = pstate (proc sample_sched i) \<and>
             wake_time (proc (process_check_sleepers sample_sched) i) = wake_time (proc sample_sched i)))"
    by (rule process_check_sleepers_spec [OF sample_rq, unfolded now]) (use st in \<open>auto simp: sleep_over_def\<close>)
  ultimately show ?thesis by (simp del: upt_conv_Cons upt_rec_numeral)
qed

end
