(* ===== verification/Ramfs.thy ===== *)
theory Ramfs
  imports Kheap Kstring
begin

text \<open>
  \<^verbatim>\<open>src/fs/ramfs.c\<close>: the flat in-memory file system. The file table is a list of records, the
  file buffers live in the modelled kernel heap and are reached through their addresses. A
  buffer of the caller is the list of its bytes: what \<open>ramfs_write\<close> takes from it and what
  \<open>ramfs_read\<close> stores into it. The flag bytes \<^verbatim>\<open>in_use\<close> and \<^verbatim>\<open>is_directory\<close> only hold 0
  and 1 and are booleans. \<open>None\<close>, where an operation can return it, is a heap walk that does
  not end.
\<close>

section \<open>The file table\<close>

abbreviation MAX_FILES :: nat where "MAX_FILES \<equiv> 64"
abbreviation MAX_FILENAME :: nat where "MAX_FILENAME \<equiv> 32"
abbreviation RAMFS_TOTAL_CAPACITY :: u64 where "RAMFS_TOTAL_CAPACITY \<equiv> 1048576"

record ramfile =
  rf_name :: string
  rf_data :: u64
  rf_size :: u32
  rf_capacity :: u32
  rf_is_directory :: bool
  rf_in_use :: bool

record ramfs =
  rf_files :: "ramfile list"
  fs_initialized :: bool
  rf_heap :: kheap

abbreviation upd_file :: "nat \<Rightarrow> (ramfile \<Rightarrow> ramfile) \<Rightarrow> ramfs \<Rightarrow> ramfs" where
  "upd_file i f s \<equiv> s\<lparr>rf_files := (rf_files s)[i := f (rf_files s ! i)]\<rparr>"

definition ramfs_init :: "ramfs \<Rightarrow> ramfs" where
  "ramfs_init s =
     (let s = s\<lparr>rf_files := map (\<lambda>f. f\<lparr>rf_in_use := False, rf_data := 0, rf_size := 0, rf_capacity := 0,
                                      rf_is_directory := False\<rparr>) (rf_files s)\<rparr>;
          s = upd_file 0 (\<lambda>f. f\<lparr>rf_in_use := True, rf_is_directory := True,
                               rf_name := (rf_name f)[0 := CHR ''/'', 1 := NUL], rf_size := 0\<rparr>) s
      in s\<lparr>fs_initialized := True\<rparr>)"

text \<open>The search for a free slot starts at 1; slot 0 is the root directory.\<close>

definition ramfs_free_slot :: "ramfs \<Rightarrow> nat option" where
  "ramfs_free_slot s = map_option Suc (first_index (\<lambda>f. \<not> rf_in_use f) (tl (rf_files s)))"

definition ramfs_create :: "string \<Rightarrow> ramfs \<Rightarrow> (int \<times> ramfs) option" where
  "ramfs_create name s =
     (if \<not> fs_initialized s then Some (-1, s)
      else case ramfs_free_slot s of
        None \<Rightarrow> Some (-1, s)
      | Some slot \<Rightarrow>
          (let s = upd_file slot (\<lambda>f. f\<lparr>rf_name := copy_bounded (MAX_FILENAME - 1) (rf_name f) 0 name\<rparr>) s
           in Option.bind (kmalloc 256 (rf_heap s)) (\<lambda>(p, h).
                let s = upd_file slot (\<lambda>f. f\<lparr>rf_data := p\<rparr>) (s\<lparr>rf_heap := h\<rparr>)
                in if p = 0 then Some (-1, s)
                   else Some (int slot,
                     upd_file slot (\<lambda>f. f\<lparr>rf_capacity := 256, rf_size := 0, rf_is_directory := False,
                                         rf_in_use := True\<rparr>) s))))"

definition ramfs_mkdir :: "string \<Rightarrow> ramfs \<Rightarrow> int \<times> ramfs" where
  "ramfs_mkdir name s =
     (if \<not> fs_initialized s then (-1, s)
      else case ramfs_free_slot s of
        None \<Rightarrow> (-1, s)
      | Some slot \<Rightarrow>
          (0, upd_file slot (\<lambda>f. f\<lparr>rf_name := copy_bounded (MAX_FILENAME - 1) (rf_name f) 0 name,
                                  rf_is_directory := True, rf_in_use := True, rf_size := 0,
                                  rf_data := 0\<rparr>) s))"

text \<open>The comparison loop of \<open>ramfs_find\<close>.\<close>

fun ramfs_match :: "string \<Rightarrow> string \<Rightarrow> bool" where
  "ramfs_match (c # cs) (d # ds) =
     (if c \<noteq> NUL \<and> d \<noteq> NUL then (if c \<noteq> d then False else ramfs_match cs ds) else c = d)"
| "ramfs_match a b = (cchar a = cchar b)"

definition ramfs_find :: "string \<Rightarrow> ramfs \<Rightarrow> int" where
  "ramfs_find name s =
     (if \<not> fs_initialized s then -1
      else case first_index (\<lambda>f. rf_in_use f \<and> ramfs_match name (rf_name f)) (rf_files s) of
        None \<Rightarrow> -1
      | Some i \<Rightarrow> int i)"

definition ramfs_delete :: "string \<Rightarrow> ramfs \<Rightarrow> (int \<times> ramfs) option" where
  "ramfs_delete name s =
     (let idx = ramfs_find name s
      in if idx < 0 then Some (-1, s)
         else (let d = rf_data (rf_files s ! nat idx)
               in Option.bind (if d \<noteq> 0 then kfree d (rf_heap s) else Some (rf_heap s)) (\<lambda>h.
                    Some (0, upd_file (nat idx) (\<lambda>f. f\<lparr>rf_in_use := False\<rparr>) (s\<lparr>rf_heap := h\<rparr>)))))"

section \<open>Contents\<close>

definition ramfs_open_fd :: "int \<Rightarrow> ramfs \<Rightarrow> bool" where
  "ramfs_open_fd fd s \<longleftrightarrow> \<not> (fd < 0 \<or> fd \<ge> int MAX_FILES \<or> \<not> rf_in_use (rf_files s ! nat fd))"

text \<open>\<^verbatim>\<open>new_data[i] = data[i]\<close> for the \<open>k\<close> indices from \<open>i\<close> on.\<close>

fun ramfs_copy :: "u64 \<Rightarrow> u64 \<Rightarrow> nat \<Rightarrow> nat \<Rightarrow> mem \<Rightarrow> mem" where
  "ramfs_copy dst src i 0 m = m"
| "ramfs_copy dst src i (Suc k) m =
     ramfs_copy dst src (Suc i) k (m(dst + of_nat i := m (src + of_nat i)))"

text \<open>The growth loop. The flag is false when an allocation failed and the write is given up.\<close>

partial_function (option) ramfs_grow :: "nat \<Rightarrow> u32 \<Rightarrow> ramfs \<Rightarrow> (bool \<times> ramfs) option" where
  "ramfs_grow fd sz s =
     (let f = rf_files s ! fd
      in if rf_size f + sz > rf_capacity f then
           (let new_cap = rf_capacity f * 2
            in Option.bind (kmalloc (ucast new_cap) (rf_heap s)) (\<lambda>(new_data, h).
                 if new_data = 0 then Some (False, s\<lparr>rf_heap := h\<rparr>)
                 else
                   (let h = h\<lparr>kh_mem := ramfs_copy new_data (rf_data f) 0 (unat (rf_size f)) (kh_mem h)\<rparr>
                    in Option.bind (if rf_data f \<noteq> 0 then kfree (rf_data f) h else Some h) (\<lambda>h.
                         ramfs_grow fd sz
                           (upd_file fd (\<lambda>f. f\<lparr>rf_data := new_data, rf_capacity := new_cap\<rparr>)
                              (s\<lparr>rf_heap := h\<rparr>))))))
         else Some (True, s))"

text \<open>\<^verbatim>\<open>data[size + i] = src[i]\<close>: the index is a 32-bit sum.\<close>

fun ramfs_store :: "u64 \<Rightarrow> u32 \<Rightarrow> u8 list \<Rightarrow> mem \<Rightarrow> mem" where
  "ramfs_store data pos [] m = m"
| "ramfs_store data pos (b # bs) m = ramfs_store data (pos + 1) bs (m(data + ucast pos := b))"

definition ramfs_write :: "int \<Rightarrow> u8 list \<Rightarrow> ramfs \<Rightarrow> (int \<times> ramfs) option" where
  "ramfs_write fd src s =
     (let sz = of_nat (length src) :: u32
      in if \<not> ramfs_open_fd fd s then Some (-1, s)
         else Option.bind (ramfs_grow (nat fd) sz s) (\<lambda>(ok, s).
                if \<not> ok then Some (-1, s)
                else
                  (let f = rf_files s ! nat fd;
                       s = s\<lparr>rf_heap := (rf_heap s)
                             \<lparr>kh_mem := ramfs_store (rf_data f) (rf_size f) src (kh_mem (rf_heap s))\<rparr>\<rparr>
                   in Some (sint sz, upd_file (nat fd) (\<lambda>f. f\<lparr>rf_size := rf_size f + sz\<rparr>) s))))"

definition ramfs_read :: "int \<Rightarrow> u32 \<Rightarrow> u32 \<Rightarrow> ramfs \<Rightarrow> int \<times> u8 list" where
  "ramfs_read fd sz offset s =
     (if \<not> ramfs_open_fd fd s then (-1, [])
      else
        (let f = rf_files s ! nat fd
         in if offset \<ge> rf_size f then (0, [])
            else
              (let to_read = (if offset + sz > rf_size f then rf_size f - offset else sz)
               in (sint to_read,
                   map (\<lambda>i. kh_mem (rf_heap s) (rf_data f + ucast (offset + of_nat i))) [0..<unat to_read]))))"

definition ramfs_size :: "int \<Rightarrow> ramfs \<Rightarrow> u32" where
  "ramfs_size fd s = (if \<not> ramfs_open_fd fd s then 0 else rf_size (rf_files s ! nat fd))"

definition ramfs_is_dir :: "int \<Rightarrow> ramfs \<Rightarrow> int" where
  "ramfs_is_dir fd s =
     (if fd < 0 \<or> fd \<ge> int MAX_FILES then 0 else if rf_is_directory (rf_files s ! nat fd) then 1 else 0)"

definition ramfs_name :: "int \<Rightarrow> ramfs \<Rightarrow> string option" where
  "ramfs_name fd s = (if fd < 0 \<or> fd \<ge> int MAX_FILES then None else Some (rf_name (rf_files s ! nat fd)))"

text \<open>The calls \<open>ramfs_list\<close> makes of its callback, in order.\<close>

definition ramfs_list :: "ramfs \<Rightarrow> (string \<times> int \<times> u32) list" where
  "ramfs_list s =
     map (\<lambda>f. (rf_name f, if rf_is_directory f then 1 else 0, rf_size f)) (filter rf_in_use (rf_files s))"

definition ramfs_get_file_count :: "ramfs \<Rightarrow> int" where
  "ramfs_get_file_count s = int (length (filter rf_in_use (rf_files s)))"

record ramfs_stats =
  total_capacity :: u64
  used_bytes_stat :: u64
  free_bytes_stat :: u64
  allocated_bytes :: u64
  file_count :: u32
  dir_count :: u32

fun ramfs_stats_step :: "ramfile \<Rightarrow> u64 \<times> u64 \<times> u32 \<times> u32 \<Rightarrow> u64 \<times> u64 \<times> u32 \<times> u32" where
  "ramfs_stats_step f (used, allocated, fcount, dirs) =
     (if \<not> rf_in_use f then (used, allocated, fcount, dirs)
      else if rf_is_directory f then (used, allocated, fcount + 1, dirs + 1)
      else (used + ucast (rf_size f), allocated + ucast (rf_capacity f), fcount + 1, dirs))"

definition ramfs_get_stats :: "ramfs \<Rightarrow> ramfs_stats" where
  "ramfs_get_stats s =
     (let (used, allocated, fcount, dirs) = fold ramfs_stats_step (rf_files s) (0, 0, 0, 0)
      in \<lparr>total_capacity = RAMFS_TOTAL_CAPACITY, used_bytes_stat = used,
          free_bytes_stat = (if used < RAMFS_TOTAL_CAPACITY then RAMFS_TOTAL_CAPACITY - used else 0),
          allocated_bytes = allocated, file_count = fcount, dir_count = dirs\<rparr>)"

section \<open>Invariant\<close>

definition cap_ok :: "u32 \<Rightarrow> bool" where
  "cap_ok c \<longleftrightarrow> c = 0 \<or> (\<exists>k \<le> 23. unat c = 256 * 2 ^ k)"

definition ramfile_ok :: "ramfile \<Rightarrow> bool" where
  "ramfile_ok f \<longleftrightarrow>
     length (rf_name f) = MAX_FILENAME \<and> cap_ok (rf_capacity f) \<and>
     (rf_in_use f \<longrightarrow> NUL \<in> set (rf_name f) \<and> rf_size f \<le> rf_capacity f)"

definition ramfs_inv :: "ramfs \<Rightarrow> bool" where
  "ramfs_inv s \<longleftrightarrow> length (rf_files s) = MAX_FILES \<and> list_all ramfile_ok (rf_files s)"

lemma ramfs_inv_nth: "ramfs_inv s \<Longrightarrow> i < MAX_FILES \<Longrightarrow> ramfile_ok (rf_files s ! i)"
  by (simp add: ramfs_inv_def list_all_length)

lemma ramfs_inv_upd:
  "ramfs_inv s \<Longrightarrow> rf_files s' = (rf_files s)[i := f] \<Longrightarrow> (i < MAX_FILES \<Longrightarrow> ramfile_ok f) \<Longrightarrow> ramfs_inv s'"
  by (cases "i < MAX_FILES") (auto simp: ramfs_inv_def list_all_length nth_list_update list_update_beyond)

lemma ramfs_inv_heap [simp]: "ramfs_inv (s\<lparr>rf_heap := h\<rparr>) = ramfs_inv s"
  by (simp add: ramfs_inv_def)

lemma cap_ok_double:
  assumes "cap_ok c" "c * 2 \<noteq> 0"
  shows "cap_ok (c * 2) \<and> c \<le> c * 2"
proof -
  obtain k where k: "k \<le> 23" "unat c = 256 * 2 ^ k" using assms by (auto simp: cap_ok_def)
  have c2: "unat (c * 2) = (256 * 2 ^ Suc k) mod 2 ^ 32" using k by (simp add: unat_word_ariths mult_ac)
  have "k \<noteq> 23" using assms(2) c2 by (auto simp: word_unat_eq_iff)
  with k have lt: "k \<le> 22" by simp
  then have "(2 :: nat) ^ Suc k \<le> 2 ^ 23" by (intro power_increasing) simp_all
  then have "unat (c * 2) = 256 * 2 ^ Suc k" using c2 by simp
  then show ?thesis using k lt by (auto simp: cap_ok_def word_le_nat_alt intro: exI [of _ "Suc k"])
qed

lemma cap_ok_256: "cap_ok 256"
  by (auto simp: cap_ok_def intro: exI [of _ 0])

lemma copy_name_ok:
  assumes "length n = MAX_FILENAME"
  shows "length (copy_bounded (MAX_FILENAME - 1) n 0 name) = MAX_FILENAME"
    "NUL \<in> set (copy_bounded (MAX_FILENAME - 1) n 0 name)"
  using assms by (simp_all add: copy_bounded_eq)

lemma ramfs_free_slot_Some:
  assumes "ramfs_free_slot s = Some i"
  shows "0 < i" "i < length (rf_files s)" "\<not> rf_in_use (rf_files s ! i)"
  using assms by (auto simp: ramfs_free_slot_def nth_tl first_index_Some_iff)

lemma ramfs_init_inv:
  assumes "length (rf_files s) = MAX_FILES" "\<And>f. f \<in> set (rf_files s) \<Longrightarrow> length (rf_name f) = MAX_FILENAME"
  shows "ramfs_inv (ramfs_init s)"
proof -
  have "ramfile_ok (map (\<lambda>f. f\<lparr>rf_in_use := False, rf_data := 0, rf_size := 0, rf_capacity := 0,
      rf_is_directory := False\<rparr>) (rf_files s) ! i)" if "i < MAX_FILES" for i
    using that assms by (simp add: ramfile_ok_def cap_ok_def)
  moreover have "NUL \<in> set ((rf_name (rf_files s ! 0))[0 := CHR ''/'', 1 := NUL])"
    using assms by (intro set_update_memI) simp
  ultimately show ?thesis
    using assms by (simp add: ramfs_init_def ramfs_inv_def list_all_length nth_list_update ramfile_ok_def cap_ok_def)
qed

lemma ramfs_create_inv:
  assumes "ramfs_inv s" "ramfs_create name s = Some (r, s')"
  shows "ramfs_inv s'"
proof (cases "fs_initialized s \<and> ramfs_free_slot s \<noteq> None")
  case True
  then obtain i where i: "ramfs_free_slot s = Some i" by blast
  note slot = ramfs_free_slot_Some [OF i]
  have ok: "ramfile_ok (rf_files s ! i)" and lt: "i < MAX_FILES"
    using slot assms(1) by (auto simp: ramfs_inv_def list_all_length)
  have "ramfs_inv (upd_file i (\<lambda>f. f\<lparr>rf_name := copy_bounded (MAX_FILENAME - 1) (rf_name f) 0 name, rf_data := p\<rparr>)
      (s\<lparr>rf_heap := h\<rparr>))" for p h
    using ok slot copy_name_ok [of "rf_name (rf_files s ! i)" name] assms(1)
    by (simp add: ramfs_inv_def list_all_length nth_list_update ramfile_ok_def)
  moreover have "ramfs_inv (upd_file i (\<lambda>f. f\<lparr>rf_name := copy_bounded (MAX_FILENAME - 1) (rf_name f) 0 name, rf_data := p,
      rf_capacity := 256, rf_size := 0, rf_is_directory := False, rf_in_use := True\<rparr>) (s\<lparr>rf_heap := h\<rparr>))" for p h
    using ok slot copy_name_ok [of "rf_name (rf_files s ! i)" name] assms(1)
    by (simp add: ramfs_inv_def list_all_length nth_list_update ramfile_ok_def cap_ok_256)
  ultimately show ?thesis
    using assms(2) True i lt assms(1)
    by (auto simp: ramfs_create_def Let_def ramfs_inv_def split: bind_splits if_splits)
qed (use assms in \<open>auto simp: ramfs_create_def split: option.splits if_splits\<close>)

lemma ramfs_mkdir_inv:
  assumes "ramfs_inv s"
  shows "ramfs_inv (snd (ramfs_mkdir name s))"
proof (cases "ramfs_free_slot s")
  case (Some i)
  then have "ramfile_ok (rf_files s ! i)" "i < MAX_FILES"
    using ramfs_free_slot_Some [OF Some] assms by (auto simp: ramfs_inv_def list_all_length)
  then show ?thesis
    using assms Some copy_name_ok [of "rf_name (rf_files s ! i)" name]
    by (auto simp: ramfs_mkdir_def ramfile_ok_def intro: ramfs_inv_upd [OF assms])
qed (use assms in \<open>simp add: ramfs_mkdir_def\<close>)

lemma ramfs_delete_inv:
  assumes "ramfs_inv s" "ramfs_delete name s = Some (r, s')"
  shows "ramfs_inv s'"
  using assms ramfs_inv_nth [OF assms(1)]
  by (auto simp: ramfs_delete_def Let_def ramfile_ok_def split: bind_splits if_splits
      intro: ramfs_inv_upd [OF assms(1)])

lemma kmalloc_zero: "kmalloc 0 h = Some (0, h)"
  by (simp add: kmalloc_def)

text \<open>One turn of the growth loop, and what the loop keeps.\<close>

lemma ramfs_inv_doubled:
  assumes "ramfs_inv s" "fd < MAX_FILES" "rf_capacity (rf_files s ! fd) * 2 \<noteq> 0"
  shows "ramfs_inv (upd_file fd (\<lambda>f. f\<lparr>rf_data := d, rf_capacity := rf_capacity f * 2\<rparr>) (s\<lparr>rf_heap := h\<rparr>))"
proof -
  have "ramfile_ok (rf_files s ! fd)" using ramfs_inv_nth [OF assms(1,2)] .
  then show ?thesis
    using cap_ok_double [of "rf_capacity (rf_files s ! fd)"] assms(1,3)
    by (intro ramfs_inv_upd [OF assms(1), where i = fd and
          f = "(rf_files s ! fd)\<lparr>rf_data := d, rf_capacity := rf_capacity (rf_files s ! fd) * 2\<rparr>"])
      (auto simp: ramfile_ok_def)
qed

definition grown :: "nat \<Rightarrow> u32 \<Rightarrow> ramfs \<Rightarrow> bool \<times> ramfs \<Rightarrow> bool" where
  "grown fd sz s r \<longleftrightarrow> ramfs_inv (snd r) \<and>
     (fst r \<longrightarrow> rf_size (rf_files (snd r) ! fd) + sz \<le> rf_capacity (rf_files (snd r) ! fd)) \<and>
     (\<exists>d c. rf_files (snd r) = (rf_files s)[fd := (rf_files s ! fd)\<lparr>rf_data := d, rf_capacity := c\<rparr>])"

lemma ramfs_grow_inv:
  assumes "ramfs_grow fd sz s = Some r" "ramfs_inv s" "fd < MAX_FILES"
  shows "grown fd sz s r"
proof -
  let ?P = "\<lambda>fd sz s r. ramfs_inv s \<longrightarrow> fd < MAX_FILES \<longrightarrow> grown fd sz s r"
  have "?P fd sz s r"
  proof (rule ramfs_grow.raw_induct [where P = ?P, OF _ assms(1)], goal_cases)
    case (1 grow fd sz s r)
    show ?case
    proof (intro impI)
      assume inv: "ramfs_inv s" and fd: "fd < MAX_FILES"
      let ?f = "rf_files s ! fd"
      have len: "length (rf_files s) = MAX_FILES" using inv by (simp add: ramfs_inv_def)
      have "?f\<lparr>rf_data := rf_data ?f, rf_capacity := rf_capacity ?f\<rparr> = ?f" by simp
      then have same: "\<exists>d c. rf_files s = (rf_files s)[fd := ?f\<lparr>rf_data := d, rf_capacity := c\<rparr>]"
        by (metis list_update_id)
      show "grown fd sz s r"
      proof (cases "rf_capacity ?f < rf_size ?f + sz")
        case False
        then have "r = (True, s)" using 1(2) by (simp add: Let_def)
        then show ?thesis
          using False inv same by (auto simp: grown_def)
      next
        case True
        then obtain p h where p: "kmalloc (ucast (rf_capacity ?f * 2)) (rf_heap s) = Some (p, h)"
          using 1(2) by (auto simp: Let_def split: bind_splits)
        show ?thesis
        proof (cases "p = 0")
          case zero: True
          then have "r = (False, s\<lparr>rf_heap := h\<rparr>)" using 1(2) True p by (simp add: Let_def)
          then show ?thesis
            using inv same by (simp add: grown_def)
        next
          case nz: False
          then have c: "rf_capacity ?f * 2 \<noteq> 0" using p kmalloc_zero by fastforce
          obtain h' where "grow fd sz (upd_file fd (\<lambda>f. f\<lparr>rf_data := p, rf_capacity := rf_capacity f * 2\<rparr>)
              (s\<lparr>rf_heap := h'\<rparr>)) = Some r"
            using 1(2) True p nz by (auto simp: Let_def split: bind_splits)
          then have "grown fd sz (upd_file fd (\<lambda>f. f\<lparr>rf_data := p, rf_capacity := rf_capacity f * 2\<rparr>)
              (s\<lparr>rf_heap := h'\<rparr>)) r"
            using 1(1) ramfs_inv_doubled [OF inv fd c] fd by blast
          then show ?thesis using len fd by (auto simp: grown_def)
        qed
      qed
    qed
  qed
  then show ?thesis using assms by simp
qed

lemma ramfs_write_inv:
  assumes "ramfs_inv s" "ramfs_write fd src s = Some (r, s')"
  shows "ramfs_inv s'"
proof (cases "ramfs_open_fd fd s")
  case True
  then have fd: "nat fd < MAX_FILES" by (auto simp: ramfs_open_fd_def)
  obtain ok s1 where g: "ramfs_grow (nat fd) (of_nat (length src)) s = Some (ok, s1)"
    using assms(2) True by (auto simp: ramfs_write_def Let_def split: bind_splits)
  have inv1: "ramfs_inv s1"
    and cap: "ok \<longrightarrow> rf_size (rf_files s1 ! nat fd) + of_nat (length src) \<le> rf_capacity (rf_files s1 ! nat fd)"
    using ramfs_grow_inv [OF g assms(1) fd] by (simp_all add: grown_def)
  have "ramfile_ok (rf_files s1 ! nat fd)" using ramfs_inv_nth [OF inv1 fd] .
  then show ?thesis
    using assms(2) True g inv1 cap
    by (auto simp: ramfs_write_def Let_def ramfile_ok_def split: if_splits intro: ramfs_inv_upd [OF inv1])
qed (use assms in \<open>auto simp: ramfs_write_def Let_def\<close>)

inductive ramfs_reach :: "ramfs \<Rightarrow> bool" where
  init: "length (rf_files s) = MAX_FILES \<Longrightarrow> list_all (\<lambda>f. length (rf_name f) = MAX_FILENAME) (rf_files s) \<Longrightarrow>
    ramfs_reach (ramfs_init s)"
| create: "ramfs_reach s \<Longrightarrow> ramfs_create name s = Some (r, s') \<Longrightarrow> ramfs_reach s'"
| mkdir: "ramfs_reach s \<Longrightarrow> ramfs_mkdir name s = (r, s') \<Longrightarrow> ramfs_reach s'"
| delete: "ramfs_reach s \<Longrightarrow> ramfs_delete name s = Some (r, s') \<Longrightarrow> ramfs_reach s'"
| "write": "ramfs_reach s \<Longrightarrow> ramfs_write fd src s = Some (r, s') \<Longrightarrow> ramfs_reach s'"

lemma ramfs_reach_ok: "ramfs_reach s \<Longrightarrow> ramfs_inv s"
proof (induction rule: ramfs_reach.induct)
  case (init s)
  then show ?case by (intro ramfs_init_inv) (auto simp: list_all_iff)
next
  case (mkdir s name r s')
  then show ?case using ramfs_mkdir_inv [of s name] by simp
qed (auto intro: ramfs_create_inv ramfs_delete_inv ramfs_write_inv)

section \<open>Names\<close>

lemma ramfs_match_iff: "ramfs_match a b \<longleftrightarrow> cstr a = cstr b"
  by (induction a b rule: ramfs_match.induct) (auto simp: Nil_eq_cstr cstr_eq_Nil)

lemma ramfs_find_None:
  assumes "fs_initialized s"
  shows "ramfs_find name s = -1 \<longleftrightarrow> (\<forall>f \<in> set (rf_files s). rf_in_use f \<longrightarrow> cstr (rf_name f) \<noteq> cstr name)"
proof (cases "first_index (\<lambda>f. rf_in_use f \<and> ramfs_match name (rf_name f)) (rf_files s)")
  case None
  then have "ramfs_find name s = -1" using assms by (simp add: ramfs_find_def)
  with None show ?thesis by (auto simp: first_index_None_iff ramfs_match_iff)
next
  case (Some i)
  then have "ramfs_find name s = int i" using assms by (simp add: ramfs_find_def)
  with Some show ?thesis by (auto simp: first_index_Some_iff ramfs_match_iff dest: nth_mem)
qed

lemma cstr_short: "NUL \<in> set s \<Longrightarrow> length (cstr s) < length s"
  by (induction s) auto

lemma ramfs_find_long:
  assumes "ramfs_inv s" "MAX_FILENAME \<le> length (cstr name)"
  shows "ramfs_find name s = -1"
proof (cases "fs_initialized s")
  case True
  have "length (cstr (rf_name f)) < MAX_FILENAME" if "f \<in> set (rf_files s)" "rf_in_use f" for f
    using assms(1) that cstr_short [of "rf_name f"] by (auto simp: ramfs_inv_def list_all_iff ramfile_ok_def)
  then show ?thesis using assms(2) by (force simp: ramfs_find_None [OF True])
qed (simp add: ramfs_find_def)

lemma ramfs_create_cases:
  assumes "ramfs_create name s = Some (r, s')" "0 \<le> r"
  obtains i p h where "fs_initialized s" "ramfs_free_slot s = Some i" "r = int i" "p \<noteq> 0"
    "kmalloc 256 (rf_heap s) = Some (p, h)" "fs_initialized s'" "rf_heap s' = h"
    "rf_files s' = (rf_files s)[i := (rf_files s ! i)\<lparr>rf_name := copy_bounded (MAX_FILENAME - 1) (rf_name (rf_files s ! i)) 0 name,
       rf_data := p, rf_capacity := 256, rf_size := 0, rf_is_directory := False, rf_in_use := True\<rparr>]"
proof (cases "ramfs_free_slot s")
  case (Some i)
  then show thesis
    using assms ramfs_free_slot_Some [OF Some] that
    by (fastforce simp: ramfs_create_def Let_def split: bind_splits if_splits)
qed (use assms in \<open>auto simp: ramfs_create_def split: if_splits\<close>)

lemma ramfs_create_find_lemma:
  assumes "ramfs_inv s" "ramfs_create name s = Some (r, s')" "0 \<le> r" "ramfs_find name s = -1"
    "length (cstr name) < MAX_FILENAME"
  shows "ramfs_find name s' = r"
proof -
  obtain i p h where c: "fs_initialized s" "ramfs_free_slot s = Some i" "r = int i" "fs_initialized s'"
    "rf_files s' = (rf_files s)[i := (rf_files s ! i)\<lparr>rf_name := copy_bounded (MAX_FILENAME - 1) (rf_name (rf_files s ! i)) 0 name,
       rf_data := p, rf_capacity := 256, rf_size := 0, rf_is_directory := False, rf_in_use := True\<rparr>]"
    by (rule ramfs_create_cases [OF assms(2,3)])
  note slot = ramfs_free_slot_Some [OF c(2)]
  have "length (rf_name (rf_files s ! i)) = MAX_FILENAME"
    using assms(1) slot by (simp add: ramfs_inv_def list_all_length ramfile_ok_def)
  then have name: "cstr (copy_bounded (MAX_FILENAME - 1) (rf_name (rf_files s ! i)) 0 name) = cstr name"
    using assms(5) by (simp add: cstr_copy_bounded_0)
  have old: "rf_in_use (rf_files s ! j) \<longrightarrow> cstr name \<noteq> cstr (rf_name (rf_files s ! j))" if "j < length (rf_files s)" for j
    using assms(4) that nth_mem [OF that] by (force simp: ramfs_find_None [OF c(1)])
  have "first_index (\<lambda>f. rf_in_use f \<and> ramfs_match name (rf_name f)) (rf_files s') = Some i"
    unfolding first_index_Some_iff c(5) using slot name old by (auto simp: ramfs_match_iff)
  then show ?thesis using c by (simp add: ramfs_find_def)
qed

section \<open>Contents\<close>

definition ramfs_contents :: "nat \<Rightarrow> ramfs \<Rightarrow> u8 list" where
  "ramfs_contents i s = rd_bytes (kh_mem (rf_heap s)) (rf_data (rf_files s ! i)) (unat (rf_size (rf_files s ! i)))"

lemma ramfs_store_eq:
  "unat pos + length bs < 4294967296 \<Longrightarrow> ramfs_store d pos bs m = wr_bytes m (d + ucast pos) bs"
proof (induction bs arbitrary: pos m)
  case (Cons b bs)
  then have "unat (pos + 1) = unat pos + 1" by (simp add: unat_word_ariths)
  moreover have "d + ucast (pos + 1) = d + ucast pos + 1" using Cons.prems by (simp add: ucast_plus_1)
  ultimately show ?case using Cons by (simp add: wr_bytes_Cons add.assoc fun_upd_def)
qed simp

lemma ramfs_grow_fits: "rf_size (rf_files s ! fd) + sz \<le> rf_capacity (rf_files s ! fd) \<Longrightarrow> ramfs_grow fd sz s = Some (True, s)"
  by (subst ramfs_grow.simps) (simp add: Let_def not_less [symmetric])

lemma cap_ok_bound: "cap_ok c \<Longrightarrow> unat c \<le> 2147483648"
proof (cases "c = 0")
  case False
  assume "cap_ok c"
  then obtain k where k: "k \<le> 23" "unat c = 256 * 2 ^ k" using False by (auto simp: cap_ok_def)
  then have "(2 :: nat) ^ k \<le> 2 ^ 23" by (intro power_increasing) simp_all
  then show ?thesis using k by simp
qed simp

text \<open>A write into the room that is left.\<close>

lemma ramfs_write_room:
  assumes "ramfs_inv s" "ramfs_open_fd fd s" "length src < 2147483648"
    "unat (rf_size (rf_files s ! nat fd)) + length src \<le> unat (rf_capacity (rf_files s ! nat fd))"
  shows "ramfs_write fd src s = Some (int (length src),
    upd_file (nat fd) (\<lambda>f. f\<lparr>rf_size := rf_size f + of_nat (length src)\<rparr>)
      (s\<lparr>rf_heap := (rf_heap s)\<lparr>kh_mem := wr_bytes (kh_mem (rf_heap s))
         (rf_data (rf_files s ! nat fd) + ucast (rf_size (rf_files s ! nat fd))) src\<rparr>\<rparr>))"
    and "unat (rf_size (rf_files s ! nat fd) + of_nat (length src)) = unat (rf_size (rf_files s ! nat fd)) + length src"
proof -
  let ?f = "rf_files s ! nat fd"
  have fd: "nat fd < MAX_FILES" using assms(2) by (auto simp: ramfs_open_fd_def)
  have cap: "unat (rf_capacity ?f) \<le> 2147483648"
    using ramfs_inv_nth [OF assms(1) fd] cap_ok_bound by (simp add: ramfile_ok_def)
  show sz: "unat (rf_size ?f + of_nat (length src)) = unat (rf_size ?f) + length src"
    using cap assms(3,4) by (simp add: unat_word_ariths unat_of_nat)
  have "ramfs_grow (nat fd) (of_nat (length src)) s = Some (True, s)"
    using assms(4) sz by (intro ramfs_grow_fits) (simp add: word_le_nat_alt)
  moreover have "sint (of_nat (length src) :: u32) = int (length src)"
    using assms(3) by (rule sint_of_nat_u32)
  ultimately show "ramfs_write fd src s = Some (int (length src),
    upd_file (nat fd) (\<lambda>f. f\<lparr>rf_size := rf_size f + of_nat (length src)\<rparr>)
      (s\<lparr>rf_heap := (rf_heap s)\<lparr>kh_mem := wr_bytes (kh_mem (rf_heap s))
         (rf_data (rf_files s ! nat fd) + ucast (rf_size (rf_files s ! nat fd))) src\<rparr>\<rparr>))"
    using assms cap by (simp add: ramfs_write_def Let_def ramfs_store_eq)
qed

lemma ramfs_read_contents:
  assumes "ramfs_open_fd fd s" "unat off + unat n \<le> unat (rf_size (rf_files s ! nat fd))" "unat n < 2147483648"
  shows "ramfs_read fd n off s = (int (unat n), take (unat n) (drop (unat off) (ramfs_contents (nat fd) s)))"
proof -
  let ?f = "rf_files s ! nat fd"
  have lt: "unat (rf_size ?f) < 4294967296" by (rule unat_less_2p32)
  have sum: "unat (off + n) = unat off + unat n" using assms(2) lt by (simp add: unat_word_ariths)
  have sint: "sint n = int (unat n)"
    using sint_of_nat_u32 [OF assms(3)] by simp
  have idx: "ucast (off + of_nat i) = (ucast off + of_nat i :: u64)" if "i < unat n" for i
    using that assms(2) lt by (simp add: word_unat_eq_iff unat_word_ariths unat_of_nat)
  show ?thesis
  proof (cases "off \<ge> rf_size ?f")
    case True
    then have "unat n = 0" using assms(2) by (simp add: word_le_nat_alt)
    then show ?thesis using True assms(1) by (simp add: ramfs_read_def Let_def)
  next
    case False
    then show ?thesis
      using assms sum sint idx
      by (auto simp: ramfs_read_def Let_def word_less_nat_alt ramfs_contents_def rd_bytes_def take_map drop_map
          add_ac intro!: nth_equalityI)
  qed
qed

section \<open>Properties\<close>

definition blank_file :: ramfile where
  "blank_file = \<lparr>rf_name = replicate 32 NUL, rf_data = 0, rf_size = 0, rf_capacity = 0, rf_is_directory = False,
     rf_in_use = False\<rparr>"

definition blank_ramfs :: ramfs where
  "blank_ramfs = \<lparr>rf_files = replicate 64 blank_file, fs_initialized = False, rf_heap = sample_heap\<rparr>"

text \<open>
  C15. The file table stays well formed. In every state that is reached from an initialisation by
  creating, deleting and writing files and making directories, each of the 64 entries has a name
  field of 32 bytes and a capacity that is 0 or a power of two between 256 bytes and 2 GiB, and
  an entry in use has a terminated name and no more bytes than its capacity.
\<close>

theorem ramfs_reach_inv:
  assumes "ramfs_reach s"
  shows "ramfs_inv s"
  by (rule ramfs_reach_ok [OF assms])

theorem ramfs_reach_inv_witness:
  "ramfs_inv (snd (ramfs_mkdir ''tmp'' (ramfs_init blank_ramfs)))"
proof (rule ramfs_reach_inv)
  have "ramfs_reach (ramfs_init blank_ramfs)"
    by (rule ramfs_reach.init) (simp_all add: blank_ramfs_def blank_file_def list_all_iff)
  then show "ramfs_reach (snd (ramfs_mkdir ''tmp'' (ramfs_init blank_ramfs)))"
    by (rule ramfs_reach.mkdir [of _ "''tmp''" "fst (ramfs_mkdir ''tmp'' (ramfs_init blank_ramfs))"]) simp
qed

text \<open>
  C16. A created file is found again exactly when its name fits. If no file of that name is
  there and \<open>ramfs_create\<close> succeeds with slot \<open>r\<close>, \<open>ramfs_find\<close> returns \<open>r\<close> for a name of at
  most 31 characters; a longer name is stored cut off, and \<open>ramfs_find\<close> never finds it.
\<close>

theorem ramfs_create_find:
  assumes "ramfs_inv s" "ramfs_create name s = Some (r, s')" "0 \<le> r" "ramfs_find name s = -1"
  shows "ramfs_find name s' = (if length (cstr name) < MAX_FILENAME then r else -1)"
  using ramfs_create_find_lemma [OF assms] ramfs_find_long [OF ramfs_create_inv [OF assms(1,2)]] by auto

lemma sample_ramfs:
  obtains s' where "ramfs_inv (ramfs_init blank_ramfs)" "ramfs_create ''a'' (ramfs_init blank_ramfs) = Some (1, s')"
    "ramfs_find ''a'' (ramfs_init blank_ramfs) = -1"
proof -
  let ?s = "ramfs_init blank_ramfs"
  have len: "length (rf_files ?s) = 64" by (simp add: ramfs_init_def blank_ramfs_def Let_def)
  have unused: "\<not> rf_in_use (rf_files ?s ! i)" if "0 < i" "i < 64" for i
    using that by (simp add: ramfs_init_def blank_ramfs_def Let_def)
  have root: "cstr (rf_name (rf_files ?s ! 0)) = ''/''"
    by (simp add: ramfs_init_def blank_ramfs_def Let_def blank_file_def numeral_eq_Suc)
  have inv: "ramfs_inv ?s"
    by (rule ramfs_init_inv) (auto simp: blank_ramfs_def blank_file_def)
  have "first_index (\<lambda>f. \<not> rf_in_use f) (tl (rf_files ?s)) = Some 0"
    unfolding first_index_Some_iff using len unused [of 1] by (simp add: nth_tl)
  then have slot: "ramfs_free_slot ?s = Some 1" by (simp add: ramfs_free_slot_def)
  have heap: "rf_heap ?s = sample_heap" by (simp add: ramfs_init_def blank_ramfs_def Let_def)
  have "loose_fit (round16 (unat (256 :: u64))) [(0xFE8, False)]" by (simp add: loose_fit_def round16_def)
  then obtain h where "kmalloc 256 sample_heap = Some (0x10018, h)"
    using kmalloc_effect [OF sample_heap_inv, of 256] by (auto simp: round16_def)
  then obtain s' where "ramfs_create ''a'' ?s = Some (1, s')"
    using slot heap by (simp add: ramfs_create_def Let_def ramfs_init_def)
  moreover have "cstr (rf_name f) \<noteq> ''a''" if f: "f \<in> set (rf_files ?s)" "rf_in_use f" for f
  proof -
    obtain j where "j < 64" "f = rf_files ?s ! j" using f(1) len by (auto simp: in_set_conv_nth)
    then show ?thesis using unused [of j] f(2) root by (cases "j = 0") simp_all
  qed
  then have "ramfs_find ''a'' ?s = -1"
    by (subst ramfs_find_None) (simp_all add: ramfs_init_def Let_def)
  ultimately show thesis using that inv by blast
qed

theorem ramfs_create_find_witness:
  "\<exists>s'. ramfs_create ''a'' (ramfs_init blank_ramfs) = Some (1, s') \<and> ramfs_find ''a'' s' = 1"
proof -
  obtain s' where "ramfs_inv (ramfs_init blank_ramfs)" "ramfs_create ''a'' (ramfs_init blank_ramfs) = Some (1, s')"
    "ramfs_find ''a'' (ramfs_init blank_ramfs) = -1" by (rule sample_ramfs)
  then show ?thesis using ramfs_create_find [of "ramfs_init blank_ramfs" "''a''" 1 s'] by auto
qed

text \<open>
  C17. Reading back what was written. A write that fits into the capacity of an open file appends
  the bytes to its contents and leaves every file whose buffer does not overlap its buffer as it
  was; a read within the new size returns exactly that part of the contents.
\<close>

theorem ramfs_write_read:
  assumes "ramfs_inv s" "ramfs_open_fd fd s" "length src < 2 ^ 31"
    "unat (rf_size (rf_files s ! nat fd)) + length src \<le> unat (rf_capacity (rf_files s ! nat fd))"
  shows "\<exists>s'. ramfs_write fd src s = Some (int (length src), s') \<and>
    ramfs_contents (nat fd) s' = ramfs_contents (nat fd) s @ src \<and>
    (\<forall>g < MAX_FILES. g \<noteq> nat fd \<longrightarrow>
       disjoint_ranges (rf_data (rf_files s ! g)) (unat (rf_size (rf_files s ! g)))
         (rf_data (rf_files s ! nat fd) + ucast (rf_size (rf_files s ! nat fd))) (length src) \<longrightarrow>
       ramfs_contents g s' = ramfs_contents g s) \<and>
    (\<forall>off n. unat off + unat n \<le> length (ramfs_contents (nat fd) s @ src) \<longrightarrow> unat n < 2 ^ 31 \<longrightarrow>
       ramfs_read fd n off s' = (int (unat n), take (unat n) (drop (unat off) (ramfs_contents (nat fd) s @ src))))"
proof -
  let ?f = "rf_files s ! nat fd" and ?m = "kh_mem (rf_heap s)"
  have len: "length (rf_files s) = MAX_FILES" and fd: "nat fd < MAX_FILES"
    using assms(1,2) by (auto simp: ramfs_inv_def ramfs_open_fd_def)
  have src: "length src < 2147483648" using assms(3) by simp
  note wr = ramfs_write_room [OF assms(1,2) src assms(4)]
  define s' where "s' = upd_file (nat fd) (\<lambda>f. f\<lparr>rf_size := rf_size f + of_nat (length src)\<rparr>)
      (s\<lparr>rf_heap := (rf_heap s)\<lparr>kh_mem := wr_bytes ?m (rf_data ?f + ucast (rf_size ?f)) src\<rparr>\<rparr>)"
  have size: "unat (rf_size (rf_files s' ! nat fd)) = length (ramfs_contents (nat fd) s @ src)"
    using wr(2) fd len by (simp add: s'_def ramfs_contents_def)
  have "ucast (rf_size ?f) = (of_nat (unat (rf_size ?f)) :: u64)" by (simp add: word_unat_eq_iff unat_of_nat_u64)
  then have own: "ramfs_contents (nat fd) s' = ramfs_contents (nat fd) s @ src"
    using rd_wr_append [of "unat (rf_size ?f)" src ?m "rf_data ?f"] src unat_less_2p32 [of "rf_size ?f"] wr(2) fd len
    by (simp add: ramfs_contents_def s'_def)
  have "ramfs_contents g s' = ramfs_contents g s" if "g < MAX_FILES" "g \<noteq> nat fd"
    "disjoint_ranges (rf_data (rf_files s ! g)) (unat (rf_size (rf_files s ! g)))
      (rf_data ?f + ucast (rf_size ?f)) (length src)" for g
    using that rd_wr_disjoint [OF that(3)] unat_less_2p32 [of "rf_size (rf_files s ! g)"] by (simp add: ramfs_contents_def s'_def)
  moreover have "ramfs_open_fd fd s'" using assms(2) len fd by (auto simp: ramfs_open_fd_def s'_def)
  then have "ramfs_read fd n off s' = (int (unat n), take (unat n) (drop (unat off) (ramfs_contents (nat fd) s @ src)))"
    if "unat off + unat n \<le> length (ramfs_contents (nat fd) s @ src)" "unat n < 2 ^ 31" for off n
    using ramfs_read_contents [of fd s' off n] that size own by simp
  ultimately show ?thesis using wr(1) own unfolding s'_def by blast
qed

theorem ramfs_write_read_witness:
  "\<exists>s s'. ramfs_create ''a'' (ramfs_init blank_ramfs) = Some (1, s) \<and> ramfs_write 1 [104, 105] s = Some (2, s') \<and>
     ramfs_read 1 1 1 s' = (1, [105])"
proof -
  obtain s where s: "ramfs_inv (ramfs_init blank_ramfs)" "ramfs_create ''a'' (ramfs_init blank_ramfs) = Some (1, s)"
    by (rule sample_ramfs)
  obtain i p where c: "1 = int i" "ramfs_free_slot (ramfs_init blank_ramfs) = Some i"
    "rf_files s = (rf_files (ramfs_init blank_ramfs))[i := (rf_files (ramfs_init blank_ramfs) ! i)
       \<lparr>rf_name := copy_bounded (MAX_FILENAME - 1) (rf_name (rf_files (ramfs_init blank_ramfs) ! i)) 0 ''a'',
       rf_data := p, rf_capacity := 256, rf_size := 0, rf_is_directory := False, rf_in_use := True\<rparr>]"
    by (rule ramfs_create_cases [OF s(2)]) auto
  have f: "rf_in_use (rf_files s ! 1)" "rf_size (rf_files s ! 1) = 0" "rf_capacity (rf_files s ! 1) = 256"
    using c ramfs_free_slot_Some [OF c(2)] by auto
  have "ramfs_open_fd 1 s" "ramfs_contents 1 s = []"
    using f by (simp_all add: ramfs_open_fd_def ramfs_contents_def rd_bytes_def)
  then obtain s' where "ramfs_write 1 [104, 105] s = Some (2, s')" "ramfs_read 1 1 1 s' = (1, [105])"
    using ramfs_write_read [OF ramfs_create_inv [OF s], of 1 "[104, 105]"] f by force
  then show ?thesis using s(2) by blast
qed

text \<open>
  C18. A directory in a recycled slot accepts writes at address 0. \<open>ramfs_mkdir\<close> clears the buffer
  pointer of the slot it takes and leaves the capacity of the file that was deleted there, so
  \<open>ramfs_write\<close> on the directory sees room, succeeds, and stores the bytes from address 0 on.
\<close>

theorem ramfs_mkdir_stale_capacity:
  assumes "ramfs_inv s" "fs_initialized s" "ramfs_free_slot s = Some i"
    "length src \<le> unat (rf_capacity (rf_files s ! i))" "length src < 2 ^ 31"
  shows "\<exists>s'. ramfs_write (int i) src (snd (ramfs_mkdir name s)) = Some (int (length src), s') \<and>
    (\<forall>j < length src. kh_mem (rf_heap s') (of_nat j) = src ! j)"
proof -
  let ?d = "snd (ramfs_mkdir name s)"
  note slot = ramfs_free_slot_Some [OF assms(3)]
  have len: "length (rf_files s) = MAX_FILES" using assms(1) by (simp add: ramfs_inv_def)
  have d: "rf_files ?d ! i = (rf_files s ! i)\<lparr>rf_name := copy_bounded (MAX_FILENAME - 1) (rf_name (rf_files s ! i)) 0 name,
      rf_is_directory := True, rf_in_use := True, rf_size := 0, rf_data := 0\<rparr>"
    using assms(2,3) slot by (simp add: ramfs_mkdir_def)
  have "ramfs_open_fd (int i) ?d" using slot len d by (simp add: ramfs_open_fd_def)
  note wr = ramfs_write_room(1) [OF ramfs_mkdir_inv [OF assms(1)] this]
  show ?thesis
    using wr [of src] assms(4,5) d by (auto simp: wr_bytes_def unat_of_nat_u64)
qed

theorem ramfs_mkdir_stale_capacity_witness:
  "\<exists>s'. ramfs_write 1 [1, 2] (snd (ramfs_mkdir ''d'' (upd_file 1 (\<lambda>f. f\<lparr>rf_capacity := 256\<rparr>) (ramfs_init blank_ramfs))))
     = Some (2, s') \<and> kh_mem (rf_heap s') 1 = 2"
proof -
  let ?i = "ramfs_init blank_ramfs"
  let ?s = "upd_file 1 (\<lambda>f. f\<lparr>rf_capacity := 256\<rparr>) ?i"
  have inv: "ramfs_inv ?i" by (rule ramfs_init_inv) (auto simp: blank_ramfs_def blank_file_def)
  have len: "length (rf_files ?i) = 64" using inv by (simp add: ramfs_inv_def)
  have unused: "\<not> rf_in_use (rf_files ?i ! 1)" by (simp add: ramfs_init_def blank_ramfs_def Let_def blank_file_def)
  have "ramfs_inv ?s"
    by (rule ramfs_inv_upd [OF inv, of _ 1 "(rf_files ?i ! 1)\<lparr>rf_capacity := 256\<rparr>"])
      (use ramfs_inv_nth [OF inv, of 1] unused in \<open>auto simp: ramfile_ok_def cap_ok_256\<close>)
  moreover have "fs_initialized ?s" by (simp add: ramfs_init_def Let_def)
  moreover have "first_index (\<lambda>f. \<not> rf_in_use f) (tl (rf_files ?s)) = Some 0"
    unfolding first_index_Some_iff using len unused by (simp add: nth_tl)
  then have "ramfs_free_slot ?s = Some 1" by (simp add: ramfs_free_slot_def)
  moreover have "rf_capacity (rf_files ?s ! 1) = 256" using len by simp
  ultimately obtain s' where "ramfs_write (int 1) [1, 2] (snd (ramfs_mkdir ''d'' ?s)) = Some (2, s')"
    "\<forall>j < 2. kh_mem (rf_heap s') (of_nat j) = [1, 2] ! j"
    using ramfs_mkdir_stale_capacity [of ?s 1 "[1, 2]" "''d''"] by auto
  then show ?thesis by (auto simp: less_2_cases_iff dest: spec [of _ 1])
qed

end
