(* ===== verification/Pipe.thy ===== *)
theory Pipe
  imports Interfaces
begin

text \<open>
  The pipes of \<^verbatim>\<open>src/fs/vfs.c\<close>: a ring buffer of 4096 bytes per pipe and the number of open
  ends. The indices stay below twice the buffer size, so they are natural numbers. A caller's
  buffer is the list of its bytes.
\<close>

section \<open>The ring buffer\<close>

abbreviation VFS_PIPE_BUF_SIZE :: nat where "VFS_PIPE_BUF_SIZE \<equiv> 4096"
abbreviation VFS_MAX_PIPES :: nat where "VFS_MAX_PIPES \<equiv> 16"

record vfs_pipe =
  p_buf :: "u8 list"
  p_head :: nat
  p_tail :: nat
  p_count :: nat
  readers :: int
  writers :: int

fun pipe_store :: "nat \<Rightarrow> nat \<Rightarrow> u8 list \<Rightarrow> u8 list \<Rightarrow> u8 list" where
  "pipe_store head i [] buf = buf"
| "pipe_store head i (b # bs) buf = pipe_store head (Suc i) bs (buf[(head + i) mod VFS_PIPE_BUF_SIZE := b])"

text \<open>Reading from and writing to one pipe: the bytes transferred and the new pipe.\<close>

definition pipe_get :: "nat \<Rightarrow> vfs_pipe \<Rightarrow> u8 list \<times> vfs_pipe" where
  "pipe_get sz p =
     (if sz = 0 \<or> p_count p = 0 then ([], p)
      else
        (let n = (if sz < p_count p then sz else p_count p)
         in (map (\<lambda>i. p_buf p ! ((p_tail p + i) mod VFS_PIPE_BUF_SIZE)) [0..<n],
             p\<lparr>p_tail := (p_tail p + n) mod VFS_PIPE_BUF_SIZE, p_count := p_count p - n\<rparr>)))"

definition pipe_put :: "u8 list \<Rightarrow> vfs_pipe \<Rightarrow> nat \<times> vfs_pipe" where
  "pipe_put src p =
     (if src = [] \<or> p_count p \<ge> VFS_PIPE_BUF_SIZE then (0, p)
      else
        (let space = VFS_PIPE_BUF_SIZE - p_count p;
             n = (if length src > space then space else length src)
         in (n, p\<lparr>p_buf := pipe_store (p_head p) 0 (take n src) (p_buf p),
                 p_head := (p_head p + n) mod VFS_PIPE_BUF_SIZE, p_count := p_count p + n\<rparr>)))"

section \<open>The ring buffer as a queue\<close>

definition pipe_ok :: "vfs_pipe \<Rightarrow> bool" where
  "pipe_ok p \<longleftrightarrow> length (p_buf p) = VFS_PIPE_BUF_SIZE \<and> p_tail p < VFS_PIPE_BUF_SIZE \<and>
     p_count p \<le> VFS_PIPE_BUF_SIZE \<and> p_head p = (p_tail p + p_count p) mod VFS_PIPE_BUF_SIZE"

definition pipe_contents :: "vfs_pipe \<Rightarrow> u8 list" where
  "pipe_contents p = map (\<lambda>i. p_buf p ! ((p_tail p + i) mod VFS_PIPE_BUF_SIZE)) [0..<p_count p]"

lemma length_pipe_contents [simp]: "length (pipe_contents p) = p_count p"
  by (simp add: pipe_contents_def)

lemma length_pipe_store [simp]: "length (pipe_store h i bs buf) = length buf"
  by (induction bs arbitrary: i buf) auto

lemma mod_inj_4096:
  assumes "i < 4096" "j < 4096" "(t + i) mod 4096 = (t + j) mod (4096 :: nat)"
  shows "i = j"
proof -
  have "b = a" if "a \<le> b" "b < 4096" "(t + b) mod 4096 = (t + a) mod (4096 :: nat)" for a b
  proof -
    have "4096 dvd b - a" using that mod_eq_dvd_iff_nat [of "t + a" "t + b" 4096] by simp
    then show ?thesis using that dvd_imp_le [of 4096 "b - a"] by (cases "b - a = 0") auto
  qed
  then show ?thesis using assms(1,2) assms(3) [symmetric] assms(3) nat_le_linear [of i j] by blast
qed

lemma nth_pipe_store:
  assumes "length buf = 4096" "k < 4096" "i + length bs \<le> 4096"
  shows "pipe_store h i bs buf ! ((h + k) mod 4096) =
    (if i \<le> k \<and> k < i + length bs then bs ! (k - i) else buf ! ((h + k) mod 4096))"
  using assms
proof (induction bs arbitrary: i buf)
  case (Cons b bs)
  have "(buf[(h + i) mod 4096 := b]) ! ((h + k) mod 4096) = (if k = i then b else buf ! ((h + k) mod 4096))"
    using Cons.prems mod_inj_4096 [of i k h] by (auto simp: nth_list_update)
  then show ?case
    using Cons.IH [of "buf[(h + i) mod 4096 := b]" "Suc i"] Cons.prems
    by (auto simp: nth_Cons')
qed auto

lemma pipe_put_contents:
  assumes "pipe_ok p"
  shows "pipe_ok (snd (pipe_put src p))"
    and "pipe_contents (snd (pipe_put src p)) = pipe_contents p @ take (VFS_PIPE_BUF_SIZE - p_count p) src"
    and "fst (pipe_put src p) = min (length src) (VFS_PIPE_BUF_SIZE - p_count p)"
proof -
  let ?q = "snd (pipe_put src p)" and ?n = "min (length src) (VFS_PIPE_BUF_SIZE - p_count p)"
  show "fst (pipe_put src p) = ?n" by (auto simp: pipe_put_def Let_def)
  consider "src = [] \<or> p_count p = VFS_PIPE_BUF_SIZE" | "src \<noteq> []" "p_count p < VFS_PIPE_BUF_SIZE"
    using assms unfolding pipe_ok_def by linarith
  then have "pipe_ok ?q \<and> pipe_contents ?q = pipe_contents p @ take (VFS_PIPE_BUF_SIZE - p_count p) src"
  proof cases
    case 1
    then show ?thesis using assms by (auto simp: pipe_put_def)
  next
    case 2
    have q: "?q = p\<lparr>p_buf := pipe_store (p_head p) 0 (take ?n src) (p_buf p),
        p_head := (p_head p + ?n) mod VFS_PIPE_BUF_SIZE, p_count := p_count p + ?n\<rparr>"
      using 2 by (simp add: pipe_put_def Let_def min_def)
    have H: "length (p_buf p) = 4096" "p_head p = (p_tail p + p_count p) mod 4096"
      using assms by (simp_all add: pipe_ok_def)
    have n: "p_count p + ?n \<le> 4096" using 2 by simp
    have nth: "p_buf ?q ! ((p_tail p + i) mod 4096) = (pipe_contents p @ take ?n src) ! i" if "i < p_count p + ?n" for i
    proof (cases "i < p_count p")
      case True
      define k where "k = 4096 - p_count p + i"
      have k: "k < 4096" "\<not> k < ?n" using True 2 by (auto simp: k_def)
      have "(p_head p + k) mod 4096 = (p_tail p + p_count p + k) mod 4096"
        by (simp only: H(2) mod_add_left_eq)
      also have "p_tail p + p_count p + k = p_tail p + i + 4096" using 2 by (simp add: k_def)
      finally have "(p_tail p + i) mod 4096 = (p_head p + k) mod 4096" by (simp only: mod_add_self2)
      then show ?thesis
        using True n nth_pipe_store [OF H(1) k(1), of 0 "take ?n src" "p_head p"] k(2)
        by (auto simp: q nth_append pipe_contents_def)
    next
      case False
      define k where "k = i - p_count p"
      have k: "k < 4096" "k < ?n" "i = p_count p + k" using False that n by (auto simp: k_def)
      have "(p_head p + k) mod 4096 = (p_tail p + p_count p + k) mod 4096"
        by (simp only: H(2) mod_add_left_eq)
      then have "(p_tail p + i) mod 4096 = (p_head p + k) mod 4096" by (simp only: k(3) add.assoc)
      then show ?thesis
        using nth_pipe_store [OF H(1) k(1), of 0 "take ?n src" "p_head p"] k(2,3) by (simp add: q nth_append)
    qed
    have "pipe_contents ?q = pipe_contents p @ take ?n src"
      using nth by (intro nth_equalityI) (auto simp: q pipe_contents_def)
    moreover have "take ?n src = take (VFS_PIPE_BUF_SIZE - p_count p) src" by (simp add: min_def)
    moreover have "pipe_ok ?q" using assms n by (simp add: q pipe_ok_def mod_add_left_eq mod_add_right_eq add_ac)
    ultimately show ?thesis by simp
  qed
  then show "pipe_ok ?q" "pipe_contents ?q = pipe_contents p @ take (VFS_PIPE_BUF_SIZE - p_count p) src" by simp_all
qed

lemma pipe_get_contents:
  assumes "pipe_ok p"
  shows "pipe_ok (snd (pipe_get sz p))"
    and "pipe_contents (snd (pipe_get sz p)) = drop sz (pipe_contents p)"
    and "fst (pipe_get sz p) = take sz (pipe_contents p)"
proof -
  let ?q = "snd (pipe_get sz p)"
  define n r where "n = min sz (p_count p)" and "r = p_count p - n"
  have c: "p_count p = n + r" by (simp add: n_def r_def)
  have q: "?q = p\<lparr>p_tail := (p_tail p + n) mod 4096, p_count := r\<rparr>"
    using assms by (auto simp: pipe_get_def Let_def min_def pipe_ok_def n_def r_def)
  show "pipe_ok ?q"
    using assms by (simp add: q pipe_ok_def c mod_add_left_eq mod_add_right_eq add_ac)
  show "pipe_contents ?q = drop sz (pipe_contents p)"
  proof (rule nth_equalityI)
    show "length (pipe_contents ?q) = length (drop sz (pipe_contents p))" by (simp add: q r_def n_def min_def)
    fix i
    assume "i < length (pipe_contents ?q)"
    then have i: "i < r" "sz + i < p_count p" "n = sz" by (auto simp: q r_def n_def min_def split: if_splits)
    have "((p_tail p + n) mod 4096 + i) mod 4096 = (p_tail p + (sz + i)) mod 4096"
      using i(3) by (simp only: mod_add_left_eq add.assoc)
    then show "pipe_contents ?q ! i = drop sz (pipe_contents p) ! i"
      using i by (simp add: q pipe_contents_def)
  qed
  show "fst (pipe_get sz p) = take sz (pipe_contents p)"
    by (intro nth_equalityI) (auto simp: pipe_get_def Let_def pipe_contents_def)
qed

text \<open>Byte by byte, a pipe is a queue.\<close>

definition pipe_enq :: "u8 \<Rightarrow> vfs_pipe \<Rightarrow> vfs_pipe" where
  "pipe_enq b p = snd (pipe_put [b] p)"

definition pipe_deq :: "vfs_pipe \<Rightarrow> u8 option \<times> vfs_pipe" where
  "pipe_deq p = (case pipe_get 1 p of ([], q) \<Rightarrow> (None, q) | (b # _, q) \<Rightarrow> (Some b, q))"

interpretation pipe: fifo pipe_enq pipe_deq "\<lambda>p q. pipe_ok p \<and> pipe_contents p = q" "\<lambda>b p q. length q < VFS_PIPE_BUF_SIZE"
proof unfold_locales
  fix s q x
  assume s: "pipe_ok s \<and> pipe_contents s = q" and "length q < VFS_PIPE_BUF_SIZE"
  then have "p_count s < VFS_PIPE_BUF_SIZE" by (metis length_pipe_contents)
  then show "pipe_ok (pipe_enq x s) \<and> pipe_contents (pipe_enq x s) = q @ [x]"
    using pipe_put_contents [of s "[x]"] s by (simp add: pipe_enq_def)
next
  fix s x q
  assume s: "pipe_ok s \<and> pipe_contents s = x # q"
  then show "fst (pipe_deq s) = Some x \<and> pipe_ok (snd (pipe_deq s)) \<and> pipe_contents (snd (pipe_deq s)) = q"
    using pipe_get_contents [of s 1] by (cases "pipe_get 1 s") (auto simp: pipe_deq_def)
next
  fix s
  assume s: "pipe_ok s \<and> pipe_contents s = []"
  then have "p_count s = 0" using length_pipe_contents [of s] by simp
  then show "pipe_deq s = (None, s)" by (simp add: pipe_deq_def pipe_get_def)
qed

section \<open>Properties\<close>

datatype pipe_op = Put "u8 list" | Get nat

text \<open>A run of reads and writes: the bytes accepted, the bytes delivered, the pipe after it.\<close>

fun pipe_run :: "pipe_op list \<Rightarrow> vfs_pipe \<Rightarrow> u8 list \<times> u8 list \<times> vfs_pipe" where
  "pipe_run [] p = ([], [], p)"
| "pipe_run (Put src # ops) p =
     (let (n, p1) = pipe_put src p; (acc, out, p2) = pipe_run ops p1 in (take n src @ acc, out, p2))"
| "pipe_run (Get sz # ops) p =
     (let (bs, p1) = pipe_get sz p; (acc, out, p2) = pipe_run ops p1 in (acc, bs @ out, p2))"

text \<open>
  C19. Pipes neither lose, duplicate nor reorder bytes. Over any interleaving of writes and reads
  on a pipe, the bytes buffered at the start followed by those the writes reported as accepted
  are the bytes the reads delivered followed by those buffered at the end; the ring buffer stays
  well formed, so at most 4096 bytes are ever buffered.
\<close>

theorem pipe_run_fifo:
  assumes "pipe_ok p" and "pipe_run ops p = (acc, out, q)"
  shows "pipe_contents p @ acc = out @ pipe_contents q \<and> pipe_ok q \<and> length (pipe_contents q) \<le> VFS_PIPE_BUF_SIZE"
proof -
  have "pipe_contents p @ acc = out @ pipe_contents q \<and> pipe_ok q"
    using assms
  proof (induction ops arbitrary: p acc out)
    case (Cons op ops)
    show ?case
    proof (cases op)
      case (Put src)
      let ?p = "snd (pipe_put src p)"
      obtain acc' where run: "pipe_run ops ?p = (acc', out, q)" "acc = take (fst (pipe_put src p)) src @ acc'"
        using Cons.prems(2) Put by (cases "pipe_run ops ?p") (auto simp: split_beta Let_def)
      note put = pipe_put_contents [OF Cons.prems(1), of src]
      have "take (fst (pipe_put src p)) src = take (VFS_PIPE_BUF_SIZE - p_count p) src"
        by (simp add: put(3) min_def)
      then show ?thesis using Cons.IH [OF put(1) run(1)] run(2) put(2) by simp
    next
      case (Get sz)
      let ?p = "snd (pipe_get sz p)"
      obtain out' where run: "pipe_run ops ?p = (acc, out', q)" "out = fst (pipe_get sz p) @ out'"
        using Cons.prems(2) Get by (cases "pipe_run ops ?p") (auto simp: split_beta Let_def)
      note get = pipe_get_contents [OF Cons.prems(1), of sz]
      have "pipe_contents p = fst (pipe_get sz p) @ pipe_contents ?p" by (simp add: get(2,3))
      then show ?thesis using Cons.IH [OF get(1) run(1)] run(2) by simp
    qed
  qed simp
  then show ?thesis by (simp add: pipe_ok_def)
qed

definition sample_pipe :: vfs_pipe where
  "sample_pipe = \<lparr>p_buf = replicate 4096 0, p_head = 0, p_tail = 0, p_count = 0, readers = 1, writers = 1\<rparr>"

theorem pipe_run_fifo_witness:
  "case pipe_run [Put [1, 2, 3], Get 2, Put [4], Get 9] sample_pipe of (acc, out, q) \<Rightarrow>
     pipe_contents sample_pipe @ acc = out @ pipe_contents q"
proof -
  have "pipe_ok sample_pipe" by (simp add: pipe_ok_def sample_pipe_def)
  then show ?thesis
    using pipe_run_fifo [of sample_pipe "[Put [1, 2, 3], Get 2, Put [4], Get 9]"]
    by (cases "pipe_run [Put [1, 2, 3], Get 2, Put [4], Get 9] sample_pipe") (simp del: pipe_run.simps)
qed

end
