(* ===== verification/Hardware.thy ===== *)
theory Hardware
  imports Prelude
begin

text \<open>
  \<^verbatim>\<open>src/drivers/pci.c\<close> and \<^verbatim>\<open>src/drivers/rtc.c\<close>. The devices behind the ports are parameters:
  \<open>cfg\<close> is what the PCI data port returns for an address written to the address port, \<open>cmos\<close>
  what the clock returns for a register number. The wait of \<^verbatim>\<open>rtc_read_time\<close> for the end of an
  update is over when \<open>cmos\<close> is read.
\<close>

section \<open>PCI configuration space\<close>

abbreviation PCI_VENDOR_ID :: u8 where "PCI_VENDOR_ID \<equiv> 0x00"
abbreviation PCI_DEVICE_ID :: u8 where "PCI_DEVICE_ID \<equiv> 0x02"
abbreviation PCI_PROG_IF :: u8 where "PCI_PROG_IF \<equiv> 0x09"
abbreviation PCI_SUBCLASS :: u8 where "PCI_SUBCLASS \<equiv> 0x0A"
abbreviation PCI_CLASS :: u8 where "PCI_CLASS \<equiv> 0x0B"
abbreviation PCI_HEADER_TYPE :: u8 where "PCI_HEADER_TYPE \<equiv> 0x0E"
abbreviation PCI_BAR0 :: u8 where "PCI_BAR0 \<equiv> 0x10"

type_synonym pci_config = "u32 \<Rightarrow> u32"

definition pci_make_addr :: "u8 \<Rightarrow> u8 \<Rightarrow> u8 \<Rightarrow> u8 \<Rightarrow> u32" where
  "pci_make_addr bus device func offset =
     0x80000000 OR push_bit 16 (ucast bus) OR push_bit 11 (ucast device) OR push_bit 8 (ucast func) OR
     ucast (offset AND 0xFC)"

definition pci_read_dword :: "pci_config \<Rightarrow> u8 \<Rightarrow> u8 \<Rightarrow> u8 \<Rightarrow> u8 \<Rightarrow> u32" where
  "pci_read_dword cfg bus device func offset = cfg (pci_make_addr bus device func offset)"

definition pci_read_word :: "pci_config \<Rightarrow> u8 \<Rightarrow> u8 \<Rightarrow> u8 \<Rightarrow> u8 \<Rightarrow> u16" where
  "pci_read_word cfg bus device func offset =
     (let dword = pci_read_dword cfg bus device func (offset AND 0xFC)
      in ucast (drop_bit (unat (offset AND 2) * 8) dword AND 0xFFFF))"

definition pci_read_byte :: "pci_config \<Rightarrow> u8 \<Rightarrow> u8 \<Rightarrow> u8 \<Rightarrow> u8 \<Rightarrow> u8" where
  "pci_read_byte cfg bus device func offset =
     (let dword = pci_read_dword cfg bus device func (offset AND 0xFC)
      in ucast (drop_bit (unat (offset AND 3) * 8) dword AND 0xFF))"

definition pci_write_dword :: "u8 \<Rightarrow> u8 \<Rightarrow> u8 \<Rightarrow> u8 \<Rightarrow> u32 \<Rightarrow> pci_config \<Rightarrow> pci_config" where
  "pci_write_dword bus device func offset v cfg = cfg(pci_make_addr bus device func offset := v)"

definition pci_device_exists :: "pci_config \<Rightarrow> u8 \<Rightarrow> u8 \<Rightarrow> u8 \<Rightarrow> bool" where
  "pci_device_exists cfg bus device func \<longleftrightarrow> pci_read_word cfg bus device func PCI_VENDOR_ID \<noteq> 0xFFFF"

text \<open>The three loops of \<^verbatim>\<open>pci_find_device\<close>; the last argument counts the turns that are left.\<close>

fun pci_scan_funcs :: "pci_config \<Rightarrow> u8 \<Rightarrow> u8 \<Rightarrow> u8 \<Rightarrow> nat \<Rightarrow> nat \<Rightarrow> nat \<Rightarrow> nat \<Rightarrow> (u8 \<times> u8 \<times> u8) option" where
  "pci_scan_funcs cfg cls sub prog bus dev func 0 = None"
| "pci_scan_funcs cfg cls sub prog bus dev func (Suc k) =
     (let b = of_nat bus; d = of_nat dev; f = of_nat func
      in if \<not> pci_device_exists cfg b d f then
           (if func = 0 then None else pci_scan_funcs cfg cls sub prog bus dev (Suc func) k)
         else if pci_read_byte cfg b d f PCI_CLASS = cls \<and> pci_read_byte cfg b d f PCI_SUBCLASS = sub \<and>
                 pci_read_byte cfg b d f PCI_PROG_IF = prog
         then Some (b, d, f)
         else if func = 0 \<and> pci_read_byte cfg b d 0 PCI_HEADER_TYPE AND 0x80 = 0 then None
         else pci_scan_funcs cfg cls sub prog bus dev (Suc func) k)"

fun pci_scan_devs :: "pci_config \<Rightarrow> u8 \<Rightarrow> u8 \<Rightarrow> u8 \<Rightarrow> nat \<Rightarrow> nat \<Rightarrow> nat \<Rightarrow> (u8 \<times> u8 \<times> u8) option" where
  "pci_scan_devs cfg cls sub prog bus dev 0 = None"
| "pci_scan_devs cfg cls sub prog bus dev (Suc k) =
     (case pci_scan_funcs cfg cls sub prog bus dev 0 8 of
        Some r \<Rightarrow> Some r
      | None \<Rightarrow> pci_scan_devs cfg cls sub prog bus (Suc dev) k)"

fun pci_scan_buses :: "pci_config \<Rightarrow> u8 \<Rightarrow> u8 \<Rightarrow> u8 \<Rightarrow> nat \<Rightarrow> nat \<Rightarrow> (u8 \<times> u8 \<times> u8) option" where
  "pci_scan_buses cfg cls sub prog bus 0 = None"
| "pci_scan_buses cfg cls sub prog bus (Suc k) =
     (case pci_scan_devs cfg cls sub prog bus 0 32 of
        Some r \<Rightarrow> Some r
      | None \<Rightarrow> pci_scan_buses cfg cls sub prog (Suc bus) k)"

text \<open>\<open>None\<close> is the result -1; \<open>Some (bus, device, func)\<close> is 0 with the output parameters set.\<close>

definition pci_find_device :: "pci_config \<Rightarrow> u8 \<Rightarrow> u8 \<Rightarrow> u8 \<Rightarrow> (u8 \<times> u8 \<times> u8) option" where
  "pci_find_device cfg cls sub prog = pci_scan_buses cfg cls sub prog 0 256"

definition pci_get_io_bar :: "pci_config \<Rightarrow> u8 \<Rightarrow> u8 \<Rightarrow> u8 \<Rightarrow> int \<Rightarrow> u16" where
  "pci_get_io_bar cfg bus device func bar_index =
     (let offset = PCI_BAR0 + of_int (bar_index * 4);
          bar = pci_read_dword cfg bus device func offset
      in if bar AND 1 = 0 then 0 else ucast (bar AND 0xFFFC))"

section \<open>The clock\<close>

record rtc_time =
  rtc_second :: u8
  rtc_minute :: u8
  rtc_hour :: u8
  rtc_day :: u8
  rtc_month :: u8
  rtc_year :: u8
  rtc_century :: u8

definition bcd_to_bin :: "u8 \<Rightarrow> u8" where
  "bcd_to_bin bcd = (bcd AND 0x0F) + drop_bit 4 bcd * 10"

definition rtc_init :: "(u8 \<Rightarrow> u8) \<Rightarrow> (u8 \<Rightarrow> u8)" where
  "rtc_init cmos = cmos(0x0B := (cmos 0x0B OR 0x02 OR 0x04) AND NOT 0x80)"

definition rtc_read_time :: "(u8 \<Rightarrow> u8) \<Rightarrow> rtc_time" where
  "rtc_read_time cmos =
     (let t = \<lparr>rtc_second = cmos 0x00, rtc_minute = cmos 0x02, rtc_hour = cmos 0x04, rtc_day = cmos 0x07,
              rtc_month = cmos 0x08, rtc_year = cmos 0x09, rtc_century = cmos 0x32\<rparr>;
          reg_b = cmos 0x0B;
          t = (if reg_b AND 0x04 = 0
               then \<lparr>rtc_second = bcd_to_bin (rtc_second t), rtc_minute = bcd_to_bin (rtc_minute t),
                     rtc_hour = bcd_to_bin (rtc_hour t), rtc_day = bcd_to_bin (rtc_day t),
                     rtc_month = bcd_to_bin (rtc_month t), rtc_year = bcd_to_bin (rtc_year t),
                     rtc_century = bcd_to_bin (rtc_century t)\<rparr>
               else t)
      in if reg_b AND 0x02 = 0 \<and> rtc_hour t AND 0x80 \<noteq> 0
         then t\<lparr>rtc_hour := ((rtc_hour t AND 0x7F) + 12) mod 24\<rparr>
         else t)"

section \<open>The device scan\<close>

text \<open>
  A function answers the scan if its device has a function 0 and, beyond function 0, declares
  itself multi-function.
\<close>

definition pci_visible :: "pci_config \<Rightarrow> nat \<Rightarrow> nat \<Rightarrow> nat \<Rightarrow> bool" where
  "pci_visible cfg b d f \<longleftrightarrow>
     pci_device_exists cfg (of_nat b) (of_nat d) 0 \<and> pci_device_exists cfg (of_nat b) (of_nat d) (of_nat f) \<and>
     (f = 0 \<or> pci_read_byte cfg (of_nat b) (of_nat d) 0 PCI_HEADER_TYPE AND 0x80 \<noteq> 0)"

definition pci_matches :: "pci_config \<Rightarrow> u8 \<Rightarrow> u8 \<Rightarrow> u8 \<Rightarrow> u8 \<Rightarrow> u8 \<Rightarrow> u8 \<Rightarrow> bool" where
  "pci_matches cfg cls sub prog b d f \<longleftrightarrow>
     pci_read_byte cfg b d f PCI_CLASS = cls \<and> pci_read_byte cfg b d f PCI_SUBCLASS = sub \<and>
     pci_read_byte cfg b d f PCI_PROG_IF = prog"

definition pci_hit :: "pci_config \<Rightarrow> u8 \<Rightarrow> u8 \<Rightarrow> u8 \<Rightarrow> nat \<Rightarrow> nat \<Rightarrow> nat \<Rightarrow> bool" where
  "pci_hit cfg cls sub prog b d f \<longleftrightarrow>
     pci_visible cfg b d f \<and> pci_matches cfg cls sub prog (of_nat b) (of_nat d) (of_nat f)"

lemma pci_scan_funcs_rest:
  assumes "0 < func" "pci_device_exists cfg (of_nat b) (of_nat d) 0"
    "pci_read_byte cfg (of_nat b) (of_nat d) 0 PCI_HEADER_TYPE AND 0x80 \<noteq> 0"
  shows "case pci_scan_funcs cfg cls sub prog b d func k of
      None \<Rightarrow> \<forall>f. func \<le> f \<longrightarrow> f < func + k \<longrightarrow> \<not> pci_hit cfg cls sub prog b d f
    | Some r \<Rightarrow> \<exists>f. func \<le> f \<and> f < func + k \<and> r = (of_nat b, of_nat d, of_nat f) \<and> pci_hit cfg cls sub prog b d f"
  using assms(1)
proof (induction k arbitrary: func)
  case (Suc k)
  have here: "pci_hit cfg cls sub prog b d func \<longleftrightarrow>
      pci_device_exists cfg (of_nat b) (of_nat d) (of_nat func) \<and>
      pci_matches cfg cls sub prog (of_nat b) (of_nat d) (of_nat func)"
    using assms(2,3) by (simp add: pci_hit_def pci_visible_def)
  have range: "func \<le> f \<and> f < func + Suc k \<longleftrightarrow> f = func \<or> Suc func \<le> f \<and> f < Suc func + k" for f by auto
  show ?case
  proof (cases "pci_hit cfg cls sub prog b d func")
    case True
    then have "pci_scan_funcs cfg cls sub prog b d func (Suc k) = Some (of_nat b, of_nat d, of_nat func)"
      using here by (simp add: Let_def pci_matches_def)
    then show ?thesis using True by auto
  next
    case False
    then have "pci_scan_funcs cfg cls sub prog b d func (Suc k) = pci_scan_funcs cfg cls sub prog b d (Suc func) k"
      using here Suc.prems by (auto simp: Let_def pci_matches_def)
    then show ?thesis
      using Suc.IH [of "Suc func"] False
      by (auto split: option.splits) (metis Suc_leI le_neq_implies_less, metis Suc_leD)
  qed
qed simp

lemma pci_scan_funcs_all:
  "case pci_scan_funcs cfg cls sub prog b d 0 8 of
      None \<Rightarrow> \<forall>f < 8. \<not> pci_hit cfg cls sub prog b d f
    | Some r \<Rightarrow> \<exists>f < 8. r = (of_nat b, of_nat d, of_nat f) \<and> pci_hit cfg cls sub prog b d f"
proof (cases "pci_device_exists cfg (of_nat b) (of_nat d) 0")
  case False
  then show ?thesis by (simp add: numeral_eq_Suc Let_def pci_hit_def pci_visible_def)
next
  case ex: True
  have hit0: "pci_hit cfg cls sub prog b d 0 \<longleftrightarrow> pci_matches cfg cls sub prog (of_nat b) (of_nat d) 0"
    using ex by (simp add: pci_hit_def pci_visible_def)
  have step: "pci_scan_funcs cfg cls sub prog b d 0 8 =
      (if pci_hit cfg cls sub prog b d 0 then Some (of_nat b, of_nat d, 0)
       else if pci_read_byte cfg (of_nat b) (of_nat d) 0 PCI_HEADER_TYPE AND 0x80 = 0 then None
       else pci_scan_funcs cfg cls sub prog b d 1 7)"
    using ex hit0 pci_scan_funcs.simps(2) [of cfg cls sub prog b d 0 7]
    by (simp add: Let_def pci_matches_def)
  show ?thesis
  proof (cases "pci_hit cfg cls sub prog b d 0")
    case True
    then show ?thesis using step by (auto intro: exI [of _ "0 :: nat"])
  next
    case no: False
    show ?thesis
    proof (cases "pci_read_byte cfg (of_nat b) (of_nat d) 0 PCI_HEADER_TYPE AND 0x80 = 0")
      case True
      then have "\<not> pci_hit cfg cls sub prog b d f" for f using no by (cases "f = 0") (simp_all add: pci_hit_def pci_visible_def)
      then show ?thesis using step True no by simp
    next
      case False
      have "f = 0 \<or> 1 \<le> f \<and> f < 1 + 7" if "f < 8" for f :: nat using that by auto
      then show ?thesis
        using step False no pci_scan_funcs_rest [where func = 1 and k = 7 and cfg = cfg and b = b and d = d and cls = cls and sub = sub and prog = prog] ex
        by (auto split: option.splits simp del: pci_scan_funcs.simps)
    qed
  qed
qed

lemma pci_scan_devs_all:
  "case pci_scan_devs cfg cls sub prog b d k of
      None \<Rightarrow> \<forall>d' f. d \<le> d' \<longrightarrow> d' < d + k \<longrightarrow> f < 8 \<longrightarrow> \<not> pci_hit cfg cls sub prog b d' f
    | Some r \<Rightarrow> \<exists>d' f. d \<le> d' \<and> d' < d + k \<and> f < 8 \<and> r = (of_nat b, of_nat d', of_nat f) \<and> pci_hit cfg cls sub prog b d' f"
proof (induction k arbitrary: d)
  case (Suc k)
  show ?case
  proof (cases "pci_scan_funcs cfg cls sub prog b d 0 8")
    case None
    note here = pci_scan_funcs_all [of cfg cls sub prog b d, unfolded None option.case]
    have eq: "pci_scan_devs cfg cls sub prog b d (Suc k) = pci_scan_devs cfg cls sub prog b (Suc d) k" using None by simp
    show ?thesis
    proof (cases "pci_scan_devs cfg cls sub prog b (Suc d) k")
      case rest: None
      have "\<not> pci_hit cfg cls sub prog b d' f" if "d \<le> d'" "d' < d + Suc k" "f < 8" for d' f
        using that here Suc.IH [of "Suc d", unfolded rest option.case] by (cases "d' = d") simp_all
      then show ?thesis unfolding eq rest by simp
    next
      case (Some r)
      then obtain d' f where "Suc d \<le> d'" "d' < Suc d + k" "f < 8" "r = (of_nat b, of_nat d', of_nat f)"
        "pci_hit cfg cls sub prog b d' f"
        using Suc.IH [of "Suc d"] by auto
      then show ?thesis
        unfolding eq Some option.case by (intro exI [of _ d'] exI [of _ f]) simp
    qed
  next
    case (Some r)
    then show ?thesis
      using pci_scan_funcs_all [of cfg cls sub prog b d] by (auto simp del: pci_scan_funcs.simps)
  qed
qed simp

lemma pci_scan_buses_all:
  "case pci_scan_buses cfg cls sub prog b k of
      None \<Rightarrow> \<forall>b' d f. b \<le> b' \<longrightarrow> b' < b + k \<longrightarrow> d < 32 \<longrightarrow> f < 8 \<longrightarrow> \<not> pci_hit cfg cls sub prog b' d f
    | Some r \<Rightarrow> \<exists>b' d f. b \<le> b' \<and> b' < b + k \<and> d < 32 \<and> f < 8 \<and> r = (of_nat b', of_nat d, of_nat f) \<and>
        pci_hit cfg cls sub prog b' d f"
proof (induction k arbitrary: b)
  case (Suc k)
  show ?case
  proof (cases "pci_scan_devs cfg cls sub prog b 0 32")
    case None
    note here = pci_scan_devs_all [where cfg = cfg and cls = cls and sub = sub and prog = prog and b = b and d = 0 and k = 32, unfolded None option.case]
    have eq: "pci_scan_buses cfg cls sub prog b (Suc k) = pci_scan_buses cfg cls sub prog (Suc b) k" using None by simp
    show ?thesis
    proof (cases "pci_scan_buses cfg cls sub prog (Suc b) k")
      case rest: None
      have "\<not> pci_hit cfg cls sub prog b' d f" if "b \<le> b'" "b' < b + Suc k" "d < 32" "f < 8" for b' d f
        using that here Suc.IH [of "Suc b", unfolded rest option.case] by (cases "b' = b") simp_all
      then show ?thesis unfolding eq rest by simp
    next
      case (Some r)
      then obtain b' d f where "Suc b \<le> b'" "b' < Suc b + k" "d < 32" "f < 8" "r = (of_nat b', of_nat d, of_nat f)"
        "pci_hit cfg cls sub prog b' d f"
        using Suc.IH [of "Suc b"] by auto
      then show ?thesis
        unfolding eq Some option.case by (intro exI [of _ b'] exI [of _ d] exI [of _ f]) simp
    qed
  next
    case (Some r)
    then obtain d f where "d < 32" "f < 8" "r = (of_nat b, of_nat d, of_nat f)" "pci_hit cfg cls sub prog b d f"
      using pci_scan_devs_all [where cfg = cfg and cls = cls and sub = sub and prog = prog and b = b and d = 0 and k = 32]
      by (auto simp del: pci_scan_devs.simps)
    moreover have "pci_scan_buses cfg cls sub prog b (Suc k) = Some r" using Some by simp
    ultimately show ?thesis by (simp only: option.case, intro exI [of _ b] exI [of _ d] exI [of _ f]) simp
  qed
qed simp

section \<open>Properties\<close>


text \<open>
  C21. The afternoon in BCD. A clock in BCD and 12-hour mode stores an hour \<open>h\<close> of the afternoon
  as the two digits of \<open>h\<close> with the top bit set. The conversion from BCD comes before the test of
  that bit and moves it into the tens, so \<open>rtc_read_time\<close> returns \<open>80 + h\<close> for it.
\<close>

theorem rtc_read_time_bcd_afternoon:
  assumes "cmos 0x0B AND 0x06 = 0" and "1 \<le> h" "h \<le> 9" and "cmos 0x04 = 0x80 OR of_nat h"
  shows "unat (rtc_hour (rtc_read_time cmos)) = 80 + h"
proof -
  have "cmos 0x0B AND 0x04 = 0"
  proof -
    have "(cmos 0x0B AND 0x06) AND 0x04 = cmos 0x0B AND 0x04" by (simp add: and.assoc)
    then show ?thesis using assms(1) by simp
  qed
  moreover have "h \<in> {1, 2, 3, 4, 5, 6, 7, 8, 9}" using assms(2,3) by auto
  ultimately show ?thesis
    using assms(4) by (auto simp: rtc_read_time_def Let_def bcd_to_bin_def)
qed

theorem rtc_read_time_bcd_afternoon_witness:
  "unat (rtc_hour (rtc_read_time ((\<lambda>_. 0)(0x04 := 0x83)))) = 83"
  using rtc_read_time_bcd_afternoon [of "(\<lambda>_. 0)(0x04 := 0x83)" 3] by simp

end
