(* ===== verification/Vfile.thy ===== *)
theory Vfile
  imports Pmm Kheap Scheduler Kstring Hardware
begin

text \<open>
  \<^verbatim>\<open>src/fs/vfile.c\<close>, the part that does not look at descriptors: the formatting helpers, the
  content generators and the registry of virtual files. An output buffer is the memory from its
  first byte on, a function from offsets to characters, together with the position \<^verbatim>\<open>pos\<close>; a
  store past the size the caller gave is a store at an offset past it.
\<close>

section \<open>Formatting\<close>

type_synonym vbuf = "nat \<Rightarrow> char"
type_synonym out = "vbuf \<times> nat"

abbreviation NL :: char where "NL \<equiv> CHR 0x0A"

definition digit_char :: "nat \<Rightarrow> char" where
  "digit_char d = char_of (48 + d)"

text \<open>The digits of \<^verbatim>\<open>put_dec\<close>, last digit first, as they come into \<^verbatim>\<open>tmp\<close>.\<close>

fun dec_digits :: "nat \<Rightarrow> string" where
  "dec_digits n = (if n > 0 then digit_char (n mod 10) # dec_digits (n div 10) else [])"

declare dec_digits.simps [simp del]

definition put_dec :: "u64 \<Rightarrow> string" where
  "put_dec n = (if n = 0 then ''0'' else rev (dec_digits (unat n)))"

text \<open>\<^verbatim>\<open>append_str(buf + pos, max, src)\<close>: the buffer and the count after the loop.\<close>

fun append_str :: "nat \<Rightarrow> u64 \<Rightarrow> string \<Rightarrow> nat \<Rightarrow> vbuf \<Rightarrow> vbuf \<times> nat" where
  "append_str pos mx [] len buf = (buf, len)"
| "append_str pos mx (c # cs) len buf =
     (if c \<noteq> NUL \<and> of_nat len < mx - 1 then append_str pos mx cs (Suc len) (buf(pos + len := c))
      else (buf, len))"

text \<open>The copy loop of \<^verbatim>\<open>append_dec\<close>, which stops early but still returns the number of digits.\<close>

fun dec_copy :: "nat \<Rightarrow> u64 \<Rightarrow> string \<Rightarrow> nat \<Rightarrow> vbuf \<Rightarrow> vbuf" where
  "dec_copy pos mx [] i buf = buf"
| "dec_copy pos mx (c # cs) i buf =
     (if of_nat i < mx - 1 then dec_copy pos mx cs (Suc i) (buf(pos + i := c)) else buf)"

definition append_dec :: "nat \<Rightarrow> u64 \<Rightarrow> u64 \<Rightarrow> vbuf \<Rightarrow> vbuf \<times> nat" where
  "append_dec pos mx n buf = (let tmp = put_dec n in (dec_copy pos mx tmp 0 buf, length tmp))"

definition hex_char :: "nat \<Rightarrow> char" where
  "hex_char nibble = (if nibble < 10 then char_of (48 + nibble) else char_of (97 + nibble - 10))"

definition nibbles :: "u32 \<Rightarrow> nat list" where
  "nibbles n = map (\<lambda>i. unat (drop_bit (28 - 4 * i) n AND 0xF)) [0..<8]"

definition append_hex :: "nat \<Rightarrow> u64 \<Rightarrow> u32 \<Rightarrow> vbuf \<Rightarrow> vbuf \<times> nat" where
  "append_hex pos mx n buf =
     fold (\<lambda>d (b, p). if int p < sint (ucast mx :: u32) then (b(pos + p := hex_char d), Suc p) else (b, p))
       (nibbles n) (buf(pos := CHR ''0'', pos + 1 := CHR ''x''), 2)"

text \<open>
  The three shapes of statement the generators are made of: \<^verbatim>\<open>pos += append_...(buf + pos,
  max - (size_t)pos, x)\<close> and \<^verbatim>\<open>buf[pos++] = c\<close>.
\<close>

definition app_str :: "u64 \<Rightarrow> string \<Rightarrow> out \<Rightarrow> out" where
  "app_str mx src o1 = (let (b, n) = append_str (snd o1) (mx - of_nat (snd o1)) src 0 (fst o1) in (b, snd o1 + n))"

definition app_dec :: "u64 \<Rightarrow> u64 \<Rightarrow> out \<Rightarrow> out" where
  "app_dec mx n o1 = (let (b, k) = append_dec (snd o1) (mx - of_nat (snd o1)) n (fst o1) in (b, snd o1 + k))"

definition app_hex :: "u64 \<Rightarrow> u32 \<Rightarrow> out \<Rightarrow> out" where
  "app_hex mx n o1 = (let (b, k) = append_hex (snd o1) (mx - of_nat (snd o1)) n (fst o1) in (b, snd o1 + k))"

definition app_chr :: "char \<Rightarrow> out \<Rightarrow> out" where
  "app_chr c o1 = ((fst o1)(snd o1 := c), Suc (snd o1))"

text \<open>A padding loop, \<^verbatim>\<open>for (j = from; j < to && pos < max - 1; j++) buf[pos++] = ' '\<close>.\<close>

fun app_pad :: "u64 \<Rightarrow> nat \<Rightarrow> out \<Rightarrow> out" where
  "app_pad mx 0 o1 = o1"
| "app_pad mx (Suc k) o1 = (if of_nat (snd o1) < mx - 1 then app_pad mx k (app_chr (CHR '' '') o1) else o1)"


section \<open>Content generators\<close>

text \<open>What the generators read of the machine: \<^verbatim>\<open>cpuid\<close>, PCI configuration space, the clock registers.\<close>

record machine =
  hw_cpuid :: "u32 \<Rightarrow> u32 \<times> u32 \<times> u32 \<times> u32"
  hw_pci :: pci_config
  hw_cmos :: "u8 \<Rightarrow> u8"

definition gen_uptime :: "sched \<Rightarrow> u64 \<Rightarrow> vbuf \<Rightarrow> out" where
  "gen_uptime sc mx buf =
     (let ticks = timer_get_ticks sc;
          seconds = ticks div 1000;
          minutes = seconds div 60;
          hours = minutes div 60;
          w = app_chr (CHR ''U'') (buf, 0);
          w = app_str mx ''ptime: '' w;
          w = app_dec mx hours w;
          w = app_str mx ''h '' w;
          w = app_dec mx (minutes mod 60) w;
          w = app_str mx ''m '' w;
          w = app_dec mx (seconds mod 60) w;
          w = app_str mx (''s'' @ [NL]) w;
          w = app_chr (CHR ''T'') w;
          w = app_str mx ''otal seconds: '' w;
          w = app_dec mx seconds w
      in app_str mx [NL] w)"

definition gen_memory :: "pmm \<Rightarrow> u64 \<Rightarrow> vbuf \<Rightarrow> out" where
  "gen_memory pm mx buf =
     (let total = pmm_get_total pm;
          free = pmm_get_free pm;
          used = total - free;
          w = app_str mx ''Total RAM: '' (buf, 0);
          w = app_dec mx (total div (1024 * 1024)) w;
          w = app_str mx ('' MB'' @ [NL]) w;
          w = app_str mx ''Free RAM:  '' w;
          w = app_dec mx (free div (1024 * 1024)) w;
          w = app_str mx ('' MB'' @ [NL]) w;
          w = app_str mx ''Used RAM:  '' w;
          w = app_dec mx (used div (1024 * 1024)) w;
          w = app_str mx ('' MB'' @ [NL]) w;
          w = app_str mx ''Free pages: '' w;
          w = app_dec mx (pmm_get_free_pages pm) w
      in app_str mx [NL] w)"

definition le_chars :: "u32 \<Rightarrow> string" where
  "le_chars r = map (\<lambda>i. char_of (unat (drop_bit (8 * i) r AND 0xFF))) [0..<4]"

definition app_nibbles :: "u32 \<Rightarrow> out \<Rightarrow> out" where
  "app_nibbles r w = fold (\<lambda>d w. app_chr (hex_char d) w) (nibbles r) w"

definition gen_cpu :: "machine \<Rightarrow> u64 \<Rightarrow> vbuf \<Rightarrow> out" where
  "gen_cpu hw mx buf =
     (let (eax, ebx, ecx, edx) = hw_cpuid hw 0;
          w = app_str mx ''Vendor:     '' (buf, 0);
          vendor = le_chars ebx @ le_chars edx @ le_chars ecx @ [NUL];
          w = app_str mx vendor w;
          w = app_str mx [NL] w;
          (b0, b1, b2, b3) = hw_cpuid hw 0x80000002;
          (b4, b5, b6, b7) = hw_cpuid hw 0x80000003;
          (b8, b9, b10, b11) = hw_cpuid hw 0x80000004;
          brand = concat (map le_chars [b0, b1, b2, b3, b4, b5, b6, b7, b8, b9, b10, b11]) @ [NUL];
          w = app_str mx ''Brand:      '' w;
          w = app_str mx brand w;
          w = app_str mx [NL] w;
          (eax, ebx, ecx, edx) = hw_cpuid hw 1;
          w = app_str mx ''Features:   0x'' w;
          w = app_nibbles edx w
      in app_chr NL w)"

definition gen_process_line :: "u64 \<Rightarrow> process \<Rightarrow> out \<Rightarrow> out" where
  "gen_process_line mx p w =
     (if pstate p = PROC_STATE_UNUSED then w
      else
        (let w = app_dec mx (pid p) w;
             w = app_str mx ''  '' w;
             namelen = k_strlen (pname p);
             w = app_str mx (pname p) w;
             w = app_pad mx (14 - namelen) w;
             w = app_str mx (if pstate p = PROC_STATE_RUNNING then ''running'' else ''other'') w
         in app_str mx [NL] w))"

definition gen_processes :: "sched \<Rightarrow> u64 \<Rightarrow> vbuf \<Rightarrow> out" where
  "gen_processes sc mx buf =
     (let w = app_str mx (''PID  Name            State'' @ [NL]) (buf, 0);
          w = app_str mx (''---  --------------  -------'' @ [NL]) w
      in fold (gen_process_line mx) (process_table sc) w)"

definition app_two :: "u64 \<Rightarrow> u8 \<Rightarrow> out \<Rightarrow> out" where
  "app_two mx n w = app_dec mx (ucast n) (if n < 10 then app_chr (CHR ''0'') w else w)"

definition gen_datetime :: "machine \<Rightarrow> u64 \<Rightarrow> vbuf \<Rightarrow> out" where
  "gen_datetime hw mx buf =
     (let t = rtc_read_time (hw_cmos hw);
          w = app_str mx ''Date: '' (buf, 0);
          w = app_dec mx (ucast (rtc_century t)) w;
          w = app_dec mx (ucast (rtc_year t)) w;
          w = app_chr (CHR ''-'') w;
          w = app_two mx (rtc_month t) w;
          w = app_chr (CHR ''-'') w;
          w = app_two mx (rtc_day t) w;
          w = app_str mx [NL] w;
          w = app_str mx ''Time: '' w;
          w = app_two mx (rtc_hour t) w;
          w = app_chr (CHR '':'') w;
          w = app_two mx (rtc_minute t) w;
          w = app_chr (CHR '':'') w;
          w = app_two mx (rtc_second t) w
      in app_str mx [NL] w)"

abbreviation PLAN0_VERSION :: string where "PLAN0_VERSION \<equiv> ''0.4.1''"
abbreviation PLAN0_NAME :: string where "PLAN0_NAME \<equiv> ''Plan 0''"
abbreviation PLAN0_FULL_NAME :: string where "PLAN0_FULL_NAME \<equiv> ''Plan 0 v0.4.1''"
abbreviation PLAN0_ARCH :: string where "PLAN0_ARCH \<equiv> ''x86_64''"

definition gen_version :: "u64 \<Rightarrow> vbuf \<Rightarrow> out" where
  "gen_version mx buf = app_str mx (PLAN0_FULL_NAME @ [NL]) (buf, 0)"

definition gen_hostname :: "string \<Rightarrow> u64 \<Rightarrow> vbuf \<Rightarrow> out" where
  "gen_hostname hostname_buf mx buf = app_chr NL (app_str mx hostname_buf (buf, 0))"

fun strip_newlines :: "string \<Rightarrow> nat \<Rightarrow> nat" where
  "strip_newlines data 0 = 0"
| "strip_newlines data (Suc n) =
     (if data ! n = NL \<or> data ! n = CHR 0x0D then strip_newlines data n else Suc n)"

text \<open>\<^verbatim>\<open>hostname_buf\<close> has 64 bytes. The result is the number of characters kept and the new buffer.\<close>

definition write_hostname :: "string \<Rightarrow> string \<Rightarrow> int \<times> string" where
  "write_hostname data hostname_buf =
     (let n = strip_newlines data (length data);
          n = (if n \<ge> 64 then 63 else n)
      in (int n, (k_memcpy hostname_buf data n)[n := NUL]))"

definition gen_stat :: "sched \<Rightarrow> u64 \<Rightarrow> vbuf \<Rightarrow> out" where
  "gen_stat sc mx buf =
     (let ticks = timer_get_ticks sc;
          w = app_str mx ''cpu '' (buf, 0);
          w = app_chr (CHR '' '') (app_dec mx 0 w);
          w = app_chr (CHR '' '') (app_dec mx 0 w);
          w = app_chr (CHR '' '') (app_dec mx 0 w);
          w = app_chr (CHR '' '') (app_dec mx ticks w);
          w = app_chr (CHR '' '') (app_dec mx 0 w);
          w = app_chr (CHR '' '') (app_dec mx 0 w);
          w = app_chr (CHR '' '') (app_dec mx 0 w);
          w = app_dec mx 0 w;
          w = app_str mx [NL] w;
          w = app_str mx (''btime 0'' @ [NL]) w;
          w = app_str mx ''processes '' w;
          w = app_dec mx (of_nat (length (filter (\<lambda>p. pstate p \<noteq> PROC_STATE_UNUSED) (process_table sc)))) w
      in app_str mx [NL] w)"

text \<open>\<open>None\<close>: a walk over the heap does not end.\<close>

definition gen_heap :: "kheap \<Rightarrow> u64 \<Rightarrow> vbuf \<Rightarrow> out option" where
  "gen_heap h mx buf =
     (case (kheap_get_stats (Some \<lparr>total_size = 0, used_size = 0, free_blocks = 0, largest_free = 0,
              block_count = 0, allocated_blocks = 0\<rparr>) h, kheap_validate h) of
        (Some (Some st), Some corruptions) \<Rightarrow>
          (let w = app_str mx ''Heap total:   '' (buf, 0);
               w = app_str mx ('' bytes'' @ [NL]) (app_dec mx (total_size st) w);
               w = app_str mx ''Heap used:    '' w;
               w = app_str mx ('' bytes'' @ [NL]) (app_dec mx (used_size st) w);
               w = app_str mx ''Heap free:    '' w;
               w = app_str mx ('' bytes'' @ [NL]) (app_dec mx (total_size st - used_size st) w);
               w = app_str mx ''Blocks:       '' w;
               w = app_str mx [NL] (app_dec mx (ucast (block_count st)) w);
               w = app_str mx ''Allocated:    '' w;
               w = app_str mx ('' blocks'' @ [NL]) (app_dec mx (ucast (allocated_blocks st)) w);
               w = app_str mx ''Free blocks:  '' w;
               w = app_str mx [NL] (app_dec mx (free_blocks st) w);
               w = app_str mx ''Largest free: '' w;
               w = app_str mx ('' bytes'' @ [NL]) (app_dec mx (largest_free st) w);
               w = app_str mx ''Integrity:    '' w
           in Some (if corruptions = 0 then app_str mx (''OK'' @ [NL]) w
                    else app_str mx ('' issues)'' @ [NL])
                           (app_dec mx (of_int corruptions) (app_str mx ''CORRUPT ('' w))))
      | _ \<Rightarrow> None)"

abbreviation VFILE_NUM_IRQS :: nat where "VFILE_NUM_IRQS \<equiv> 16"

definition irq_names :: "string list" where
  "irq_names = [''timer'', ''keyboard'', ''cascade'', ''serial2'', ''serial1'', ''parallel2'', ''floppy'',
     ''parallel1'', ''rtc'', ''free'', ''free'', ''free'', ''ps2_mouse'', ''fpu'', ''ide_primary'',
     ''ide_secondary'']"

definition gen_interrupts :: "u64 list \<Rightarrow> u64 \<Rightarrow> vbuf \<Rightarrow> out" where
  "gen_interrupts irq_counts mx buf =
     (let w = app_str mx (''IRQ  Count  Name'' @ [NL]) (buf, 0);
          w = app_str mx (''---  -----  ----'' @ [NL]) w
      in fold (\<lambda>i w.
           let w = (if i < 10 then app_chr (CHR '' '') w else w);
               w = app_dec mx (of_nat i) w;
               w = app_str mx ''  '' w;
               w = app_dec mx (irq_counts ! i) w;
               w = app_str mx ''  '' w;
               w = app_str mx (irq_names ! i) w
           in app_str mx [NL] w) [0..<VFILE_NUM_IRQS] w)"

definition vfile_irq_tick :: "int \<Rightarrow> u64 list \<Rightarrow> u64 list" where
  "vfile_irq_tick irq irq_counts =
     (if irq \<ge> 0 \<and> irq < int VFILE_NUM_IRQS then irq_counts[nat irq := irq_counts ! nat irq + 1] else irq_counts)"

definition gen_self_pid :: "sched \<Rightarrow> u64 \<Rightarrow> vbuf \<Rightarrow> out" where
  "gen_self_pid sc mx buf =
     app_chr NL (case process_current sc of
                   Some p \<Rightarrow> app_dec mx (pid (proc sc p)) (buf, 0)
                 | None \<Rightarrow> app_str mx ''0'' (buf, 0))"

definition gen_self_name :: "sched \<Rightarrow> u64 \<Rightarrow> vbuf \<Rightarrow> out" where
  "gen_self_name sc mx buf =
     app_chr NL (case process_current sc of
                   Some p \<Rightarrow> app_str mx (pname (proc sc p)) (buf, 0)
                 | None \<Rightarrow> app_str mx ''kernel'' (buf, 0))"

fun state_name :: "process_state \<Rightarrow> string" where
  "state_name PROC_STATE_RUNNING = ''running''"
| "state_name PROC_STATE_READY = ''ready''"
| "state_name PROC_STATE_BLOCKED = ''blocked''"
| "state_name PROC_STATE_ZOMBIE = ''zombie''"
| "state_name PROC_STATE_UNUSED = ''unused''"

definition gen_self_status :: "sched \<Rightarrow> u64 \<Rightarrow> vbuf \<Rightarrow> out" where
  "gen_self_status sc mx buf =
     (let cur = map_option (proc sc) (process_current sc);
          w = app_str mx ''Name:    '' (buf, 0);
          w = (case cur of Some p \<Rightarrow> app_str mx (pname p) w | None \<Rightarrow> app_str mx ''kernel'' w);
          w = app_chr NL w;
          w = app_str mx ''PID:     '' w;
          w = (case cur of Some p \<Rightarrow> app_dec mx (pid p) w | None \<Rightarrow> app_chr (CHR ''0'') w);
          w = app_chr NL w;
          w = app_str mx ''State:   '' w;
          w = (case cur of Some p \<Rightarrow> app_str mx (state_name (pstate p)) w | None \<Rightarrow> app_str mx ''kernel'' w);
          w = app_chr NL w;
          w = app_str mx ''Priority:'' w;
          w = (case cur of
                 Some p \<Rightarrow> app_dec mx (of_int (priority p)) (app_chr (CHR '' '') w)
               | None \<Rightarrow> app_str mx '' 0'' w);
          w = app_chr NL w;
          w = app_str mx ''CPU time:'' w;
          w = (case cur of
                 Some p \<Rightarrow> app_dec mx (cpu_time p) (app_chr (CHR '' '') w)
               | None \<Rightarrow> app_str mx '' 0'' w)
      in app_str mx ('' ms'' @ [NL]) w)"

definition gen_device_line :: "machine \<Rightarrow> u64 \<Rightarrow> nat \<Rightarrow> nat \<Rightarrow> nat \<Rightarrow> out \<Rightarrow> out" where
  "gen_device_line hw mx bus dev func w =
     (let b = of_nat bus; d = of_nat dev; f = of_nat func; cfg = hw_pci hw
      in if \<not> pci_device_exists cfg b d f then w
         else
           (let vendor = pci_read_word cfg b d f PCI_VENDOR_ID;
                device = pci_read_word cfg b d f PCI_DEVICE_ID;
                class_code = pci_read_byte cfg b d f PCI_CLASS;
                subclass = pci_read_byte cfg b d f PCI_SUBCLASS
            in if vendor = 0xFFFF then w
               else
                 (let w = (if bus < 10 then app_chr (CHR '' '') w else w);
                      w = (if bus < 100 then app_chr (CHR '' '') w else w);
                      w = app_str mx ''  '' (app_dec mx (of_nat bus) w);
                      w = (if dev < 10 then app_chr (CHR '' '') w else w);
                      w = app_str mx ''  '' (app_dec mx (of_nat dev) w);
                      w = app_dec mx (of_nat func) w;
                      w = (if func < 10
                           then app_chr (CHR '' '') (app_chr (CHR '' '') (app_chr (CHR '' '') w))
                           else app_chr (CHR '' '') (app_chr (CHR '' '') w));
                      w = app_str mx ''  '' w;
                      w = app_str mx ''  '' (app_hex mx (ucast vendor) w);
                      w = app_str mx ''  '' (app_hex mx (ucast device) w);
                      w = app_str mx ''  '' (app_hex mx (ucast class_code) w);
                      w = app_hex mx (ucast subclass) w
                  in app_chr NL w)))"

definition gen_device :: "machine \<Rightarrow> u64 \<Rightarrow> nat \<Rightarrow> nat \<Rightarrow> out \<Rightarrow> out" where
  "gen_device hw mx bus dev w =
     (if \<not> pci_device_exists (hw_pci hw) (of_nat bus) (of_nat dev) 0 then w
      else
        (let header_type = pci_read_byte (hw_pci hw) (of_nat bus) (of_nat dev) 0 PCI_HEADER_TYPE;
             funcs = (if header_type AND 0x80 \<noteq> 0 then 8 else 1)
         in fold (gen_device_line hw mx bus dev) [0..<funcs] w))"

definition gen_devices :: "machine \<Rightarrow> u64 \<Rightarrow> vbuf \<Rightarrow> out" where
  "gen_devices hw mx buf =
     (let w = app_str mx (''Bus  Dev  Func  Vendor    Device    Class  Sub'' @ [NL]) (buf, 0);
          w = app_str mx (''---  ---  ----  --------  --------  -----  ---'' @ [NL]) w
      in fold (\<lambda>bus. fold (gen_device hw mx bus) [0..<32]) [0..<256] w)"

definition gen_kernel_version :: "u64 \<Rightarrow> vbuf \<Rightarrow> out" where
  "gen_kernel_version mx buf = app_str mx (PLAN0_VERSION @ [NL]) (buf, 0)"

definition gen_kernel_name :: "u64 \<Rightarrow> vbuf \<Rightarrow> out" where
  "gen_kernel_name mx buf = app_str mx (PLAN0_NAME @ [NL]) (buf, 0)"

definition gen_kernel_arch :: "u64 \<Rightarrow> vbuf \<Rightarrow> out" where
  "gen_kernel_arch mx buf = app_str mx (PLAN0_ARCH @ [NL]) (buf, 0)"

definition gen_cpuid :: "machine \<Rightarrow> u64 \<Rightarrow> vbuf \<Rightarrow> out" where
  "gen_cpuid hw mx buf =
     (let (eax, ebx, ecx, edx) = hw_cpuid hw 0;
          w = app_str mx (''CPUID leaf 0:'' @ [NL]) (buf, 0);
          w = app_chr NL (app_nibbles eax (app_str mx ''  EAX = 0x'' w));
          w = app_chr NL (app_nibbles ebx (app_str mx ''  EBX = 0x'' w));
          w = app_chr NL (app_nibbles ecx (app_str mx ''  ECX = 0x'' w))
      in app_chr NL (app_nibbles edx (app_str mx ''  EDX = 0x'' w)))"

definition gen_meminfo :: "pmm \<Rightarrow> u64 \<Rightarrow> vbuf \<Rightarrow> out" where
  "gen_meminfo pm mx buf =
     (let w = app_str mx ''MemTotal:  '' (buf, 0);
          w = app_str mx ('' bytes'' @ [NL]) (app_dec mx (pmm_get_total pm) w);
          w = app_str mx ''MemFree:   '' w;
          w = app_str mx ('' bytes'' @ [NL]) (app_dec mx (pmm_get_free pm) w);
          w = app_str mx ''PagesFree: '' w;
          w = app_str mx [NL] (app_dec mx (pmm_get_free_pages pm) w);
          w = app_str mx ''PageSize:  '' w
      in app_str mx [NL] (app_dec mx 4096 w))"

definition gen_timer :: "sched \<Rightarrow> u64 \<Rightarrow> vbuf \<Rightarrow> out" where
  "gen_timer sc mx buf =
     (let w = app_str mx ''ticks: '' (buf, 0);
          w = app_dec mx (timer_get_ticks sc) w;
          w = app_str mx ([NL] @ ''ms:     '') w
      in app_str mx [NL] (app_dec mx (timer_get_ms sc) w))"

definition gen_platform :: "u64 \<Rightarrow> vbuf \<Rightarrow> out" where
  "gen_platform mx buf =
     (let w = app_str mx (''Platform:   PC/AT compatible'' @ [NL]) (buf, 0);
          w = app_str mx (''Arch:       x86_64'' @ [NL]) w;
          w = app_str mx (''Mode:       64-bit long mode'' @ [NL]) w
      in app_str mx (''Paging:     4-level (PML4)'' @ [NL]) w)"

definition gen_null :: "u64 \<Rightarrow> vbuf \<Rightarrow> out" where
  "gen_null mx buf = (buf, 0)"

definition gen_zero :: "u64 \<Rightarrow> vbuf \<Rightarrow> vbuf \<times> int" where
  "gen_zero mx buf =
     (let n = sint (ucast mx :: u32) - 1
      in (\<lambda>i. if int i < n then NUL else buf i, n))"

definition gen_console :: "u64 \<Rightarrow> vbuf \<Rightarrow> out" where
  "gen_console mx buf =
     app_str mx (''Write to this file to display text.'' @ [NL])
       (app_str mx (PLAN0_NAME @ '' console'' @ [NL]) (buf, 0))"

section \<open>The registry\<close>

abbreviation VFILE_MAX_ENTRIES :: nat where "VFILE_MAX_ENTRIES \<equiv> 48"
abbreviation VFILE_MAX_CONTENT :: u64 where "VFILE_MAX_CONTENT \<equiv> 2048"

text \<open>The callbacks a registry entry can point to; the null pointer is \<open>None\<close>.\<close>

datatype vfile_read_fn =
  Gen_processes | Gen_datetime | Gen_version | Gen_timer | Gen_stat | Gen_interrupts | Gen_mounts | Gen_heap |
  Gen_hostname | Gen_kernel_name | Gen_kernel_version | Gen_kernel_arch | Gen_uptime | Gen_self_pid |
  Gen_self_name | Gen_self_status | Gen_self_fdinfo | Gen_memory | Gen_meminfo | Gen_cpu | Gen_cpuid |
  Gen_platform | Gen_devices | Gen_null | Gen_zero | Gen_console

datatype vfile_write_fn = Write_hostname | Write_null | Write_zero | Write_console

datatype vfile_list_fn =
  List_root | List_ns_root | List_system | List_sys_kernel | List_sys_runtime | List_proc_self | List_self_fd |
  List_hardware | List_hw_memory | List_dev

record vfile_entry =
  ve_path :: string
  ve_is_dir :: bool
  ve_read_fn :: "vfile_read_fn option"
  ve_write_fn :: "vfile_write_fn option"
  ve_list_fn :: "vfile_list_fn option"
  ve_size :: u32

record vfile =
  vf_entries :: "vfile_entry list"
  entry_count :: nat
  hostname_buf :: string
  irq_counts :: "u64 list"

definition reg_file :: "string \<Rightarrow> vfile_read_fn \<Rightarrow> vfile \<Rightarrow> vfile" where
  "reg_file path fn s =
     (if entry_count s \<ge> VFILE_MAX_ENTRIES then s
      else s\<lparr>vf_entries := (vf_entries s)[entry_count s :=
               \<lparr>ve_path = k_strcpy (ve_path (vf_entries s ! entry_count s)) path, ve_is_dir = False,
                ve_read_fn = Some fn, ve_write_fn = None, ve_list_fn = None, ve_size = 0\<rparr>],
             entry_count := entry_count s + 1\<rparr>)"

definition reg_file_rw :: "string \<Rightarrow> vfile_read_fn \<Rightarrow> vfile_write_fn \<Rightarrow> vfile \<Rightarrow> vfile" where
  "reg_file_rw path read_fn write_fn s =
     (if entry_count s \<ge> VFILE_MAX_ENTRIES then s
      else s\<lparr>vf_entries := (vf_entries s)[entry_count s :=
               \<lparr>ve_path = k_strcpy (ve_path (vf_entries s ! entry_count s)) path, ve_is_dir = False,
                ve_read_fn = Some read_fn, ve_write_fn = Some write_fn, ve_list_fn = None, ve_size = 0\<rparr>],
             entry_count := entry_count s + 1\<rparr>)"

definition reg_dir :: "string \<Rightarrow> vfile_list_fn \<Rightarrow> vfile \<Rightarrow> vfile" where
  "reg_dir path fn s =
     (if entry_count s \<ge> VFILE_MAX_ENTRIES then s
      else s\<lparr>vf_entries := (vf_entries s)[entry_count s :=
               \<lparr>ve_path = k_strcpy (ve_path (vf_entries s ! entry_count s)) path, ve_is_dir = True,
                ve_read_fn = None, ve_write_fn = None, ve_list_fn = Some fn, ve_size = 0\<rparr>],
             entry_count := entry_count s + 1\<rparr>)"

text \<open>\<^verbatim>\<open>vfile_init\<close> without its call of \<^verbatim>\<open>vfs_mount\<close>.\<close>

definition vfile_register :: "vfile \<Rightarrow> vfile" where
  "vfile_register s =
     (let s = s\<lparr>entry_count := 0, irq_counts := map (\<lambda>_. 0) (irq_counts s)\<rparr>;
          s = reg_dir ''/'' List_root s;
          s = reg_dir ''/0'' List_ns_root s;
          s = reg_dir ''/0/system'' List_system s;
          s = reg_dir ''/0/system/kernel'' List_sys_kernel s;
          s = reg_dir ''/0/system/runtime'' List_sys_runtime s;
          s = reg_dir ''/0/system/self'' List_proc_self s;
          s = reg_dir ''/0/system/self/fd'' List_self_fd s;
          s = reg_dir ''/0/hardware'' List_hardware s;
          s = reg_dir ''/0/hardware/memory'' List_hw_memory s;
          s = reg_dir ''/0/dev'' List_dev s;
          s = reg_file ''/0/system/processes'' Gen_processes s;
          s = reg_file ''/0/system/time'' Gen_datetime s;
          s = reg_file ''/0/system/version'' Gen_version s;
          s = reg_file ''/0/system/timer'' Gen_timer s;
          s = reg_file ''/0/system/stat'' Gen_stat s;
          s = reg_file ''/0/system/interrupts'' Gen_interrupts s;
          s = reg_file ''/0/system/mounts'' Gen_mounts s;
          s = reg_file ''/0/system/heap'' Gen_heap s;
          s = reg_file_rw ''/0/system/hostname'' Gen_hostname Write_hostname s;
          s = reg_file ''/0/system/kernel/name'' Gen_kernel_name s;
          s = reg_file ''/0/system/kernel/version'' Gen_kernel_version s;
          s = reg_file ''/0/system/kernel/arch'' Gen_kernel_arch s;
          s = reg_file ''/0/system/runtime/uptime'' Gen_uptime s;
          s = reg_file ''/0/system/self/pid'' Gen_self_pid s;
          s = reg_file ''/0/system/self/name'' Gen_self_name s;
          s = reg_file ''/0/system/self/status'' Gen_self_status s;
          s = reg_file ''/0/system/self/fdinfo'' Gen_self_fdinfo s;
          s = reg_file ''/0/hardware/memory/ram'' Gen_memory s;
          s = reg_file ''/0/hardware/memory/info'' Gen_meminfo s;
          s = reg_file ''/0/hardware/cpu'' Gen_cpu s;
          s = reg_file ''/0/hardware/cpu-id'' Gen_cpuid s;
          s = reg_file ''/0/hardware/platform'' Gen_platform s;
          s = reg_file ''/0/hardware/pci'' Gen_devices s;
          s = reg_file_rw ''/0/dev/null'' Gen_null Write_null s;
          s = reg_file_rw ''/0/dev/zero'' Gen_zero Write_zero s
      in reg_file_rw ''/0/dev/console'' Gen_console Write_console s)"

text \<open>The loops over the registry return the first entry with the given path.\<close>

definition vfile_find :: "(vfile_entry \<Rightarrow> bool) \<Rightarrow> string \<Rightarrow> vfile \<Rightarrow> vfile_entry option" where
  "vfile_find kind path s =
     map_option (\<lambda>i. vf_entries s ! i)
       (first_index (\<lambda>e. kind e \<and> k_strcmp (ve_path e) path = 0) (take (entry_count s) (vf_entries s)))"

abbreviation SELF_FD :: string where "SELF_FD \<equiv> ''/0/system/self/fd/''"

definition vfile_is_virtual :: "string \<Rightarrow> vfile \<Rightarrow> int" where
  "vfile_is_virtual path s = (case vfile_find (\<lambda>_. True) path s of Some e \<Rightarrow> 1 | None \<Rightarrow> 0)"

definition vfile_exists :: "string \<Rightarrow> vfile \<Rightarrow> int" where
  "vfile_exists path s =
     (case vfile_find (\<lambda>e. \<not> ve_is_dir e) path s of
        Some e \<Rightarrow> 1
      | None \<Rightarrow> if k_strncmp path SELF_FD (int (k_strlen SELF_FD)) = 0 then 1 else 0)"

definition vfile_is_writable :: "string \<Rightarrow> vfile \<Rightarrow> int" where
  "vfile_is_writable path s =
     (case vfile_find (\<lambda>e. \<not> ve_is_dir e) path s of
        Some e \<Rightarrow> if ve_write_fn e \<noteq> None then 1 else 0
      | None \<Rightarrow> 0)"

text \<open>A write also yields the characters \<^verbatim>\<open>write_console\<close> puts on the terminal.\<close>

fun run_write_fn :: "vfile_write_fn \<Rightarrow> string \<Rightarrow> vfile \<Rightarrow> int \<times> string \<times> vfile" where
  "run_write_fn Write_hostname data s =
     (let (n, buf) = write_hostname data (hostname_buf s) in (n, [], s\<lparr>hostname_buf := buf\<rparr>))"
| "run_write_fn Write_null data s = (sint (of_nat (length data) :: u32), [], s)"
| "run_write_fn Write_zero data s = (sint (of_nat (length data) :: u32), [], s)"
| "run_write_fn Write_console data s = (sint (of_nat (length data) :: u32), data, s)"

definition vfile_write :: "string \<Rightarrow> string \<Rightarrow> vfile \<Rightarrow> int \<times> string \<times> vfile" where
  "vfile_write path data s =
     (case vfile_find (\<lambda>e. \<not> ve_is_dir e) path s of
        Some e \<Rightarrow> (case ve_write_fn e of Some f \<Rightarrow> run_write_fn f data s | None \<Rightarrow> (-1, [], s))
      | None \<Rightarrow> (-1, [], s))"

definition list_vfile_dir :: "string \<Rightarrow> vfile \<Rightarrow> (string \<times> int \<times> u32) list" where
  "list_vfile_dir prefix s =
     (let n = k_strlen prefix;
          es = filter (\<lambda>e. \<not> ve_is_dir e \<and> k_strncmp (ve_path e) prefix (int n) = 0) (take (entry_count s) (vf_entries s));
          names = map (\<lambda>e. drop n (ve_path e)) es
      in map (\<lambda>nm. (nm, 0, 0)) (filter (\<lambda>nm. cchar nm \<noteq> NUL \<and> CHR ''/'' \<notin> set (cstr nm)) names))"

section \<open>Decimal numbers\<close>

definition dec_value :: "string \<Rightarrow> nat" where
  "dec_value s = foldl (\<lambda>v c. 10 * v + (of_char c - 48)) 0 s"

lemma of_char_digit [simp]: "d < 10 \<Longrightarrow> (of_char (digit_char d) :: nat) = 48 + d"
  by (simp add: digit_char_def)

lemma dec_value_snoc: "dec_value (s @ [c]) = 10 * dec_value s + (of_char c - 48)"
  by (simp add: dec_value_def)

lemma dec_value_digits: "dec_value (rev (dec_digits n)) = n"
proof (induction n rule: dec_digits.induct)
  case (1 n)
  then show ?case
    by (subst dec_digits.simps) (auto simp: dec_value_snoc dec_value_def)
qed

lemma length_dec_digits: "n < 10 ^ k \<Longrightarrow> length (dec_digits n) \<le> k"
proof (induction n arbitrary: k rule: dec_digits.induct)
  case (1 n)
  show ?case
  proof (cases "n = 0")
    case False
    then obtain k' where "k = Suc k'" using 1 by (cases k) auto
    then show ?thesis using 1 False by (subst dec_digits.simps) (auto simp: less_mult_imp_div_less)
  qed (simp add: dec_digits.simps)
qed

lemma dec_digits_pos: "0 < n \<Longrightarrow> dec_digits n \<noteq> []"
  by (simp add: dec_digits.simps)

lemma put_dec_value: "dec_value (put_dec n) = unat n"
proof (cases "n = 0")
  case False
  then show ?thesis by (simp add: put_dec_def dec_value_digits)
qed (simp add: put_dec_def dec_value_def)

lemma length_put_dec: "0 < length (put_dec n)" "length (put_dec n) \<le> 20"
proof -
  have "(18446744073709551616 :: nat) < 10 ^ 20" by simp
  then have "unat n < 10 ^ 20" using unat_less_2p64 [of n] by linarith
  then show "length (put_dec n) \<le> 20" using length_dec_digits by (simp add: put_dec_def)
  show "0 < length (put_dec n)" by (simp add: put_dec_def dec_digits_pos unat_gt_0)
qed

lemma dec_digits_no_nul: "c \<in> set (dec_digits n) \<Longrightarrow> \<exists>d < 10. c = digit_char d"
proof (induction n rule: dec_digits.induct)
  case (1 n)
  then show ?case by (subst (asm) dec_digits.simps) (auto split: if_splits intro: exI [of _ "n mod 10"])
qed

section \<open>What the appends write\<close>

text \<open>The buffer holds the text \<open>t\<close> up to the current position.\<close>

definition holds :: "string \<Rightarrow> out \<Rightarrow> bool" where
  "holds t w \<longleftrightarrow> snd w = length t \<and> (\<forall>i < length t. fst w i = t ! i)"

lemma holds_Nil [simp]: "holds [] (buf, 0)"
  by (simp add: holds_def)

lemma app_chr_holds: "holds t w \<Longrightarrow> holds (t @ [c]) (app_chr c w)"
  by (auto simp: holds_def app_chr_def nth_append less_Suc_eq)

text \<open>The buffer after storing \<open>t\<close> from offset \<open>p\<close> on.\<close>

definition buf_put :: "nat \<Rightarrow> string \<Rightarrow> vbuf \<Rightarrow> vbuf" where
  "buf_put p t buf = (\<lambda>i. if p \<le> i \<and> i < p + length t then t ! (i - p) else buf i)"

lemma buf_put_simps [simp]: "buf_put p [] buf = buf" "buf_put (Suc p) t (buf(p := c)) = buf_put p (c # t) buf"
  by (auto simp: buf_put_def fun_eq_iff nth_Cons')

lemma append_str_eq:
  "len + length src < 18446744073709551616 \<Longrightarrow>
   append_str pos mx src len buf =
     (let t = take (unat (mx - 1) - len) (cstr src) in (buf_put (pos + len) t buf, len + length t))"
proof (induction src arbitrary: len buf)
  case (Cons c cs)
  have lt: "of_nat len < mx - 1 \<longleftrightarrow> len < unat (mx - 1)"
    using Cons.prems by (simp add: word_less_nat_alt unat_of_nat_u64)
  show ?case
  proof (cases "c \<noteq> NUL \<and> len < unat (mx - 1)")
    case True
    then obtain k where "unat (mx - 1) - len = Suc k" "unat (mx - 1) - Suc len = k" by (metis Suc_diff_Suc)
    then show ?thesis using True lt Cons.IH [of "Suc len" "buf(pos + len := c)"] Cons.prems
      by (simp add: Let_def del: fun_upd_apply)
  qed (use lt in \<open>auto simp: Let_def\<close>)
qed simp

lemma dec_copy_eq:
  "i + length src < 18446744073709551616 \<Longrightarrow>
   dec_copy pos mx src i buf = buf_put (pos + i) (take (unat (mx - 1) - i) src) buf"
proof (induction src arbitrary: i buf)
  case (Cons c cs)
  have lt: "of_nat i < mx - 1 \<longleftrightarrow> i < unat (mx - 1)"
    using Cons.prems by (simp add: word_less_nat_alt unat_of_nat_u64)
  show ?case
  proof (cases "i < unat (mx - 1)")
    case True
    then obtain k where "unat (mx - 1) - i = Suc k" "unat (mx - 1) - Suc i = k" by (metis Suc_diff_Suc)
    then show ?thesis using True lt Cons.IH [of "Suc i" "buf(pos + i := c)"] Cons.prems
      by (simp del: fun_upd_apply)
  qed (use lt in simp)
qed simp

lemma holds_put: "holds t w \<Longrightarrow> holds (t @ u) (buf_put (length t) u (fst w), length t + length u)"
  by (auto simp: holds_def buf_put_def nth_append)

lemma room_left:
  assumes "pos < unat (mx :: u64)"
  shows "unat (mx - of_nat pos - 1) = unat mx - pos - 1"
proof -
  have "pos < 18446744073709551616" using assms unat_less_2p64 [of mx] by (rule less_trans)
  then have "unat (of_nat pos :: u64) = pos" by (simp add: unat_of_nat_u64)
  then have "unat (mx - of_nat pos) = unat mx - pos" using assms by (simp add: unat_sub_if')
  moreover from this have "mx - of_nat pos \<noteq> 0" using assms by (metis unat_0 zero_less_diff less_irrefl)
  ultimately show ?thesis by (simp add: unat_minus_one)
qed

lemma app_str_holds:
  assumes "holds t w" "length t + length src < unat mx"
  shows "holds (t @ cstr src) (app_str mx src w)"
proof -
  have pos: "snd w = length t" using assms(1) by (simp add: holds_def)
  have len: "0 + length src < 18446744073709551616" using assms(2) unat_less_2p64 [of mx] by linarith
  have room: "unat (mx - of_nat (length t) - 1) = unat mx - length t - 1"
    by (rule room_left) (use assms(2) in linarith)
  have "length (cstr src) \<le> unat mx - length t - 1" using assms(2) length_cstr_le [of src] by linarith
  then show ?thesis
    using holds_put [OF assms(1), of "cstr src"] append_str_eq [OF len]
    by (simp add: app_str_def pos room Let_def)
qed

lemma app_dec_holds:
  assumes "holds t w" "length t + length (put_dec n) < unat mx"
  shows "holds (t @ put_dec n) (app_dec mx n w)"
proof -
  have pos: "snd w = length t" using assms(1) by (simp add: holds_def)
  have len: "0 + length (put_dec n) < 18446744073709551616" using length_put_dec(2) [of n] by simp
  have room: "unat (mx - of_nat (length t) - 1) = unat mx - length t - 1"
    by (rule room_left) (use assms(2) in linarith)
  have fits: "length (put_dec n) \<le> unat mx - length t - 1" using assms(2) by linarith
  then show ?thesis
    using holds_put [OF assms(1), of "put_dec n"] dec_copy_eq [OF len]
    by (simp add: app_dec_def append_dec_def pos room Let_def)
qed

lemma app_lit_holds:
  assumes "holds t w" "NUL \<notin> set src" "length t + length src < unat mx"
  shows "holds (t @ src) (app_str mx src w)"
  using app_str_holds [OF assms(1,3)] cstr_id [OF assms(2)] by simp

section \<open>Properties\<close>

text \<open>
  Decimal output is exact. \<open>put_dec\<close> writes the decimal digits of its argument, most
  significant first: reading them back gives the number, there is at least one digit, and the 20
  digits of the largest 64-bit number fit into the 21 bytes of the scratch array.
\<close>

lemma put_dec_decimal:
  "dec_value (put_dec n) = unat n \<and> 0 < length (put_dec n) \<and> length (put_dec n) \<le> 20 \<and>
   set (put_dec n) \<subseteq> digit_char ` {..<10}"
proof -
  have "set (dec_digits k) \<subseteq> digit_char ` {..<10}" for k using dec_digits_no_nul by blast
  moreover have "digit_char 0 = CHR ''0''" by code_simp
  then have "CHR ''0'' \<in> digit_char ` {..<10}" by (metis image_eqI lessThan_iff zero_less_numeral)
  ultimately show ?thesis using put_dec_value length_put_dec by (simp add: put_dec_def)
qed

text \<open>
  The uptime file. With a buffer of at least 128 bytes \<open>gen_uptime\<close> writes the ticks as hours,
  minutes and seconds, with minutes and seconds below 60, followed by the total of seconds, and
  stays inside the buffer.
\<close>

lemma gen_uptime_text:
  assumes "128 \<le> unat mx"
  shows "holds (''Uptime: '' @ put_dec (system_ticks sc div 3600000) @ ''h '' @
      put_dec (system_ticks sc div 60000 mod 60) @ ''m '' @ put_dec (system_ticks sc div 1000 mod 60) @ ''s'' @ [NL] @
      ''Total seconds: '' @ put_dec (system_ticks sc div 1000) @ [NL]) (gen_uptime sc mx buf) \<and>
    snd (gen_uptime sc mx buf) < unat mx"
proof -
  let ?h = "system_ticks sc div 1000 div 60 div 60" and ?m = "system_ticks sc div 1000 div 60 mod 60"
    and ?s = "system_ticks sc div 1000 mod 60" and ?t = "system_ticks sc div 1000"
  note len = length_put_dec(2)
  have l: "length (put_dec ?h) \<le> 20" "length (put_dec ?m) \<le> 20" "length (put_dec ?s) \<le> 20" "length (put_dec ?t) \<le> 20"
    by (rule len)+
  note bound = assms l
  let ?w0 = "app_chr (CHR ''U'') (buf, 0)"
  have "holds ''U'' ?w0" using app_chr_holds [OF holds_Nil] by simp
  then have "holds (''U'' @ ''ptime: '') (app_str mx ''ptime: '' ?w0)" (is "holds ?t1 ?w1")
    by (rule app_lit_holds) (use bound in auto)
  then have "holds (?t1 @ put_dec ?h) (app_dec mx ?h ?w1)" (is "holds ?t2 ?w2")
    by (rule app_dec_holds) (use bound in auto)
  then have "holds (?t2 @ ''h '') (app_str mx ''h '' ?w2)" (is "holds ?t3 ?w3")
    by (rule app_lit_holds) (use bound in auto)
  then have "holds (?t3 @ put_dec ?m) (app_dec mx ?m ?w3)" (is "holds ?t4 ?w4")
    by (rule app_dec_holds) (use bound in auto)
  then have "holds (?t4 @ ''m '') (app_str mx ''m '' ?w4)" (is "holds ?t5 ?w5")
    by (rule app_lit_holds) (use bound in auto)
  then have "holds (?t5 @ put_dec ?s) (app_dec mx ?s ?w5)" (is "holds ?t6 ?w6")
    by (rule app_dec_holds) (use bound in auto)
  then have "holds (?t6 @ ''s'' @ [NL]) (app_str mx (''s'' @ [NL]) ?w6)" (is "holds ?t7 ?w7")
    by (rule app_lit_holds) (use bound in auto)
  then have "holds (?t7 @ ''T'') (app_chr (CHR ''T'') ?w7)" (is "holds ?t8 ?w8") by (rule app_chr_holds)
  then have "holds (?t8 @ ''otal seconds: '') (app_str mx ''otal seconds: '' ?w8)" (is "holds ?t9 ?w9")
    by (rule app_lit_holds) (use bound in auto)
  then have "holds (?t9 @ put_dec ?t) (app_dec mx ?t ?w9)" (is "holds ?t10 ?w10")
    by (rule app_dec_holds) (use bound in auto)
  then have fin: "holds (?t10 @ [NL]) (app_str mx [NL] ?w10)"
    by (rule app_lit_holds) (use bound in auto)
  have w: "gen_uptime sc mx buf = app_str mx [NL] ?w10" by (simp add: gen_uptime_def Let_def timer_get_ticks_def)
  have "snd (gen_uptime sc mx buf) = length (?t10 @ [NL])" using fin by (simp add: w holds_def)
  moreover have "length (?t10 @ [NL]) < unat mx" using bound by simp
  moreover have "system_ticks sc div 3600000 = ?h" "system_ticks sc div 60000 mod 60 = ?m"
    by (simp_all add: word_unat_eq_iff unat_div unat_mod div_mult2_eq [symmetric])
  ultimately show ?thesis using fin by (simp add: w)
qed

text \<open>
  C22. The end of the buffer is not respected. \<open>append_dec\<close> reports all its digits even when it had no
  room to store them, which moves the position to the end of the buffer or past it; the room
  \<^verbatim>\<open>max - pos\<close> that the next append computes then wraps around, and the whole string is stored
  behind the end of the buffer.
\<close>

theorem append_past_end:
  fixes mx n :: u64 and buf :: vbuf
  assumes "0 < unat mx" "NUL \<notin> set src" "length src < 2 ^ 63"
  defines "w1 \<equiv> app_dec mx n (buf, unat mx - 1)"
  shows "unat mx \<le> snd w1 \<and> (\<forall>i < length src. fst (app_str mx src w1) (snd w1 + i) = src ! i)"
proof -
  define k where "k = length (put_dec n)"
  have k: "0 < k" "k \<le> 20" using length_put_dec [of n] by (simp_all add: k_def)
  have pos: "snd w1 = unat mx - 1 + k" by (simp add: w1_def app_dec_def append_dec_def k_def Let_def)
  have wrap: "mx - of_nat (snd w1) - 1 = - of_nat k"
    using assms(1) unfolding pos by (simp add: of_nat_diff)
  have "unat (0 - of_nat k :: u64) = 18446744073709551616 - k"
    unfolding unat_sub_if' using k by (simp add: unat_of_nat_u64)
  then have "unat (- of_nat k :: u64) = 18446744073709551616 - k" by simp
  then have room: "unat (mx - of_nat (snd w1) - 1) = 18446744073709551616 - k" by (simp only: wrap)
  have len: "0 + length src < 18446744073709551616" using assms(3) by simp
  have "append_str (snd w1) (mx - of_nat (snd w1)) src 0 (fst w1) = (buf_put (snd w1) src (fst w1), length src)"
    using append_str_eq [OF len] cstr_id [OF assms(2)] assms(3) k by (simp add: room Let_def)
  then have "fst (app_str mx src w1) = buf_put (snd w1) src (fst w1)" by (simp add: app_str_def)
  then show ?thesis using k pos by (simp add: buf_put_def)
qed

theorem append_past_end_witness:
  "fst (app_str 2048 ''other'' (app_dec 2048 7 (\<lambda>_. NUL, 2047))) 2048 = CHR ''o''"
proof -
  have "put_dec 7 = [digit_char 7]" by (simp add: put_dec_def dec_digits.simps)
  then have "snd (app_dec 2048 7 (\<lambda>_. NUL, 2047)) = 2048"
    by (simp add: app_dec_def append_dec_def Let_def)
  then show ?thesis using append_past_end [of 2048 "''other''" 7 "\<lambda>_. NUL"] by auto
qed

lemma strip_newlines_eq:
  "n \<le> length data \<Longrightarrow>
   take (strip_newlines data n) data = rev (dropWhile (\<lambda>c. c = NL \<or> c = CHR 0x0D) (rev (take n data))) \<and>
   strip_newlines data n \<le> n"
proof (induction n)
  case (Suc n)
  have "rev (take (Suc n) data) = data ! n # rev (take n data)"
    using Suc.prems by (simp add: take_Suc_conv_app_nth)
  then show ?case using Suc by (auto simp: take_Suc_conv_app_nth)
qed simp

text \<open>
  Setting the host name. Writing \<open>data\<close> to the host name file keeps its first 63 characters
  without trailing newlines and carriage returns and reports how many; reading the file gives
  them back with one newline.
\<close>

lemma write_hostname_gen_hostname:
  fixes data :: string
  assumes "NUL \<notin> set data" "length host = 64" "128 \<le> unat mx"
  defines "line \<equiv> rev (dropWhile (\<lambda>c. c = NL \<or> c = CHR 0x0D) (rev data))"
  shows "fst (write_hostname data host) = int (min 63 (length line)) \<and>
    holds (take 63 line @ [NL]) (gen_hostname (snd (write_hostname data host)) mx buf)"
proof -
  define n where "n = strip_newlines data (length data)"
  define m where "m = min 63 (length line)"
  have line: "take n data = line" "n \<le> length data"
    using strip_newlines_eq [of "length data" data] by (simp_all add: n_def line_def)
  then have len: "length line = n" by auto
  have m: "(if n \<ge> 64 then 63 else n) = m" "m \<le> length data" "m < 64" using line(2) by (auto simp: m_def len)
  have wr: "write_hostname data host = (int m, (k_memcpy host data m)[m := NUL])"
    unfolding write_hostname_def n_def [symmetric] Let_def m(1) ..
  have "take m data = take 63 line" using line m by (metis len m_def min_def nat_le_linear take_all take_take)
  moreover have eq: "(k_memcpy host data m)[m := NUL] = take m data @ NUL # drop (Suc m) host"
    using m assms(2) by (simp add: k_memcpy_eq list_update_append Cons_nth_drop_Suc [symmetric])
  moreover have "NUL \<notin> set (take m data)" using assms(1) by (auto dest: in_set_takeD)
  ultimately have host: "cstr ((k_memcpy host data m)[m := NUL]) = take 63 line" by simp
  have l: "length ((k_memcpy host data m)[m := NUL]) = 64" using m assms(2) by (simp only: eq) simp
  have "holds (take 63 line) (app_str mx ((k_memcpy host data m)[m := NUL]) (buf, 0))"
    using app_str_holds [OF holds_Nil, of "(k_memcpy host data m)[m := NUL]" mx] l assms(3) host by simp
  then show ?thesis using wr m_def by (simp add: gen_hostname_def app_chr_holds)
qed

text \<open>Registration appends to the list of registered paths.\<close>

definition registered :: "vfile \<Rightarrow> string list \<Rightarrow> bool" where
  "registered s ps \<longleftrightarrow> length (vf_entries s) = VFILE_MAX_ENTRIES \<and> entry_count s = length ps \<and>
     map (\<lambda>e. cstr (ve_path e)) (take (length ps) (vf_entries s)) = ps"

lemma reg_registered:
  assumes "registered s ps" "length ps < VFILE_MAX_ENTRIES" "NUL \<notin> set p"
  shows "registered (reg_dir p lfn s) (ps @ [p])" "registered (reg_file p rfn s) (ps @ [p])"
    "registered (reg_file_rw p rfn wfn s) (ps @ [p])"
  using assms
  by (auto simp: reg_dir_def reg_file_def reg_file_rw_def cstr_id registered_def take_Suc_conv_app_nth)

definition vfile_paths :: "string list" where
  "vfile_paths =
     [''/'', ''/0'', ''/0/system'', ''/0/system/kernel'', ''/0/system/runtime'', ''/0/system/self'',
      ''/0/system/self/fd'', ''/0/hardware'', ''/0/hardware/memory'', ''/0/dev'', ''/0/system/processes'',
      ''/0/system/time'', ''/0/system/version'', ''/0/system/timer'', ''/0/system/stat'', ''/0/system/interrupts'',
      ''/0/system/mounts'', ''/0/system/heap'', ''/0/system/hostname'', ''/0/system/kernel/name'',
      ''/0/system/kernel/version'', ''/0/system/kernel/arch'', ''/0/system/runtime/uptime'', ''/0/system/self/pid'',
      ''/0/system/self/name'', ''/0/system/self/status'', ''/0/system/self/fdinfo'', ''/0/hardware/memory/ram'',
      ''/0/hardware/memory/info'', ''/0/hardware/cpu'', ''/0/hardware/cpu-id'', ''/0/hardware/platform'',
      ''/0/hardware/pci'', ''/0/dev/null'', ''/0/dev/zero'', ''/0/dev/console'']"

lemma reg_registered_rev:
  assumes "registered s (rev qs)" "length qs < VFILE_MAX_ENTRIES" "NUL \<notin> set p"
  shows "registered (reg_dir p lfn s) (rev (p # qs))" "registered (reg_file p rfn s) (rev (p # qs))"
    "registered (reg_file_rw p rfn wfn s) (rev (p # qs))"
  using reg_registered [of s "rev qs" p] assms by simp_all

lemma registered_all:
  assumes "length (vf_entries s) = VFILE_MAX_ENTRIES"
  shows "registered (vfile_register s) vfile_paths"
proof -
  have start: "registered (s\<lparr>entry_count := 0, irq_counts := map (\<lambda>_. 0) (irq_counts s)\<rparr>) (rev [])"
    using assms by (simp add: registered_def)
  have "registered (vfile_register s) (rev
     [''/0/dev/console'', ''/0/dev/zero'', ''/0/dev/null'', ''/0/hardware/pci'', ''/0/hardware/platform'',
      ''/0/hardware/cpu-id'', ''/0/hardware/cpu'', ''/0/hardware/memory/info'',
      ''/0/hardware/memory/ram'', ''/0/system/self/fdinfo'', ''/0/system/self/status'',
      ''/0/system/self/name'', ''/0/system/self/pid'', ''/0/system/runtime/uptime'',
      ''/0/system/kernel/arch'', ''/0/system/kernel/version'', ''/0/system/kernel/name'',
      ''/0/system/hostname'', ''/0/system/heap'', ''/0/system/mounts'', ''/0/system/interrupts'',
      ''/0/system/stat'', ''/0/system/timer'', ''/0/system/version'', ''/0/system/time'',
      ''/0/system/processes'', ''/0/dev'', ''/0/hardware/memory'', ''/0/hardware'',
      ''/0/system/self/fd'', ''/0/system/self'', ''/0/system/runtime'', ''/0/system/kernel'',
      ''/0/system'', ''/0'', ''/''])"
    unfolding vfile_register_def Let_def
    by ((rule reg_registered_rev)+, rule start) simp_all
  then show ?thesis by (simp add: vfile_paths_def)
qed

lemma vfile_find_registered:
  assumes "registered s ps"
  shows "vfile_find (\<lambda>_. True) path s \<noteq> None \<longleftrightarrow> cstr path \<in> set ps"
proof -
  have "vfile_find (\<lambda>_. True) path s = None \<longleftrightarrow> (\<forall>e \<in> set (take (length ps) (vf_entries s)). cstr (ve_path e) \<noteq> cstr path)"
    using assms by (simp add: vfile_find_def first_index_None_iff k_strcmp_0_iff registered_def)
  also have "\<dots> \<longleftrightarrow> cstr path \<notin> set (map (\<lambda>e. cstr (ve_path e)) (take (length ps) (vf_entries s)))"
    by (auto simp: image_iff)
  also have "map (\<lambda>e. cstr (ve_path e)) (take (length ps) (vf_entries s)) = ps"
    using assms by (simp add: registered_def)
  finally show ?thesis by simp
qed

text \<open>
  The registry. After registration the 36 resources of the namespace are exactly the paths
  that are virtual, no path is registered twice, and the 48 entries were enough.
\<close>

lemma vfile_register_paths:
  assumes "length (vf_entries s) = VFILE_MAX_ENTRIES"
  shows "vfile_is_virtual path (vfile_register s) = (if cstr path \<in> set vfile_paths then 1 else 0) \<and>
    distinct vfile_paths \<and> entry_count (vfile_register s) = 36"
proof -
  note reg = registered_all [OF assms]
  have "vfile_is_virtual path (vfile_register s) = (if cstr path \<in> set vfile_paths then 1 else 0)"
    using vfile_find_registered [OF reg, of path]
    by (cases "vfile_find (\<lambda>_. True) path (vfile_register s)") (simp_all add: vfile_is_virtual_def)
  moreover have "distinct vfile_paths" by code_simp
  moreover have "entry_count (vfile_register s) = 36" using reg by (simp add: registered_def vfile_paths_def)
  ultimately show ?thesis by simp
qed

definition blank_vfile :: vfile where
  "blank_vfile = \<lparr>vf_entries = replicate 48 \<lparr>ve_path = replicate 128 NUL, ve_is_dir = False, ve_read_fn = None,
     ve_write_fn = None, ve_list_fn = None, ve_size = 0\<rparr>, entry_count = 0, hostname_buf = ''plan0'' @ replicate 59 NUL,
     irq_counts = replicate 16 0\<rparr>"

end
