(* ===== verification/Vfs.thy ===== *)
theory Vfs
  imports "HOL-Library.AList" Ramfs Pipe Scheduler Vfile
begin

text \<open>
  \<^verbatim>\<open>src/fs/vfs.c\<close> and \<^verbatim>\<open>src/fs/fs_vfs.c\<close>: the state of the virtual file system, nodes, descriptor
  tables, the mount table, pipes, and the adapters of the back ends.

  A \<^verbatim>\<open>vfs_node_t*\<close> points into the node pool and is an index, \<open>None\<close> the null pointer. A
  \<^verbatim>\<open>vfs_ops_t*\<close> points to one of the static tables of functions of the source and is its name. A
  \<^verbatim>\<open>fd_table_t*\<close> is the kernel's own table or the address of one that \<^verbatim>\<open>fd_table_create\<close> took
  from the kernel heap; those tables are kept in a list by address.

  The disk file system \<^verbatim>\<open>src/fs/fs.c\<close> is a parameter, a record of its functions over a state
  \<open>'x\<close>; a \<^verbatim>\<open>fs_file_t*\<close> is an address, 0 the null pointer. A buffer of the caller is the list of
  its bytes. \<open>None\<close> as the result of an operation is a walk over the kernel heap that does not end.
\<close>

section \<open>State\<close>

abbreviation VFS_MAX_FDS :: nat where "VFS_MAX_FDS \<equiv> 32"
abbreviation VFS_MAX_MOUNTS :: nat where "VFS_MAX_MOUNTS \<equiv> 8"
abbreviation VFS_MAX_PATH :: nat where "VFS_MAX_PATH \<equiv> 256"
abbreviation MAX_VFS_NODES :: nat where "MAX_VFS_NODES \<equiv> 128"
abbreviation VFILE_VFS_OPEN_MAX :: nat where "VFILE_VFS_OPEN_MAX \<equiv> 8"
abbreviation FS_VFS_OPEN_MAX :: nat where "FS_VFS_OPEN_MAX \<equiv> 8"

abbreviation (input) VFS_TYPE_FILE :: int where "VFS_TYPE_FILE \<equiv> 1"
abbreviation (input) VFS_TYPE_DIR :: int where "VFS_TYPE_DIR \<equiv> 2"
abbreviation (input) VFS_TYPE_DEVICE :: int where "VFS_TYPE_DEVICE \<equiv> 3"
abbreviation (input) VFS_TYPE_PIPE_READ :: int where "VFS_TYPE_PIPE_READ \<equiv> 4"
abbreviation (input) VFS_TYPE_PIPE_WRITE :: int where "VFS_TYPE_PIPE_WRITE \<equiv> 5"
abbreviation (input) VFS_O_RDONLY :: int where "VFS_O_RDONLY \<equiv> 0"
abbreviation (input) VFS_O_WRONLY :: int where "VFS_O_WRONLY \<equiv> 1"
abbreviation (input) VFS_O_RDWR :: int where "VFS_O_RDWR \<equiv> 2"
abbreviation (input) VFS_O_CREAT :: int where "VFS_O_CREAT \<equiv> 4"
abbreviation (input) VFS_O_TRUNC :: int where "VFS_O_TRUNC \<equiv> 8"

datatype vfs_ops =
  Vfile_Vfs_Ops | Ramfs_Vfs_Ops | Pipe_Read_Vfs_Ops | Pipe_Write_Vfs_Ops | Console_Vfs_Ops | Fs_Vfs_Ops

record vfs_mount =
  mnt_path :: string
  mnt_ops :: "vfs_ops option"
  mnt_active :: bool

record vfs_node =
  n_type :: int
  n_internal_fd :: int
  n_ops :: "vfs_ops option"
  n_offset :: u64
  n_size :: u64
  n_ref_count :: int
  n_flags :: int

record fdtab =
  fds :: "nat option list"
  fd_count :: int

record 'x vfs =
  mounts :: "vfs_mount list"
  mount_count :: nat
  node_pool :: "vfs_node list"
  kernel_fd_table :: fdtab
  user_fd_tables :: "(u64 \<times> fdtab) list"
  vfile_open_paths :: "string list"
  vfile_open_used :: "bool list"
  fs_vfs_handles :: "u64 list"
  fs_vfs_handle_used :: "bool list"
  pipes :: "vfs_pipe list"
  pipe_in_use :: "bool list"
  k_ram :: ramfs
  k_sched :: sched
  k_pmm :: pmm
  k_vfile :: vfile
  k_terminal :: string
  vfile_scratch :: vbuf
  k_ext :: 'x

text \<open>The disk file system.\<close>

record 'x fs_funs =
  fs_open_f :: "string \<Rightarrow> int \<Rightarrow> 'x \<Rightarrow> u64 \<times> 'x"
  fs_close_f :: "u64 \<Rightarrow> 'x \<Rightarrow> 'x"
  fs_truncate_f :: "u64 \<Rightarrow> u64 \<Rightarrow> 'x \<Rightarrow> 'x"
  fs_seek_f :: "u64 \<Rightarrow> int \<Rightarrow> int \<Rightarrow> 'x \<Rightarrow> int \<times> 'x"
  fs_read_f :: "u64 \<Rightarrow> u64 \<Rightarrow> 'x \<Rightarrow> int \<times> u8 list \<times> 'x"
  fs_write_f :: "u64 \<Rightarrow> u8 list \<Rightarrow> 'x \<Rightarrow> int \<times> 'x"
  fs_size_f :: "u64 \<Rightarrow> 'x \<Rightarrow> u64"
  fs_mkdir_f :: "string \<Rightarrow> 'x \<Rightarrow> int \<times> 'x"
  fs_unlink_f :: "string \<Rightarrow> 'x \<Rightarrow> int \<times> 'x"
  fs_readdir_f :: "string \<Rightarrow> 'x \<Rightarrow> (string \<times> int \<times> u32) list"

text \<open>The rest of the machine the file system reads: the hardware and the disk file system.\<close>

record 'x env =
  e_machine :: machine
  e_fs :: "'x fs_funs"

definition empty_table :: fdtab where
  "empty_table = \<lparr>fds = replicate VFS_MAX_FDS None, fd_count = 0\<rparr>"

datatype table_ref = Kernel_Table | User_Table u64

definition get_table :: "table_ref \<Rightarrow> 'x vfs \<Rightarrow> fdtab" where
  "get_table t s =
     (case t of
        Kernel_Table \<Rightarrow> kernel_fd_table s
      | User_Table a \<Rightarrow> (case map_of (user_fd_tables s) a of Some tb \<Rightarrow> tb | None \<Rightarrow> empty_table))"

definition set_table :: "table_ref \<Rightarrow> fdtab \<Rightarrow> 'x vfs \<Rightarrow> 'x vfs" where
  "set_table t tb s =
     (case t of
        Kernel_Table \<Rightarrow> s\<lparr>kernel_fd_table := tb\<rparr>
      | User_Table a \<Rightarrow> s\<lparr>user_fd_tables := AList.update a tb (user_fd_tables s)\<rparr>)"

abbreviation upd_node :: "nat \<Rightarrow> (vfs_node \<Rightarrow> vfs_node) \<Rightarrow> 'x vfs \<Rightarrow> 'x vfs" where
  "upd_node i f s \<equiv> s\<lparr>node_pool := (node_pool s)[i := f (node_pool s ! i)]\<rparr>"

definition get_current_fd_table :: "'x vfs \<Rightarrow> table_ref" where
  "get_current_fd_table s =
     (case process_current (k_sched s) of
        Some p \<Rightarrow> (let a = fd_table (proc (k_sched s) p) in if a \<noteq> 0 then User_Table a else Kernel_Table)
      | None \<Rightarrow> Kernel_Table)"

section \<open>Nodes\<close>

definition alloc_node :: "'x vfs \<Rightarrow> nat option \<times> 'x vfs" where
  "alloc_node s =
     (case first_index (\<lambda>n. n_ref_count n = 0 \<and> n_ops n = None) (node_pool s) of
        Some i \<Rightarrow> (Some i, upd_node i (\<lambda>n. n\<lparr>n_ref_count := 1\<rparr>) s)
      | None \<Rightarrow> (None, s))"

definition free_node :: "nat \<Rightarrow> 'x vfs \<Rightarrow> 'x vfs" where
  "free_node i s =
     upd_node i (\<lambda>_. \<lparr>n_type = 0, n_internal_fd = -1, n_ops = None, n_offset = 0, n_size = 0, n_ref_count = 0,
                      n_flags = 0\<rparr>) s"

section \<open>The mount table\<close>

definition vfs_mount_fs :: "string \<Rightarrow> vfs_ops option \<Rightarrow> 'x vfs \<Rightarrow> 'x vfs" where
  "vfs_mount_fs path ops s =
     (case first_index (\<lambda>m. mnt_active m \<and> k_strcmp (mnt_path m) path = 0) (take (mount_count s) (mounts s)) of
        Some i \<Rightarrow> s\<lparr>mounts := (mounts s)[i := (mounts s ! i)\<lparr>mnt_ops := ops\<rparr>]\<rparr>
      | None \<Rightarrow>
          if mount_count s \<ge> VFS_MAX_MOUNTS then s
          else s\<lparr>mounts := (mounts s)[mount_count s :=
                   \<lparr>mnt_path = copy_bounded (VFS_MAX_PATH - 1) (mnt_path (mounts s ! mount_count s)) 0 path,
                    mnt_ops = ops, mnt_active = True\<rparr>],
                 mount_count := mount_count s + 1\<rparr>)"

text \<open>The search for the longest mounted prefix; \<open>best\<close> is the index found so far.\<close>

fun find_mount :: "string \<Rightarrow> vfs_mount list \<Rightarrow> nat \<Rightarrow> nat option \<times> nat \<Rightarrow> nat option" where
  "find_mount path [] i (best, best_len) = best"
| "find_mount path (m # ms) i (best, best_len) =
     (let len = k_strlen (mnt_path m)
      in if \<not> mnt_active m then find_mount path ms (Suc i) (best, best_len)
         else if len < best_len then find_mount path ms (Suc i) (best, best_len)
         else if k_strncmp path (mnt_path m) (int len) \<noteq> 0 then find_mount path ms (Suc i) (best, best_len)
         else if len > 1 \<and> cnth path len \<noteq> NUL \<and> cnth path len \<noteq> CHR ''/''
         then find_mount path ms (Suc i) (best, best_len)
         else find_mount path ms (Suc i) (Some i, len))"

definition find_ops :: "string \<Rightarrow> 'x vfs \<Rightarrow> vfs_ops option" where
  "find_ops path s =
     (let ms = take (mount_count s) (mounts s);
          best = (if cchar path \<noteq> CHR ''/''
                  then first_index (\<lambda>m. mnt_active m \<and> cnth (mnt_path m) 0 = CHR ''/'' \<and> cnth (mnt_path m) 1 = NUL) ms
                  else find_mount path ms 0 (None, 0))
      in case best of
           None \<Rightarrow> None
         | Some i \<Rightarrow> (case mnt_ops (mounts s ! i) of Some ops \<Rightarrow> Some ops | None \<Rightarrow> Some Vfile_Vfs_Ops))"

definition vfs_mount_count :: "'x vfs \<Rightarrow> int" where
  "vfs_mount_count s = int (length (filter mnt_active (take (mount_count s) (mounts s))))"

text \<open>The path of the \<open>index\<close>-th active mount, as the copy loop leaves it, or \<open>None\<close> for -1.\<close>

definition vfs_get_mount :: "int \<Rightarrow> 'x vfs \<Rightarrow> string option" where
  "vfs_get_mount index s =
     (let ms = filter mnt_active (take (mount_count s) (mounts s))
      in if index \<ge> 0 \<and> index < int (length ms)
         then Some (copy_bounded (VFS_MAX_PATH - 1) (replicate VFS_MAX_PATH NUL) 0 (mnt_path (ms ! nat index)))
         else None)"

section \<open>Ramfs adapter\<close>

definition ramfs_strip_slash :: "string \<Rightarrow> string" where
  "ramfs_strip_slash path = dropWhile (\<lambda>c. c = CHR ''/'') path"

definition ramfs_vfs_open :: "string \<Rightarrow> int \<Rightarrow> 'x vfs \<Rightarrow> (int \<times> 'x vfs) option" where
  "ramfs_vfs_open path flags s =
     (let name = ramfs_strip_slash path
      in if cchar name = NUL then Some (-1, s)
         else if flags AND VFS_O_CREAT \<noteq> 0 then
           (let fd = ramfs_find name (k_ram s)
            in if fd < 0 then map_option (\<lambda>(fd, r). (fd, s\<lparr>k_ram := r\<rparr>)) (ramfs_create name (k_ram s))
               else Some (fd, s))
         else Some (ramfs_find name (k_ram s), s))"

definition ramfs_vfs_close :: "int \<Rightarrow> 'x vfs \<Rightarrow> (int \<times> 'x vfs) option" where
  "ramfs_vfs_close internal_fd s = Some (0, s)"

definition ramfs_vfs_read :: "int \<Rightarrow> u64 \<Rightarrow> u64 \<Rightarrow> 'x vfs \<Rightarrow> (int \<times> u8 list \<times> 'x vfs) option" where
  "ramfs_vfs_read internal_fd sz offset s =
     (let (n, bs) = ramfs_read internal_fd (ucast sz) (ucast offset) (k_ram s) in Some (n, bs, s))"

definition ramfs_vfs_write :: "int \<Rightarrow> u8 list \<Rightarrow> 'x vfs \<Rightarrow> (int \<times> 'x vfs) option" where
  "ramfs_vfs_write internal_fd buf s =
     map_option (\<lambda>(n, r). (n, s\<lparr>k_ram := r\<rparr>)) (ramfs_write internal_fd (take (length buf mod 2 ^ 32) buf) (k_ram s))"

definition ramfs_vfs_mkdir :: "string \<Rightarrow> 'x vfs \<Rightarrow> (int \<times> 'x vfs) option" where
  "ramfs_vfs_mkdir path s =
     (let (n, r) = ramfs_mkdir (ramfs_strip_slash path) (k_ram s) in Some (n, s\<lparr>k_ram := r\<rparr>))"

definition ramfs_vfs_unlink :: "string \<Rightarrow> 'x vfs \<Rightarrow> (int \<times> 'x vfs) option" where
  "ramfs_vfs_unlink path s =
     map_option (\<lambda>(n, r). (n, s\<lparr>k_ram := r\<rparr>)) (ramfs_delete (ramfs_strip_slash path) (k_ram s))"

definition ramfs_vfs_size :: "int \<Rightarrow> 'x vfs \<Rightarrow> int" where
  "ramfs_vfs_size internal_fd s = sint (ramfs_size internal_fd (k_ram s))"

section \<open>Pipe adapter\<close>

definition pipe_alloc_index :: "'x vfs \<Rightarrow> nat option" where
  "pipe_alloc_index s = first_index (\<lambda>u. \<not> u) (take VFS_MAX_PIPES (pipe_in_use s))"

definition pipe_open_idx :: "int \<Rightarrow> 'x vfs \<Rightarrow> bool" where
  "pipe_open_idx i s \<longleftrightarrow> \<not> (i < 0 \<or> i \<ge> int VFS_MAX_PIPES \<or> \<not> pipe_in_use s ! nat i)"

abbreviation upd_pipe :: "nat \<Rightarrow> (vfs_pipe \<Rightarrow> vfs_pipe) \<Rightarrow> 'x vfs \<Rightarrow> 'x vfs" where
  "upd_pipe i f s \<equiv> s\<lparr>pipes := (pipes s)[i := f (pipes s ! i)]\<rparr>"

definition pipe_vfs_read :: "int \<Rightarrow> u64 \<Rightarrow> 'x vfs \<Rightarrow> (int \<times> u8 list \<times> 'x vfs) option" where
  "pipe_vfs_read pipe_idx sz s =
     (if \<not> pipe_open_idx pipe_idx s then Some (-1, [], s)
      else
        (let (bs, p) = pipe_get (unat sz) (pipes s ! nat pipe_idx)
         in Some (int (length bs), bs, upd_pipe (nat pipe_idx) (\<lambda>_. p) s)))"

definition pipe_vfs_write :: "int \<Rightarrow> u8 list \<Rightarrow> 'x vfs \<Rightarrow> (int \<times> 'x vfs) option" where
  "pipe_vfs_write pipe_idx buf s =
     (if \<not> pipe_open_idx pipe_idx s then Some (-1, s)
      else
        (let (n, p) = pipe_put buf (pipes s ! nat pipe_idx)
         in Some (int n, upd_pipe (nat pipe_idx) (\<lambda>_. p) s)))"

definition pipe_release :: "nat \<Rightarrow> 'x vfs \<Rightarrow> 'x vfs" where
  "pipe_release i s =
     (if readers (pipes s ! i) \<le> 0 \<and> writers (pipes s ! i) \<le> 0
      then s\<lparr>pipe_in_use := (pipe_in_use s)[i := False]\<rparr> else s)"

definition pipe_vfs_close_read :: "int \<Rightarrow> 'x vfs \<Rightarrow> (int \<times> 'x vfs) option" where
  "pipe_vfs_close_read pipe_idx s =
     (if \<not> pipe_open_idx pipe_idx s then Some (-1, s)
      else Some (0, pipe_release (nat pipe_idx) (upd_pipe (nat pipe_idx) (\<lambda>p. p\<lparr>readers := readers p - 1\<rparr>) s)))"

definition pipe_vfs_close_write :: "int \<Rightarrow> 'x vfs \<Rightarrow> (int \<times> 'x vfs) option" where
  "pipe_vfs_close_write pipe_idx s =
     (if \<not> pipe_open_idx pipe_idx s then Some (-1, s)
      else Some (0, pipe_release (nat pipe_idx) (upd_pipe (nat pipe_idx) (\<lambda>p. p\<lparr>writers := writers p - 1\<rparr>) s)))"

section \<open>Disk file system adapter\<close>

definition fs_vfs_open :: "'x fs_funs \<Rightarrow> string \<Rightarrow> int \<Rightarrow> 'x vfs \<Rightarrow> (int \<times> 'x vfs) option" where
  "fs_vfs_open F path flags s =
     (let access = flags AND 3;
          mode = (if access = VFS_O_WRONLY \<or> access = VFS_O_RDWR \<or> flags AND VFS_O_CREAT \<noteq> 0 then 1 else 0);
          (f, x) = fs_open_f F path mode (k_ext s)
      in if f = 0 then Some (-1, s\<lparr>k_ext := x\<rparr>)
         else
           (let x = (if flags AND VFS_O_TRUNC \<noteq> 0
                     then snd (fs_seek_f F f 0 0 (fs_truncate_f F f 0 x)) else x)
            in case first_index (\<lambda>u. \<not> u) (fs_vfs_handle_used s) of
                 Some i \<Rightarrow> Some (int i, s\<lparr>k_ext := x, fs_vfs_handles := (fs_vfs_handles s)[i := f],
                                         fs_vfs_handle_used := (fs_vfs_handle_used s)[i := True]\<rparr>)
               | None \<Rightarrow> Some (-1, s\<lparr>k_ext := fs_close_f F f x\<rparr>)))"

definition fs_open_handle :: "int \<Rightarrow> 'x vfs \<Rightarrow> bool" where
  "fs_open_handle fd s \<longleftrightarrow> \<not> (fd < 0 \<or> fd \<ge> int FS_VFS_OPEN_MAX \<or> \<not> fs_vfs_handle_used s ! nat fd)"

definition fs_vfs_close :: "'x fs_funs \<Rightarrow> int \<Rightarrow> 'x vfs \<Rightarrow> (int \<times> 'x vfs) option" where
  "fs_vfs_close F internal_fd s =
     (if \<not> fs_open_handle internal_fd s then Some (-1, s)
      else Some (0, s\<lparr>k_ext := fs_close_f F (fs_vfs_handles s ! nat internal_fd) (k_ext s),
                      fs_vfs_handle_used := (fs_vfs_handle_used s)[nat internal_fd := False]\<rparr>))"

definition fs_vfs_read :: "'x fs_funs \<Rightarrow> int \<Rightarrow> u64 \<Rightarrow> u64 \<Rightarrow> 'x vfs \<Rightarrow> (int \<times> u8 list \<times> 'x vfs) option" where
  "fs_vfs_read F internal_fd sz offset s =
     (if \<not> fs_open_handle internal_fd s then Some (-1, [], s)
      else
        (let f = fs_vfs_handles s ! nat internal_fd;
             (r, x) = fs_seek_f F f (sint offset) 0 (k_ext s)
         in if r < 0 then Some (-1, [], s\<lparr>k_ext := x\<rparr>)
            else (let (n, bs, x) = fs_read_f F f sz x in Some (n, bs, s\<lparr>k_ext := x\<rparr>))))"

definition fs_vfs_write :: "'x fs_funs \<Rightarrow> int \<Rightarrow> u8 list \<Rightarrow> 'x vfs \<Rightarrow> (int \<times> 'x vfs) option" where
  "fs_vfs_write F internal_fd buf s =
     (if \<not> fs_open_handle internal_fd s then Some (-1, s)
      else (let (n, x) = fs_write_f F (fs_vfs_handles s ! nat internal_fd) buf (k_ext s)
            in Some (n, s\<lparr>k_ext := x\<rparr>)))"

definition fs_vfs_size :: "'x fs_funs \<Rightarrow> int \<Rightarrow> 'x vfs \<Rightarrow> int" where
  "fs_vfs_size F internal_fd s =
     (if \<not> fs_open_handle internal_fd s then 0
      else sint (ucast (fs_size_f F (fs_vfs_handles s ! nat internal_fd) (k_ext s)) :: u32))"

definition fs_vfs_mkdir :: "'x fs_funs \<Rightarrow> string \<Rightarrow> 'x vfs \<Rightarrow> (int \<times> 'x vfs) option" where
  "fs_vfs_mkdir F path s = (let (n, x) = fs_mkdir_f F path (k_ext s) in Some (n, s\<lparr>k_ext := x\<rparr>))"

definition fs_vfs_unlink :: "'x fs_funs \<Rightarrow> string \<Rightarrow> 'x vfs \<Rightarrow> (int \<times> 'x vfs) option" where
  "fs_vfs_unlink F path s = (let (n, x) = fs_unlink_f F path (k_ext s) in Some (n, s\<lparr>k_ext := x\<rparr>))"

definition fs_vfs_list :: "'x fs_funs \<Rightarrow> 'x vfs \<Rightarrow> (string \<times> int \<times> u32) list" where
  "fs_vfs_list F s = fs_readdir_f F ''/'' (k_ext s)"


section \<open>Virtual file adapter\<close>

text \<open>The read and size operations follow with the generators.\<close>

definition vfile_vfs_open :: "string \<Rightarrow> int \<Rightarrow> 'x vfs \<Rightarrow> (int \<times> 'x vfs) option" where
  "vfile_vfs_open path flags s =
     (if flags AND VFS_O_CREAT \<noteq> 0 then Some (-1, s)
      else if vfile_exists path (k_vfile s) = 0 then Some (-1, s)
      else case first_index (\<lambda>u. \<not> u) (vfile_open_used s) of
        Some i \<Rightarrow> Some (int i,
          s\<lparr>vfile_open_paths := (vfile_open_paths s)
                [i := copy_bounded (VFS_MAX_PATH - 1) (vfile_open_paths s ! i) 0 path],
            vfile_open_used := (vfile_open_used s)[i := True]\<rparr>)
      | None \<Rightarrow> Some (-1, s))"

definition vfile_vfs_close :: "int \<Rightarrow> 'x vfs \<Rightarrow> (int \<times> 'x vfs) option" where
  "vfile_vfs_close internal_fd s =
     (if internal_fd < 0 \<or> internal_fd \<ge> int VFILE_VFS_OPEN_MAX then Some (-1, s)
      else Some (0, s\<lparr>vfile_open_used := (vfile_open_used s)[nat internal_fd := False]\<rparr>))"

definition vfile_open_idx :: "int \<Rightarrow> 'x vfs \<Rightarrow> bool" where
  "vfile_open_idx i s \<longleftrightarrow> \<not> (i < 0 \<or> i \<ge> int VFILE_VFS_OPEN_MAX \<or> \<not> vfile_open_used s ! nat i)"

abbreviation chars :: "u8 list \<Rightarrow> string" where
  "chars bs \<equiv> map (\<lambda>b. char_of (unat b)) bs"

abbreviation bytes :: "string \<Rightarrow> u8 list" where
  "bytes cs \<equiv> map (\<lambda>c. of_nat (of_char c)) cs"

definition vfile_vfs_write :: "int \<Rightarrow> u8 list \<Rightarrow> 'x vfs \<Rightarrow> (int \<times> 'x vfs) option" where
  "vfile_vfs_write internal_fd buf s =
     (if \<not> vfile_open_idx internal_fd s then Some (-1, s)
      else
        (let (n, out, v) = vfile_write (vfile_open_paths s ! nat internal_fd) (chars buf) (k_vfile s)
         in Some (n, s\<lparr>k_vfile := v, k_terminal := k_terminal s @ out\<rparr>)))"

section \<open>Console device\<close>

definition console_vfs_read :: "int \<Rightarrow> u64 \<Rightarrow> u64 \<Rightarrow> 'x vfs \<Rightarrow> (int \<times> u8 list \<times> 'x vfs) option" where
  "console_vfs_read internal_fd sz offset s = Some (0, [], s)"

definition console_vfs_write :: "int \<Rightarrow> u8 list \<Rightarrow> 'x vfs \<Rightarrow> (int \<times> 'x vfs) option" where
  "console_vfs_write internal_fd buf s =
     Some (sint (of_nat (length buf) :: u32), s\<lparr>k_terminal := k_terminal s @ chars buf\<rparr>)"

section \<open>Tables of operations\<close>

text \<open>What a table of operations has in the slots that depend on no other part of the file system.\<close>

fun ops_close :: "'x env \<Rightarrow> vfs_ops \<Rightarrow> (int \<Rightarrow> 'x vfs \<Rightarrow> (int \<times> 'x vfs) option) option" where
  "ops_close E Vfile_Vfs_Ops = Some vfile_vfs_close"
| "ops_close E Ramfs_Vfs_Ops = Some ramfs_vfs_close"
| "ops_close E Pipe_Read_Vfs_Ops = Some pipe_vfs_close_read"
| "ops_close E Pipe_Write_Vfs_Ops = Some pipe_vfs_close_write"
| "ops_close E Console_Vfs_Ops = None"
| "ops_close E Fs_Vfs_Ops = Some (fs_vfs_close (e_fs E))"

fun ops_open :: "'x env \<Rightarrow> vfs_ops \<Rightarrow> (string \<Rightarrow> int \<Rightarrow> 'x vfs \<Rightarrow> (int \<times> 'x vfs) option) option" where
  "ops_open E Vfile_Vfs_Ops = Some vfile_vfs_open"
| "ops_open E Ramfs_Vfs_Ops = Some ramfs_vfs_open"
| "ops_open E Fs_Vfs_Ops = Some (fs_vfs_open (e_fs E))"
| "ops_open E _ = None"

fun ops_write :: "'x env \<Rightarrow> vfs_ops \<Rightarrow> (int \<Rightarrow> u8 list \<Rightarrow> 'x vfs \<Rightarrow> (int \<times> 'x vfs) option) option" where
  "ops_write E Vfile_Vfs_Ops = Some vfile_vfs_write"
| "ops_write E Ramfs_Vfs_Ops = Some ramfs_vfs_write"
| "ops_write E Pipe_Read_Vfs_Ops = None"
| "ops_write E Pipe_Write_Vfs_Ops = Some pipe_vfs_write"
| "ops_write E Console_Vfs_Ops = Some console_vfs_write"
| "ops_write E Fs_Vfs_Ops = Some (fs_vfs_write (e_fs E))"

fun ops_mkdir :: "'x env \<Rightarrow> vfs_ops \<Rightarrow> (string \<Rightarrow> 'x vfs \<Rightarrow> (int \<times> 'x vfs) option) option" where
  "ops_mkdir E Ramfs_Vfs_Ops = Some ramfs_vfs_mkdir"
| "ops_mkdir E Fs_Vfs_Ops = Some (fs_vfs_mkdir (e_fs E))"
| "ops_mkdir E _ = None"

fun ops_unlink :: "'x env \<Rightarrow> vfs_ops \<Rightarrow> (string \<Rightarrow> 'x vfs \<Rightarrow> (int \<times> 'x vfs) option) option" where
  "ops_unlink E Ramfs_Vfs_Ops = Some ramfs_vfs_unlink"
| "ops_unlink E Fs_Vfs_Ops = Some (fs_vfs_unlink (e_fs E))"
| "ops_unlink E _ = None"

fun ops_list :: "'x env \<Rightarrow> vfs_ops \<Rightarrow> ('x vfs \<Rightarrow> (string \<times> int \<times> u32) list) option" where
  "ops_list E Ramfs_Vfs_Ops = Some (\<lambda>s. ramfs_list (k_ram s))"
| "ops_list E Fs_Vfs_Ops = Some (fs_vfs_list (e_fs E))"
| "ops_list E _ = None"

section \<open>Descriptor tables\<close>

definition fd_table_get :: "fdtab \<Rightarrow> int \<Rightarrow> nat option" where
  "fd_table_get tb fd = (if fd < 0 \<or> fd \<ge> int VFS_MAX_FDS then None else fds tb ! nat fd)"

text \<open>\<open>table->fds[i] = node; node->ref_count++; table->count++\<close>.\<close>

definition fd_install :: "table_ref \<Rightarrow> nat \<Rightarrow> nat \<Rightarrow> 'x vfs \<Rightarrow> 'x vfs" where
  "fd_install t i node s =
     (let tb = get_table t s
      in upd_node node (\<lambda>n. n\<lparr>n_ref_count := n_ref_count n + 1\<rparr>)
           (set_table t (tb\<lparr>fds := (fds tb)[i := Some node], fd_count := fd_count tb + 1\<rparr>) s))"

definition fd_table_alloc :: "table_ref \<Rightarrow> nat \<Rightarrow> 'x vfs \<Rightarrow> int \<times> 'x vfs" where
  "fd_table_alloc t node s =
     (case first_index (\<lambda>e. e = None) (fds (get_table t s)) of
        Some i \<Rightarrow> (int i, fd_install t i node s)
      | None \<Rightarrow> (-1, s))"

text \<open>One reference to a node goes away; the last one closes the back end and frees the node.\<close>

definition close_node :: "'x env \<Rightarrow> nat \<Rightarrow> 'x vfs \<Rightarrow> 'x vfs option" where
  "close_node E node s =
     (let n = node_pool s ! node
      in Option.bind
           (case Option.bind (n_ops n) (ops_close E) of
              Some close \<Rightarrow> map_option snd (close (n_internal_fd n) s)
            | None \<Rightarrow> Some s)
           (\<lambda>s. Some (free_node node s)))"

definition drop_ref :: "'x env \<Rightarrow> nat \<Rightarrow> 'x vfs \<Rightarrow> 'x vfs option" where
  "drop_ref E node s =
     (let s = upd_node node (\<lambda>n. n\<lparr>n_ref_count := n_ref_count n - 1\<rparr>) s
      in if n_ref_count (node_pool s ! node) \<le> 0 then close_node E node s else Some s)"

definition fd_table_close :: "'x env \<Rightarrow> table_ref \<Rightarrow> int \<Rightarrow> 'x vfs \<Rightarrow> (int \<times> 'x vfs) option" where
  "fd_table_close E t fd s =
     (if fd < 0 \<or> fd \<ge> int VFS_MAX_FDS then Some (-1, s)
      else case fds (get_table t s) ! nat fd of
        None \<Rightarrow> Some (-1, s)
      | Some node \<Rightarrow>
          Option.bind (drop_ref E node s) (\<lambda>s.
            let tb = get_table t s
            in Some (0, set_table t (tb\<lparr>fds := (fds tb)[nat fd := None], fd_count := fd_count tb - 1\<rparr>) s)))"

text \<open>\<^verbatim>\<open>fd_table_install_std\<close> for the descriptors from \<open>fd\<close> on; it stops when no node is left.\<close>

fun install_std_from :: "nat list \<Rightarrow> table_ref \<Rightarrow> 'x vfs \<Rightarrow> 'x vfs" where
  "install_std_from [] t s = s"
| "install_std_from (fd # rest) t s =
     (case alloc_node s of
        (None, s) \<Rightarrow> s
      | (Some node, s) \<Rightarrow>
          (let s = upd_node node (\<lambda>n. n\<lparr>n_type := VFS_TYPE_DEVICE, n_internal_fd := int fd,
                     n_ops := Some Console_Vfs_Ops, n_offset := 0, n_size := 0, n_ref_count := 1,
                     n_flags := (if fd = 0 then VFS_O_RDONLY else VFS_O_WRONLY)\<rparr>) s;
               tb = get_table t s
           in install_std_from rest t
                (set_table t (tb\<lparr>fds := (fds tb)[fd := Some node], fd_count := fd_count tb + 1\<rparr>) s)))"

definition fd_table_install_std :: "table_ref \<Rightarrow> 'x vfs \<Rightarrow> 'x vfs" where
  "fd_table_install_std t s = install_std_from [0, 1, 2] t s"

text \<open>\<^verbatim>\<open>sizeof(fd_table_t)\<close> is 264. The address is 0 when the heap is exhausted.\<close>

definition alloc_table :: "fdtab \<Rightarrow> 'x vfs \<Rightarrow> (u64 \<times> 'x vfs) option" where
  "alloc_table tb s =
     Option.bind (kmalloc 264 (rf_heap (k_ram s))) (\<lambda>(p, h).
       let s = s\<lparr>k_ram := (k_ram s)\<lparr>rf_heap := h\<rparr>\<rparr>
       in if p = 0 then Some (0, s) else Some (p, set_table (User_Table p) tb s))"

definition fd_table_create :: "'x vfs \<Rightarrow> (u64 \<times> 'x vfs) option" where
  "fd_table_create s =
     Option.bind (alloc_table empty_table s) (\<lambda>(p, s).
       if p = 0 then Some (0, s) else Some (p, fd_table_install_std (User_Table p) s))"

fun close_all :: "'x env \<Rightarrow> table_ref \<Rightarrow> nat list \<Rightarrow> 'x vfs \<Rightarrow> 'x vfs option" where
  "close_all E t [] s = Some s"
| "close_all E t (i # rest) s =
     (case fds (get_table t s) ! i of
        None \<Rightarrow> close_all E t rest s
      | Some node \<Rightarrow>
          Option.bind (drop_ref E node s) (\<lambda>s.
            let tb = get_table t s
            in close_all E t rest (set_table t (tb\<lparr>fds := (fds tb)[i := None]\<rparr>) s)))"

definition fd_table_destroy :: "'x env \<Rightarrow> u64 \<Rightarrow> 'x vfs \<Rightarrow> 'x vfs option" where
  "fd_table_destroy E a s =
     Option.bind (close_all E (User_Table a) [0..<VFS_MAX_FDS] s) (\<lambda>s.
     Option.bind (kfree a (rf_heap (k_ram s))) (\<lambda>h.
       Some (s\<lparr>k_ram := (k_ram s)\<lparr>rf_heap := h\<rparr>, user_fd_tables := AList.delete a (user_fd_tables s)\<rparr>)))"

fun clone_from :: "nat list \<Rightarrow> table_ref \<Rightarrow> table_ref \<Rightarrow> 'x vfs \<Rightarrow> 'x vfs" where
  "clone_from [] src dst s = s"
| "clone_from (i # rest) src dst s =
     (case fds (get_table src s) ! i of
        None \<Rightarrow> clone_from rest src dst s
      | Some node \<Rightarrow> clone_from rest src dst (fd_install dst i node s))"

definition fd_table_clone :: "table_ref \<Rightarrow> 'x vfs \<Rightarrow> (u64 \<times> 'x vfs) option" where
  "fd_table_clone src s =
     Option.bind (alloc_table empty_table s) (\<lambda>(p, s).
       if p = 0 then Some (0, s) else Some (p, clone_from [0..<VFS_MAX_FDS] src (User_Table p) s))"

definition vfs_fd_count :: "'x vfs \<Rightarrow> int" where
  "vfs_fd_count s = fd_count (get_table (get_current_fd_table s) s)"

text \<open>The type and the size of an open descriptor, \<open>None\<close> for -1.\<close>

definition vfs_fd_info :: "int \<Rightarrow> 'x vfs \<Rightarrow> (int \<times> u64) option" where
  "vfs_fd_info fd s =
     (case fd_table_get (get_table (get_current_fd_table s) s) fd of
        None \<Rightarrow> None
      | Some node \<Rightarrow> Some (n_type (node_pool s ! node), n_size (node_pool s ! node)))"

section \<open>Start\<close>

definition vfs_init :: "'x vfs \<Rightarrow> 'x vfs" where
  "vfs_init s =
     (let s = s\<lparr>node_pool := map (\<lambda>n. n\<lparr>n_ref_count := 0, n_ops := None, n_internal_fd := -1\<rparr>) (node_pool s),
                kernel_fd_table := empty_table, mount_count := 0\<rparr>;
          s = vfs_mount_fs ''/'' (Some Ramfs_Vfs_Ops) s
      in fd_table_install_std Kernel_Table s)"

definition vfile_init :: "'x vfs \<Rightarrow> 'x vfs" where
  "vfile_init s = (let s = vfs_mount_fs ''/0'' None s in s\<lparr>k_vfile := vfile_register (k_vfile s)\<rparr>)"

end
