(* ===== verification/Vfs_Files.thy ===== *)
theory Vfs_Files
  imports Vfs
begin

text \<open>
  The part of \<^verbatim>\<open>src/fs/vfile.c\<close> that looks at descriptors and mounts, the reading side of the virtual
  file adapter, and the calls of \<^verbatim>\<open>src/fs/vfs.c\<close> that work on descriptors and paths.

  \<^verbatim>\<open>vfile_read\<close> is modelled on the static buffer \<^verbatim>\<open>vfile_scratch\<close> the adapter passes to it. Reading
  \<^verbatim>\<open>/0/system/self/fd/N\<close> calls \<^verbatim>\<open>vfs_read\<close> again; the counter \<^verbatim>\<open>self_fd_depth\<close> is 0 outside of
  these calls and is modelled by the recursion over the number of nested calls that are left.
\<close>

section \<open>Virtual files about mounts and descriptors\<close>

text \<open>\<^verbatim>\<open>for (j = 0; j < plen && pos < max - 1; j++) buf[pos++] = mpath[j]\<close>\<close>

fun app_name :: "u64 \<Rightarrow> string \<Rightarrow> out \<Rightarrow> out" where
  "app_name mx [] w = w"
| "app_name mx (c # cs) w = (if of_nat (snd w) < mx - 1 then app_name mx cs (app_chr c w) else w)"

definition gen_mount_line :: "u64 \<Rightarrow> string \<Rightarrow> out \<Rightarrow> out" where
  "gen_mount_line mx mpath w =
     (if k_strcmp mpath ''/'' = 0 then app_str mx (''ramfs         /        ramfs'' @ [NL]) w
      else
        (let w = app_str mx ''vfile         '' w;
             plen = k_strlen mpath;
             w = app_name mx (take plen mpath) w;
             w = fold (\<lambda>_. app_chr (CHR '' '')) [plen..<7] w
         in app_str mx (''  virtual'' @ [NL]) w))"

definition gen_mounts :: "u64 \<Rightarrow> vbuf \<Rightarrow> 'x vfs \<Rightarrow> out" where
  "gen_mounts mx buf s =
     (let w = app_str mx (''Filesystem    Mount    Type'' @ [NL]) (buf, 0);
          w = app_str mx (''------------  -------  ----'' @ [NL]) w;
          mcount = vfs_mount_count s;
          w = (if mcount \<le> 0 then app_str mx (''(none)'' @ [NL]) w else w)
      in fold (\<lambda>i w. case vfs_get_mount i s of None \<Rightarrow> w | Some mpath \<Rightarrow> gen_mount_line mx mpath w)
           [0..mcount - 1] w)"

definition fd_type_name :: "int \<Rightarrow> string" where
  "fd_type_name type =
     (if type = VFS_TYPE_FILE then ''file''
      else if type = VFS_TYPE_DIR then ''dir''
      else if type = VFS_TYPE_DEVICE then ''device''
      else if type = VFS_TYPE_PIPE_READ then ''pipe-r''
      else if type = VFS_TYPE_PIPE_WRITE then ''pipe-w''
      else ''unknown'')"

text \<open>The calls of the callback, in order.\<close>

definition list_self_fd :: "'x vfs \<Rightarrow> (string \<times> int \<times> u32) list" where
  "list_self_fd s =
     map (\<lambda>fd. (if fd = 0 then ''0'' else rev (dec_digits fd), 0, 0))
       (filter (\<lambda>fd. vfs_fd_info (int fd) s \<noteq> None) [0..<VFS_MAX_FDS])"

definition gen_fdinfo_line :: "u64 \<Rightarrow> 'x vfs \<Rightarrow> nat \<Rightarrow> out \<Rightarrow> out" where
  "gen_fdinfo_line mx s fd w =
     (case vfs_fd_info (int fd) s of
        None \<Rightarrow> w
      | Some (type, sz) \<Rightarrow>
          (let w = (if fd < 10 then app_chr (CHR '' '') w else w);
               w = app_dec mx (of_nat fd) w;
               w = app_str mx ''  '' w;
               w = app_str mx (fd_type_name type) w;
               w = app_pad mx (9 - k_strlen (fd_type_name type)) w;
               w = app_str mx ''  '' w;
               w = app_dec mx sz w
           in app_chr NL w))"

definition gen_self_fdinfo :: "u64 \<Rightarrow> vbuf \<Rightarrow> 'x vfs \<Rightarrow> out" where
  "gen_self_fdinfo mx buf s =
     (let w = app_str mx (''fd  Type       Size'' @ [NL]) (buf, 0);
          w = app_str mx (''--  ---------  ----'' @ [NL]) w
      in fold (gen_fdinfo_line mx s) [0..<VFS_MAX_FDS] w)"

text \<open>The call of the read callback of an entry: its result and the state with the new contents of the buffer.\<close>

abbreviation done_gen :: "'x vfs \<Rightarrow> out \<Rightarrow> (int \<times> 'x vfs) option" where
  "done_gen s w \<equiv> Some (int (snd w), s\<lparr>vfile_scratch := fst w\<rparr>)"

fun run_read_fn :: "'x env \<Rightarrow> vfile_read_fn \<Rightarrow> u64 \<Rightarrow> vbuf \<Rightarrow> 'x vfs \<Rightarrow> (int \<times> 'x vfs) option" where
  "run_read_fn E Gen_processes mx b s = done_gen s (gen_processes (k_sched s) mx b)"
| "run_read_fn E Gen_datetime mx b s = done_gen s (gen_datetime (e_machine E) mx b)"
| "run_read_fn E Gen_version mx b s = done_gen s (gen_version mx b)"
| "run_read_fn E Gen_timer mx b s = done_gen s (gen_timer (k_sched s) mx b)"
| "run_read_fn E Gen_stat mx b s = done_gen s (gen_stat (k_sched s) mx b)"
| "run_read_fn E Gen_interrupts mx b s = done_gen s (gen_interrupts (irq_counts (k_vfile s)) mx b)"
| "run_read_fn E Gen_mounts mx b s = done_gen s (gen_mounts mx b s)"
| "run_read_fn E Gen_heap mx b s = Option.bind (gen_heap (rf_heap (k_ram s)) mx b) (done_gen s)"
| "run_read_fn E Gen_hostname mx b s = done_gen s (gen_hostname (hostname_buf (k_vfile s)) mx b)"
| "run_read_fn E Gen_kernel_name mx b s = done_gen s (gen_kernel_name mx b)"
| "run_read_fn E Gen_kernel_version mx b s = done_gen s (gen_kernel_version mx b)"
| "run_read_fn E Gen_kernel_arch mx b s = done_gen s (gen_kernel_arch mx b)"
| "run_read_fn E Gen_uptime mx b s = done_gen s (gen_uptime (k_sched s) mx b)"
| "run_read_fn E Gen_self_pid mx b s = done_gen s (gen_self_pid (k_sched s) mx b)"
| "run_read_fn E Gen_self_name mx b s = done_gen s (gen_self_name (k_sched s) mx b)"
| "run_read_fn E Gen_self_status mx b s = done_gen s (gen_self_status (k_sched s) mx b)"
| "run_read_fn E Gen_self_fdinfo mx b s = done_gen s (gen_self_fdinfo mx b s)"
| "run_read_fn E Gen_memory mx b s = done_gen s (gen_memory (k_pmm s) mx b)"
| "run_read_fn E Gen_meminfo mx b s = done_gen s (gen_meminfo (k_pmm s) mx b)"
| "run_read_fn E Gen_cpu mx b s = done_gen s (gen_cpu (e_machine E) mx b)"
| "run_read_fn E Gen_cpuid mx b s = done_gen s (gen_cpuid (e_machine E) mx b)"
| "run_read_fn E Gen_platform mx b s = done_gen s (gen_platform mx b)"
| "run_read_fn E Gen_devices mx b s = done_gen s (gen_devices (e_machine E) mx b)"
| "run_read_fn E Gen_null mx b s = done_gen s (gen_null mx b)"
| "run_read_fn E Gen_zero mx b s = (let (b, n) = gen_zero mx b in Some (n, s\<lparr>vfile_scratch := b\<rparr>))"
| "run_read_fn E Gen_console mx b s = done_gen s (gen_console mx b)"

section \<open>Reading virtual files\<close>

text \<open>The digits of a descriptor number: the number, how many digits there were and the rest; \<open>None\<close> when it gets too large.\<close>

fun self_fd_num :: "string \<Rightarrow> nat \<Rightarrow> nat \<Rightarrow> (nat \<times> nat \<times> string) option" where
  "self_fd_num [] fd digits = Some (fd, digits, [])"
| "self_fd_num (c # num) fd digits =
     (if 48 \<le> (of_char c :: nat) \<and> (of_char c :: nat) \<le> 57 then
        (let fd = fd * 10 + (of_char c - 48)
         in if fd > 9 * VFS_MAX_FDS then None else self_fd_num num fd (Suc digits))
      else Some (fd, digits, c # num))"

type_synonym 'x reader = "int \<Rightarrow> u64 \<Rightarrow> 'x vfs \<Rightarrow> (int \<times> u8 list \<times> 'x vfs) option"

definition put_scratch :: "u8 list \<Rightarrow> vbuf \<Rightarrow> vbuf" where
  "put_scratch bs b = (\<lambda>i. if i < length bs then char_of (unat (bs ! i)) else b i)"

text \<open>\<open>rd\<close> is the nested \<^verbatim>\<open>vfs_read\<close>, or \<open>None\<close> when \<^verbatim>\<open>self_fd_depth\<close> has reached its limit.\<close>

definition gen_self_fd_path :: "'x reader option \<Rightarrow> string \<Rightarrow> u64 \<Rightarrow> 'x vfs \<Rightarrow> (int \<times> 'x vfs) option" where
  "gen_self_fd_path rd path mx s =
     (case self_fd_num (drop (k_strlen SELF_FD) path) 0 0 of
        None \<Rightarrow> Some (-1, s)
      | Some (fd, digits, num) \<Rightarrow>
          if digits = 0 \<or> cchar num \<noteq> NUL then Some (-1, s)
          else if fd \<ge> VFS_MAX_FDS then Some (-1, s)
          else case rd of
            None \<Rightarrow> Some (-1, s)
          | Some vfs_read \<Rightarrow>
              Option.bind (vfs_read (int fd) mx s) (\<lambda>(r, bs, s).
                Some (r, s\<lparr>vfile_scratch := put_scratch bs (vfile_scratch s)\<rparr>)))"

definition vfile_read :: "'x env \<Rightarrow> 'x reader option \<Rightarrow> string \<Rightarrow> u64 \<Rightarrow> 'x vfs \<Rightarrow> (int \<times> 'x vfs) option" where
  "vfile_read E rd path max_len s =
     (case vfile_find (\<lambda>e. \<not> ve_is_dir e) path (k_vfile s) of
        Some e \<Rightarrow> (case ve_read_fn e of
                     Some f \<Rightarrow> run_read_fn E f max_len (vfile_scratch s) s
                   | None \<Rightarrow> Some (-1, s))
      | None \<Rightarrow>
          if k_strncmp path SELF_FD (int (k_strlen SELF_FD)) = 0 then gen_self_fd_path rd path max_len s
          else Some (-1, s))"

definition vfile_vfs_read ::
  "'x env \<Rightarrow> 'x reader option \<Rightarrow> int \<Rightarrow> u64 \<Rightarrow> u64 \<Rightarrow> 'x vfs \<Rightarrow> (int \<times> u8 list \<times> 'x vfs) option" where
  "vfile_vfs_read E rd internal_fd sz offset s =
     (if \<not> vfile_open_idx internal_fd s then Some (-1, [], s)
      else
        Option.bind (vfile_read E rd (vfile_open_paths s ! nat internal_fd) VFILE_MAX_CONTENT s) (\<lambda>(len, s).
          if len < 0 then Some (-1, [], s)
          else if offset \<ge> of_int len then Some (0, [], s)
          else
            (let avail = of_int len - offset;
                 n = (if sz < avail then sz else avail)
             in Some (sint (ucast n :: u32),
                  bytes (map (\<lambda>i. vfile_scratch s (unat offset + i)) [0..<unat n]), s))))"

definition vfile_vfs_size :: "'x env \<Rightarrow> int \<Rightarrow> 'x vfs \<Rightarrow> (int \<times> 'x vfs) option" where
  "vfile_vfs_size E internal_fd s =
     (if \<not> vfile_open_idx internal_fd s then Some (0, s)
      else
        (let path = vfile_open_paths s ! nat internal_fd
         in if k_strncmp path SELF_FD (int (k_strlen SELF_FD)) = 0 then Some (0, s)
            else Option.bind (vfile_read E None path VFILE_MAX_CONTENT s) (\<lambda>(len, s).
                   Some (if len < 0 then 0 else len, s))))"

fun ops_read ::
  "'x env \<Rightarrow> 'x reader option \<Rightarrow> vfs_ops \<Rightarrow> (int \<Rightarrow> u64 \<Rightarrow> u64 \<Rightarrow> 'x vfs \<Rightarrow> (int \<times> u8 list \<times> 'x vfs) option) option"
  where
  "ops_read E rd Vfile_Vfs_Ops = Some (vfile_vfs_read E rd)"
| "ops_read E rd Ramfs_Vfs_Ops = Some ramfs_vfs_read"
| "ops_read E rd Pipe_Read_Vfs_Ops = Some (\<lambda>i sz offset. pipe_vfs_read i sz)"
| "ops_read E rd Pipe_Write_Vfs_Ops = None"
| "ops_read E rd Console_Vfs_Ops = Some console_vfs_read"
| "ops_read E rd Fs_Vfs_Ops = Some (fs_vfs_read (e_fs E))"

fun ops_size :: "'x env \<Rightarrow> vfs_ops \<Rightarrow> (int \<Rightarrow> 'x vfs \<Rightarrow> (int \<times> 'x vfs) option) option" where
  "ops_size E Vfile_Vfs_Ops = Some (vfile_vfs_size E)"
| "ops_size E Ramfs_Vfs_Ops = Some (\<lambda>i s. Some (ramfs_vfs_size i s, s))"
| "ops_size E Fs_Vfs_Ops = Some (\<lambda>i s. Some (fs_vfs_size (e_fs E) i s, s))"
| "ops_size E _ = None"

section \<open>Calls on descriptors\<close>

abbreviation cur_node :: "int \<Rightarrow> 'x vfs \<Rightarrow> nat option" where
  "cur_node fd s \<equiv> fd_table_get (get_table (get_current_fd_table s) s) fd"

definition vfs_read_node :: "'x env \<Rightarrow> 'x reader option \<Rightarrow> 'x reader" where
  "vfs_read_node E rd fd sz s =
     (case cur_node fd s of
        None \<Rightarrow> Some (-1, [], s)
      | Some node \<Rightarrow>
          (let n = node_pool s ! node
           in case Option.bind (n_ops n) (ops_read E rd) of
                None \<Rightarrow> Some (-1, [], s)
              | Some read \<Rightarrow>
                  if n_flags n AND 3 = VFS_O_WRONLY then Some (-1, [], s)
                  else
                    Option.bind (read (n_internal_fd n) sz (n_offset n) s) (\<lambda>(result, bs, s).
                      Some (result, bs,
                        if result > 0 then upd_node node (\<lambda>n. n\<lparr>n_offset := n_offset n + of_int result\<rparr>) s else s))))"

primrec vfs_read_depth :: "'x env \<Rightarrow> nat \<Rightarrow> 'x reader" where
  "vfs_read_depth E 0 = vfs_read_node E None"
| "vfs_read_depth E (Suc k) = vfs_read_node E (Some (vfs_read_depth E k))"

definition vfs_read :: "'x env \<Rightarrow> 'x reader" where
  "vfs_read E = vfs_read_depth E 2"

definition vfs_write :: "'x env \<Rightarrow> int \<Rightarrow> u8 list \<Rightarrow> 'x vfs \<Rightarrow> (int \<times> 'x vfs) option" where
  "vfs_write E fd buf s =
     (case cur_node fd s of
        None \<Rightarrow> Some (-1, s)
      | Some node \<Rightarrow>
          (let n = node_pool s ! node
           in case Option.bind (n_ops n) (ops_write E) of
                None \<Rightarrow> Some (-1, s)
              | Some write \<Rightarrow>
                  if n_flags n AND 3 = VFS_O_RDONLY then Some (-1, s)
                  else
                    Option.bind (write (n_internal_fd n) buf s) (\<lambda>(result, s).
                      Some (result,
                        if result > 0
                        then upd_node node (\<lambda>n.
                               let n = n\<lparr>n_offset := n_offset n + of_int result\<rparr>
                               in if n_offset n > n_size n then n\<lparr>n_size := n_offset n\<rparr> else n) s
                        else s))))"

text \<open>The table \<^verbatim>\<open>vfs_open\<close> puts the descriptor into; a process gets its table with its first open.\<close>

definition open_table :: "'x vfs \<Rightarrow> (table_ref option \<times> 'x vfs) option" where
  "open_table s =
     (case process_current (k_sched s) of
        None \<Rightarrow> Some (Some Kernel_Table, s)
      | Some p \<Rightarrow>
          (let a = fd_table (proc (k_sched s) p)
           in if a \<noteq> 0 then Some (Some (User_Table a), s)
              else
                Option.bind (fd_table_create s) (\<lambda>(table, s).
                  if table = 0 then Some (None, s)
                  else Some (Some (User_Table table),
                         s\<lparr>k_sched := upd_proc p (\<lambda>q. q\<lparr>fd_table := table\<rparr>) (k_sched s)\<rparr>))))"

definition vfs_open :: "'x env \<Rightarrow> string \<Rightarrow> int \<Rightarrow> 'x vfs \<Rightarrow> (int \<times> 'x vfs) option" where
  "vfs_open E path flags s =
     (case find_ops path s of
        None \<Rightarrow> Some (-1, s)
      | Some ops \<Rightarrow>
     (case ops_open E ops of
        None \<Rightarrow> Some (-1, s)
      | Some opn \<Rightarrow>
     Option.bind (opn path flags s) (\<lambda>(internal_fd, s).
       if internal_fd < 0 then Some (-1, s)
       else case alloc_node s of
         (None, s) \<Rightarrow>
           (case ops_close E ops of
              Some close \<Rightarrow> Option.bind (close internal_fd s) (\<lambda>(_, s). Some (-1, s))
            | None \<Rightarrow> Some (-1, s))
       | (Some node, s) \<Rightarrow>
           (let s = upd_node node (\<lambda>n. n\<lparr>n_type := VFS_TYPE_FILE, n_internal_fd := internal_fd, n_ops := Some ops,
                                       n_offset := 0\<rparr>) s
            in Option.bind (case ops_size E ops of Some size_fn \<Rightarrow> size_fn internal_fd s | None \<Rightarrow> Some (0, s)) (\<lambda>(sz, s).
               let s = upd_node node (\<lambda>n. n\<lparr>n_size := of_int sz, n_ref_count := 0, n_flags := flags AND 3\<rparr>) s
               in Option.bind (open_table s) (\<lambda>(table, s).
                    case table of
                      None \<Rightarrow> Some (-1, free_node node s)
                    | Some t \<Rightarrow>
                        (let (fd, s) = fd_table_alloc t node s
                         in if fd < 0 then Some (-1, free_node node s) else Some (fd, s))))))))"

definition vfs_close :: "'x env \<Rightarrow> int \<Rightarrow> 'x vfs \<Rightarrow> (int \<times> 'x vfs) option" where
  "vfs_close E fd s = fd_table_close E (get_current_fd_table s) fd s"

definition vfs_dup :: "int \<Rightarrow> 'x vfs \<Rightarrow> int \<times> 'x vfs" where
  "vfs_dup fd s =
     (case cur_node fd s of
        None \<Rightarrow> (-1, s)
      | Some node \<Rightarrow>
          (let (newfd, s) = fd_table_alloc (get_current_fd_table s) node s
           in if newfd < 0 then (-1, s) else (newfd, s)))"

definition vfs_dup2 :: "'x env \<Rightarrow> int \<Rightarrow> int \<Rightarrow> 'x vfs \<Rightarrow> (int \<times> 'x vfs) option" where
  "vfs_dup2 E oldfd newfd s =
     (let t = get_current_fd_table s
      in if oldfd < 0 \<or> newfd < 0 \<or> oldfd \<ge> int VFS_MAX_FDS \<or> newfd \<ge> int VFS_MAX_FDS then Some (-1, s)
         else if oldfd = newfd then Some (newfd, s)
         else case fd_table_get (get_table t s) oldfd of
           None \<Rightarrow> Some (-1, s)
         | Some node \<Rightarrow>
             Option.bind
               (if fds (get_table t s) ! nat newfd \<noteq> None then map_option snd (fd_table_close E t newfd s) else Some s)
               (\<lambda>s. Some (newfd, fd_install t (nat newfd) node s)))"

definition vfs_seek :: "int \<Rightarrow> int \<Rightarrow> int \<Rightarrow> 'x vfs \<Rightarrow> int \<times> 'x vfs" where
  "vfs_seek fd whence offset s =
     (case cur_node fd s of
        None \<Rightarrow> (-1, s)
      | Some node \<Rightarrow>
          (let n = node_pool s ! node;
               seek = (\<lambda>off. (sint (ucast off :: u32), upd_node node (\<lambda>n. n\<lparr>n_offset := off\<rparr>) s))
           in if whence = 0 then seek (of_int offset)
              else if whence = 1 then seek (n_offset n + of_int offset)
              else if whence = 2 then seek (n_size n + of_int offset)
              else (-1, s)))"

definition pipe_node :: "int \<Rightarrow> nat \<Rightarrow> vfs_ops \<Rightarrow> int \<Rightarrow> vfs_node" where
  "pipe_node type idx ops flags =
     \<lparr>n_type = type, n_internal_fd = int idx, n_ops = Some ops, n_offset = 0, n_size = of_nat VFS_PIPE_BUF_SIZE,
      n_ref_count = 0, n_flags = flags\<rparr>"

text \<open>
  The second half of \<^verbatim>\<open>vfs_pipe\<close>, with the two nodes it got. The result, the two descriptors stored
  into the caller's array if they are, and the new state.
\<close>

definition pipe_fds :: "'x env \<Rightarrow> nat \<Rightarrow> nat \<Rightarrow> nat \<Rightarrow> 'x vfs \<Rightarrow> (int \<times> (int \<times> int) option \<times> 'x vfs) option" where
  "pipe_fds E idx r w s =
     (let s = upd_node r (\<lambda>_. pipe_node VFS_TYPE_PIPE_READ idx Pipe_Read_Vfs_Ops VFS_O_RDONLY) s;
          s = upd_node w (\<lambda>_. pipe_node VFS_TYPE_PIPE_WRITE idx Pipe_Write_Vfs_Ops VFS_O_WRONLY) s;
          t = get_current_fd_table s;
          (fd0, s) = fd_table_alloc t r s;
          (fd1, s) = fd_table_alloc t w s
      in if fd0 < 0 \<or> fd1 < 0 then
           Option.bind (if fd0 \<ge> 0 then map_option snd (fd_table_close E t fd0 s) else Some s) (\<lambda>s.
           Option.bind (if fd1 \<ge> 0 then map_option snd (fd_table_close E t fd1 s) else Some s) (\<lambda>s.
             Some (-1, Some (fd0, fd1), s\<lparr>pipe_in_use := (pipe_in_use s)[idx := False]\<rparr>)))
         else Some (0, Some (fd0, fd1), s))"

definition pipe_reset :: "nat \<Rightarrow> 'x vfs \<Rightarrow> 'x vfs" where
  "pipe_reset idx s =
     upd_pipe idx (\<lambda>p. p\<lparr>p_head := 0, p_tail := 0, p_count := 0, readers := 1, writers := 1\<rparr>)
       (s\<lparr>pipe_in_use := (pipe_in_use s)[idx := True]\<rparr>)"

definition vfs_pipe_create :: "'x env \<Rightarrow> 'x vfs \<Rightarrow> (int \<times> (int \<times> int) option \<times> 'x vfs) option" where
  "vfs_pipe_create E s =
     (case pipe_alloc_index s of
        None \<Rightarrow> Some (-1, None, s)
      | Some idx \<Rightarrow>
          (let (rnode, s) = alloc_node (pipe_reset idx s);
               (wnode, s) = alloc_node s
           in case (rnode, wnode) of
                (Some r, Some w) \<Rightarrow> pipe_fds E idx r w s
              | _ \<Rightarrow>
                  (let s = s\<lparr>pipe_in_use := (pipe_in_use s)[idx := False]\<rparr>;
                       s = (case rnode of Some r \<Rightarrow> free_node r s | None \<Rightarrow> s);
                       s = (case wnode of Some w \<Rightarrow> free_node w s | None \<Rightarrow> s)
                   in Some (-1, None, s))))"

section \<open>Calls on paths\<close>

definition vfs_mkdir :: "'x env \<Rightarrow> string \<Rightarrow> 'x vfs \<Rightarrow> (int \<times> 'x vfs) option" where
  "vfs_mkdir E path s =
     (case Option.bind (find_ops path s) (ops_mkdir E) of
        None \<Rightarrow> Some (-1, s)
      | Some mkdir \<Rightarrow> mkdir path s)"

definition vfs_unlink :: "'x env \<Rightarrow> string \<Rightarrow> 'x vfs \<Rightarrow> (int \<times> 'x vfs) option" where
  "vfs_unlink E path s =
     (case Option.bind (find_ops path s) (ops_unlink E) of
        None \<Rightarrow> Some (-1, s)
      | Some unlink \<Rightarrow> unlink path s)"

text \<open>The calls of the callback; \<open>None\<close> is an access through the null pointer.\<close>

definition vfs_list :: "'x env \<Rightarrow> 'x vfs \<Rightarrow> (string \<times> int \<times> u32) list option" where
  "vfs_list E s =
     (if mount_count s > 0 \<and> mnt_active (mounts s ! 0) then
        (case mnt_ops (mounts s ! 0) of
           None \<Rightarrow> None
         | Some ops \<Rightarrow> (case ops_list E ops of Some list \<Rightarrow> Some (list s) | None \<Rightarrow> Some []))
      else Some [])"

section \<open>Listing virtual directories\<close>

fun run_list_fn :: "vfile_list_fn \<Rightarrow> 'x vfs \<Rightarrow> (string \<times> int \<times> u32) list" where
  "run_list_fn List_root s = [(''0'', 1, 0)]"
| "run_list_fn List_ns_root s = [(''system'', 1, 0), (''hardware'', 1, 0), (''dev'', 1, 0)]"
| "run_list_fn List_system s =
     list_vfile_dir ''/0/system/'' (k_vfile s) @ [(''kernel'', 1, 0), (''runtime'', 1, 0), (''self'', 1, 0)]"
| "run_list_fn List_sys_kernel s = list_vfile_dir ''/0/system/kernel/'' (k_vfile s)"
| "run_list_fn List_sys_runtime s = list_vfile_dir ''/0/system/runtime/'' (k_vfile s)"
| "run_list_fn List_proc_self s =
     [(''pid'', 0, 0), (''name'', 0, 0), (''status'', 0, 0), (''fd'', 1, 0), (''fdinfo'', 0, 0)]"
| "run_list_fn List_self_fd s = list_self_fd s"
| "run_list_fn List_hardware s = list_vfile_dir ''/0/hardware/'' (k_vfile s) @ [(''memory'', 1, 0)]"
| "run_list_fn List_hw_memory s = list_vfile_dir ''/0/hardware/memory/'' (k_vfile s)"
| "run_list_fn List_dev s = [(''null'', 0, 0), (''zero'', 0, 0), (''console'', 0, 0)]"

definition vfile_list :: "string \<Rightarrow> 'x vfs \<Rightarrow> int \<times> (string \<times> int \<times> u32) list" where
  "vfile_list path s =
     (case vfile_find ve_is_dir path (k_vfile s) of
        Some e \<Rightarrow> (case ve_list_fn e of Some f \<Rightarrow> (0, run_list_fn f s) | None \<Rightarrow> (-1, []))
      | None \<Rightarrow> (-1, []))"

end
