(* ===== verification/Vfs_Inv.thy ===== *)
theory Vfs_Inv
  imports Vfs_Files
begin

text \<open>
  Reference counts: a node of the pool counts the descriptors that refer to it, in all tables, and
  a table counts its open descriptors. Every call keeps this.
\<close>

section \<open>The invariant\<close>

definition all_tables :: "'x vfs \<Rightarrow> fdtab list" where
  "all_tables s = kernel_fd_table s # map snd (user_fd_tables s)"

definition refs :: "'x vfs \<Rightarrow> nat \<Rightarrow> nat" where
  "refs s i = (\<Sum>tb \<leftarrow> all_tables s. count_list (fds tb) (Some i))"

definition table_ok :: "fdtab \<Rightarrow> bool" where
  "table_ok tb \<longleftrightarrow> length (fds tb) = VFS_MAX_FDS \<and> fd_count tb = int VFS_MAX_FDS - int (count_list (fds tb) None)"

definition vfs_inv :: "'x vfs \<Rightarrow> bool" where
  "vfs_inv s \<longleftrightarrow> length (node_pool s) = MAX_VFS_NODES \<and> list_all table_ok (all_tables s) \<and>
     distinct (map fst (user_fd_tables s)) \<and>
     (\<forall>i. if i < MAX_VFS_NODES then n_ref_count (node_pool s ! i) = int (refs s i) \<and>
            (refs s i > 0 \<longrightarrow> n_ops (node_pool s ! i) \<noteq> None)
          else refs s i = 0)"

definition valid_table :: "table_ref \<Rightarrow> 'x vfs \<Rightarrow> bool" where
  "valid_table t s \<longleftrightarrow> (case t of Kernel_Table \<Rightarrow> True | User_Table a \<Rightarrow> a \<in> fst ` set (user_fd_tables s))"

lemma sum_list_AList_update:
  fixes f :: "'b \<Rightarrow> nat"
  assumes "distinct (map fst xs)" "map_of xs a = Some v"
  shows "(\<Sum>x \<leftarrow> map snd (AList.update a w xs). f x) + f v = (\<Sum>x \<leftarrow> map snd xs. f x) + f w"
  using assms
proof (induction xs)
  case (Cons x xs)
  then show ?case by (cases x) (auto split: if_splits)
qed simp

lemma valid_map_of: "valid_table (User_Table a) s \<longleftrightarrow> map_of (user_fd_tables s) a \<noteq> None"
  by (auto simp: valid_table_def map_of_eq_None_iff)

lemma get_set_table [simp]: "get_table t (set_table t tb s) = tb"
  by (simp add: get_table_def set_table_def update_conv' split: table_ref.splits)

lemma refs_set_table:
  assumes "distinct (map fst (user_fd_tables s))" "valid_table t s"
  shows "refs (set_table t tb s) i + count_list (fds (get_table t s)) (Some i) = refs s i + count_list (fds tb) (Some i)"
proof (cases t)
  case (User_Table a)
  then obtain v where v: "map_of (user_fd_tables s) a = Some v" using assms(2) by (auto simp: valid_map_of)
  show ?thesis
    using sum_list_AList_update [OF assms(1) v, where f = "\<lambda>tb. count_list (fds tb) (Some i)" and w = tb] v User_Table
    by (simp add: refs_def all_tables_def set_table_def get_table_def o_def)
qed (simp add: refs_def all_tables_def set_table_def get_table_def)

lemma set_table_fields [simp]:
  "node_pool (set_table t tb s) = node_pool s" "k_sched (set_table t tb s) = k_sched s"
  "pipes (set_table t tb s) = pipes s" "pipe_in_use (set_table t tb s) = pipe_in_use s"
  by (simp_all add: set_table_def split: table_ref.splits)

lemma get_table_fields [simp]:
  "get_table t (s\<lparr>node_pool := x\<rparr>) = get_table t s" "get_table t (s\<lparr>k_sched := x2\<rparr>) = get_table t s"
  "get_table t (s\<lparr>pipes := x3\<rparr>) = get_table t s" "get_table t (s\<lparr>pipe_in_use := x4\<rparr>) = get_table t s"
  by (simp_all add: get_table_def split: table_ref.splits)

lemma valid_set_table: "valid_table u s \<Longrightarrow> valid_table u (set_table t tb s)"
  by (auto simp: valid_table_def set_table_def dom_update split: table_ref.splits)


text \<open>What the invariant depends on, and the steps it is changed by: one node, and one entry of a table.\<close>

definition same_tables :: "'x vfs \<Rightarrow> 'x vfs \<Rightarrow> bool" where
  "same_tables s s' \<longleftrightarrow> kernel_fd_table s' = kernel_fd_table s \<and> user_fd_tables s' = user_fd_tables s \<and> k_sched s' = k_sched s"

definition same_nodes :: "'x vfs \<Rightarrow> 'x vfs \<Rightarrow> bool" where
  "same_nodes s s' \<longleftrightarrow>
     map (\<lambda>n. (n_ref_count n, n_ops n)) (node_pool s') = map (\<lambda>n. (n_ref_count n, n_ops n)) (node_pool s)"

lemma same_tables_refs: "same_tables s s' \<Longrightarrow> refs s' i = refs s i"
  by (simp add: same_tables_def refs_def all_tables_def)

lemma same_nodes_nth:
  assumes "same_nodes s s'" "i < length (node_pool s)"
  shows "n_ref_count (node_pool s' ! i) = n_ref_count (node_pool s ! i)" "n_ops (node_pool s' ! i) = n_ops (node_pool s ! i)"
proof -
  have "length (node_pool s') = length (node_pool s)" using assms(1) by (simp add: same_nodes_def) (metis length_map)
  moreover have "map (\<lambda>n. (n_ref_count n, n_ops n)) (node_pool s') ! i = map (\<lambda>n. (n_ref_count n, n_ops n)) (node_pool s) ! i"
    using assms(1) by (simp add: same_nodes_def)
  ultimately show "n_ref_count (node_pool s' ! i) = n_ref_count (node_pool s ! i)"
    "n_ops (node_pool s' ! i) = n_ops (node_pool s ! i)" using assms(2) by simp_all
qed

lemma same_nodes_length: "same_nodes s s' \<Longrightarrow> length (node_pool s') = length (node_pool s)"
  by (simp add: same_nodes_def) (metis length_map)

lemma vfs_inv_same:
  assumes "vfs_inv s" "same_tables s s'" "same_nodes s s'"
  shows "vfs_inv s'"
  using assms same_nodes_nth [OF assms(3)] same_tables_refs [OF assms(2)] same_nodes_length [OF assms(3)]
  by (simp add: vfs_inv_def same_tables_def all_tables_def)

lemma vfs_inv_node:
  assumes "vfs_inv s" "same_tables s s'" "node_pool s' = (node_pool s)[i := n]"
    and "n_ref_count n = int (refs s i)" "refs s i > 0 \<Longrightarrow> n_ops n \<noteq> None"
  shows "vfs_inv s'"
proof -
  have "node_pool s' ! j = (if j = i then n else node_pool s ! j)" if "j < MAX_VFS_NODES" for j
    using assms(1,3) that by (simp add: vfs_inv_def nth_list_update)
  moreover have "length (node_pool s') = MAX_VFS_NODES" using assms(1,3) by (simp add: vfs_inv_def)
  ultimately show ?thesis
    using assms(1,2,4,5) same_tables_refs [OF assms(2)]
    by (simp add: vfs_inv_def same_tables_def all_tables_def del: not_None_eq)
qed

lemma get_table_all: "valid_table t s \<Longrightarrow> get_table t s \<in> set (all_tables s)"
  by (force simp: valid_table_def get_table_def all_tables_def split: table_ref.splits option.splits
      dest: map_of_SomeD simp: map_of_eq_None_iff)

lemma set_all_tables:
  "set (all_tables (set_table t tb s)) \<subseteq> insert tb (set (all_tables s))"
proof (cases t)
  case (User_Table a)
  have "snd ` set (AList.update a tb xs) \<subseteq> insert tb (snd ` set xs)" for xs :: "(u64 \<times> fdtab) list"
    by (induction xs) auto
  then show ?thesis using User_Table by (auto simp: all_tables_def set_table_def)
qed (auto simp: all_tables_def set_table_def)

lemma vfs_inv_table_ok: "vfs_inv s \<Longrightarrow> valid_table t s \<Longrightarrow> table_ok (get_table t s)"
  using get_table_all by (auto simp: vfs_inv_def list_all_iff)

text \<open>An entry of a table changes from \<open>old\<close> to \<open>new\<close>, and the nodes' counts with it.\<close>

definition entry_set :: "table_ref \<Rightarrow> nat \<Rightarrow> nat option \<Rightarrow> int \<Rightarrow> 'x vfs \<Rightarrow> 'x vfs" where
  "entry_set t k e d s =
     set_table t ((get_table t s)\<lparr>fds := (fds (get_table t s))[k := e], fd_count := fd_count (get_table t s) + d\<rparr>) s"

lemma refs_entry_set:
  assumes "vfs_inv s" "valid_table t s" "k < VFS_MAX_FDS"
  shows "refs (entry_set t k e d s) i + (if fds (get_table t s) ! k = Some i then 1 else 0) =
    refs s i + (if e = Some i then 1 else 0)"
proof -
  have len: "length (fds (get_table t s)) = VFS_MAX_FDS" using vfs_inv_table_ok [OF assms(1,2)] by (simp add: table_ok_def)
  have "distinct (map fst (user_fd_tables s))" using assms(1) by (simp add: vfs_inv_def)
  from refs_set_table [OF this assms(2), of "(get_table t s)\<lparr>fds := (fds (get_table t s))[k := e],
      fd_count := fd_count (get_table t s) + d\<rparr>" i] count_list_update [of k "fds (get_table t s)" e "Some i"] assms(3) len
  show ?thesis by (simp add: entry_set_def)
qed

lemma distinct_set_table:
  "distinct (map fst (user_fd_tables s)) \<Longrightarrow> distinct (map fst (user_fd_tables (set_table t tb s)))"
  by (simp add: set_table_def distinct_update split: table_ref.splits)

lemma vfs_inv_entry:
  assumes inv: "vfs_inv s" and t: "valid_table t s" "k < VFS_MAX_FDS"
    and d: "d = (if fds (get_table t s) ! k = None then 1 else 0) - (if e = None then 1 else 0)"
    and s': "same_tables (entry_set t k e d s) s'" "length (node_pool s') = MAX_VFS_NODES"
    and nodes: "\<And>i. i < MAX_VFS_NODES \<Longrightarrow>
      n_ref_count (node_pool s' ! i) = n_ref_count (node_pool s ! i) + (if e = Some i then 1 else 0) -
        (if fds (get_table t s) ! k = Some i then 1 else 0)"
    and ops: "\<And>i. i < MAX_VFS_NODES \<Longrightarrow> n_ref_count (node_pool s' ! i) > 0 \<Longrightarrow> n_ops (node_pool s' ! i) \<noteq> None"
    and e: "\<And>i. e = Some i \<Longrightarrow> i < MAX_VFS_NODES"
  shows "vfs_inv s'"
proof -
  let ?tb = "get_table t s" and ?s = "entry_set t k e d s"
  have ok: "table_ok ?tb" using vfs_inv_table_ok [OF inv t(1)] .
  then have "table_ok (?tb\<lparr>fds := (fds ?tb)[k := e], fd_count := fd_count ?tb + d\<rparr>)"
    using count_list_update [of k "fds ?tb" e None] t(2) by (auto simp: table_ok_def d)
  then have "list_all table_ok (all_tables ?s)"
    using set_all_tables [of t _ s] inv by (fastforce simp: list_all_iff entry_set_def vfs_inv_def)
  then have tables: "list_all table_ok (all_tables s')" using s'(1) by (simp add: same_tables_def all_tables_def)
  have keys: "distinct (map fst (user_fd_tables s'))"
    using s'(1) inv distinct_set_table [of s t] by (simp add: same_tables_def entry_set_def vfs_inv_def)
  have refs: "refs s' i + (if fds ?tb ! k = Some i then 1 else 0) = refs s i + (if e = Some i then 1 else 0)" for i
    using refs_entry_set [OF inv t, of e d i] same_tables_refs [OF s'(1)] by simp
  have "n_ref_count (node_pool s' ! i) = int (refs s' i)" if "i < MAX_VFS_NODES" for i
    using nodes [OF that] refs [of i] inv that by (auto simp: vfs_inv_def split: if_splits)
  moreover have "refs s' i = 0" if "\<not> i < MAX_VFS_NODES" for i
    using refs [of i] e [of i] that inv by (auto simp: vfs_inv_def split: if_splits)
  ultimately show ?thesis using tables keys s'(2) ops by (simp add: vfs_inv_def)
qed

section \<open>What the back ends leave alone\<close>

definition back_end :: "'x vfs \<Rightarrow> 'x vfs \<Rightarrow> bool" where
  "back_end s s' \<longleftrightarrow> same_tables s s' \<and> node_pool s' = node_pool s"

lemma back_end_refl [simp]: "back_end s s"
  by (simp add: back_end_def same_tables_def)

lemma same_refl [simp]: "same_tables s s" "same_nodes s s"
  by (simp_all add: same_tables_def same_nodes_def)

lemma same_tables_pool [simp]: "same_tables s (s'\<lparr>node_pool := p\<rparr>) = same_tables s s'"
  by (simp add: same_tables_def)

lemma same_trans:
  "same_tables s s' \<Longrightarrow> same_tables s' s'' \<Longrightarrow> same_tables s s''"
  "same_nodes s s' \<Longrightarrow> same_nodes s' s'' \<Longrightarrow> same_nodes s s''"
  by (simp_all add: same_tables_def same_nodes_def)

lemmas adapter_defs =
  vfile_vfs_open_def vfile_vfs_close_def vfile_vfs_write_def ramfs_vfs_open_def ramfs_vfs_close_def
  ramfs_vfs_read_def ramfs_vfs_write_def ramfs_vfs_mkdir_def ramfs_vfs_unlink_def pipe_vfs_read_def
  pipe_vfs_write_def pipe_vfs_close_read_def pipe_vfs_close_write_def pipe_release_def fs_vfs_open_def fs_vfs_close_def
  fs_vfs_read_def fs_vfs_write_def fs_vfs_mkdir_def fs_vfs_unlink_def console_vfs_read_def console_vfs_write_def

lemma ops_close_back_end:
  "ops_close E ops = Some f \<Longrightarrow> f i s = Some (r, s') \<Longrightarrow> back_end s s'"
  by (cases ops) (auto simp: adapter_defs back_end_def same_tables_def Let_def split: if_splits)

lemma ops_open_back_end:
  "ops_open E ops = Some f \<Longrightarrow> f path flags s = Some (r, s') \<Longrightarrow> back_end s s'"
  by (cases ops) (auto simp: adapter_defs back_end_def same_tables_def Let_def split: if_splits option.splits prod.splits)

lemma ops_write_back_end:
  "ops_write E ops = Some f \<Longrightarrow> f i buf s = Some (r, s') \<Longrightarrow> back_end s s'"
  by (cases ops) (auto simp: adapter_defs back_end_def same_tables_def Let_def split: if_splits prod.splits)

lemma ops_dir_back_end:
  "ops_mkdir E ops = Some f \<Longrightarrow> f path s = Some (r, s') \<Longrightarrow> back_end s s'"
  "ops_unlink E ops = Some f \<Longrightarrow> f path s = Some (r, s') \<Longrightarrow> back_end s s'"
  by (cases ops; auto simp: adapter_defs back_end_def same_tables_def Let_def split: if_splits prod.splits)+

lemma run_read_fn_back_end: "run_read_fn E f mx b s = Some (r, s') \<Longrightarrow> back_end s s'"
  by (cases f) (auto simp: back_end_def same_tables_def split: bind_splits prod.splits)

lemma ops_size_back_end:
  assumes "ops_size E ops = Some f" "f i s = Some (r, s')"
  shows "back_end s s'"
proof (cases ops)
  case Vfile_Vfs_Ops
  then show ?thesis
    using assms run_read_fn_back_end [of E]
    by (auto simp: vfile_vfs_size_def vfile_read_def Let_def split: if_splits option.splits bind_splits)
qed (use assms in auto)

text \<open>Reading changes offsets only, whatever the depth of the recursion.\<close>

definition reader_ok :: "'x reader \<Rightarrow> bool" where
  "reader_ok rd \<longleftrightarrow> (\<forall>fd sz s r bs s'. rd fd sz s = Some (r, bs, s') \<longrightarrow> same_tables s s' \<and> same_nodes s s')"

lemma back_end_same: "back_end s s' \<Longrightarrow> same_tables s s' \<and> same_nodes s s'"
  by (simp add: back_end_def same_nodes_def)

lemma same_scratch [simp]:
  "same_tables s (s'\<lparr>vfile_scratch := b\<rparr>) = same_tables s s'" "same_nodes s (s'\<lparr>vfile_scratch := b\<rparr>) = same_nodes s s'"
  by (simp_all add: same_tables_def same_nodes_def)

lemma same_offset [simp]:
  "same_tables s (upd_node i f s') = same_tables s s'"
  "(\<And>n. n_ref_count (f n) = n_ref_count n \<and> n_ops (f n) = n_ops n) \<Longrightarrow> same_nodes s (upd_node i f s') = same_nodes s s'"
  by (auto simp: same_tables_def same_nodes_def map_update)
    (metis (no_types, lifting) list_update_id map_update)+

lemma vfile_read_same:
  assumes "vfile_read E rd path mx s = Some (r, s')" "\<And>f. rd = Some f \<Longrightarrow> reader_ok f"
  shows "same_tables s s' \<and> same_nodes s s'"
proof (cases "vfile_find (\<lambda>e. \<not> ve_is_dir e) path (k_vfile s)")
  case None
  then show ?thesis
    using assms by (auto simp: vfile_read_def gen_self_fd_path_def reader_ok_def
        split: if_splits option.splits bind_splits)
next
  case (Some e)
  then show ?thesis
    using assms run_read_fn_back_end [of E] back_end_same
    by (fastforce simp: vfile_read_def split: option.splits)
qed

lemma ops_read_same:
  assumes "ops_read E rd ops = Some f" "f i sz off s = Some (r, bs, s')" "\<And>f. rd = Some f \<Longrightarrow> reader_ok f"
  shows "same_tables s s' \<and> same_nodes s s'"
proof (cases ops)
  case Vfile_Vfs_Ops
  then show ?thesis
    using assms(1,2) vfile_read_same [OF _ assms(3)]
    by (auto simp: vfile_vfs_read_def Let_def split: if_splits bind_splits)
qed (use assms in \<open>auto simp: adapter_defs same_tables_def same_nodes_def Let_def split: if_splits prod.splits\<close>)

lemma vfs_read_node_ok:
  assumes "\<And>f. rd = Some f \<Longrightarrow> reader_ok f"
  shows "reader_ok (vfs_read_node E rd)"
  unfolding reader_ok_def
proof (intro allI impI)
  fix fd sz s r bs s'
  assume *: "vfs_read_node E rd fd sz s = Some (r, bs, s')"
  show "same_tables s s' \<and> same_nodes s s'"
  proof (cases "cur_node fd s")
    case (Some node)
    then show ?thesis
      using * ops_read_same [OF _ _ assms, where E = E and i = "n_internal_fd (node_pool s ! node)"]
      by (fastforce simp: vfs_read_node_def Let_def split: option.splits if_splits bind_splits)
  qed (use * in \<open>auto simp: vfs_read_node_def\<close>)
qed

lemma vfs_read_ok: "reader_ok (vfs_read E)"
proof -
  have "reader_ok (vfs_read_depth E k)" for k
    by (induction k) (auto intro!: vfs_read_node_ok)
  then show ?thesis by (simp add: vfs_read_def)
qed

section \<open>Every call keeps the invariant\<close>

lemma cur_valid_back: "same_tables s s' \<Longrightarrow> valid_table t s' = valid_table t s"
  by (auto simp: valid_table_def same_tables_def split: table_ref.splits)

lemma same_get_table: "same_tables s s' \<Longrightarrow> get_table t s' = get_table t s"
  by (auto simp: get_table_def same_tables_def split: table_ref.splits)

lemma same_current: "same_tables s s' \<Longrightarrow> get_current_fd_table s' = get_current_fd_table s"
  by (simp add: get_current_fd_table_def same_tables_def split: option.split)

lemma inv_nodeD:
  assumes "vfs_inv s"
  shows "i < MAX_VFS_NODES \<Longrightarrow> n_ref_count (node_pool s ! i) = int (refs s i)"
    "i < MAX_VFS_NODES \<Longrightarrow> refs s i > 0 \<Longrightarrow> n_ops (node_pool s ! i) \<noteq> None"
    "refs s i > 0 \<Longrightarrow> i < MAX_VFS_NODES"
proof -
  have *: "if i < MAX_VFS_NODES then n_ref_count (node_pool s ! i) = int (refs s i) \<and>
      (refs s i > 0 \<longrightarrow> n_ops (node_pool s ! i) \<noteq> None) else refs s i = 0"
    using assms unfolding vfs_inv_def by blast
  show "i < MAX_VFS_NODES \<Longrightarrow> n_ref_count (node_pool s ! i) = int (refs s i)"
    "i < MAX_VFS_NODES \<Longrightarrow> refs s i > 0 \<Longrightarrow> n_ops (node_pool s ! i) \<noteq> None"
    "refs s i > 0 \<Longrightarrow> i < MAX_VFS_NODES"
    using * by (simp_all split: if_splits del: not_None_eq)
qed

lemma vfs_invI:
  assumes "length (node_pool s) = MAX_VFS_NODES" "list_all table_ok (all_tables s)" "distinct (map fst (user_fd_tables s))"
    and "\<And>i. i < MAX_VFS_NODES \<Longrightarrow> n_ref_count (node_pool s ! i) = int (refs s i)"
    and "\<And>i. i < MAX_VFS_NODES \<Longrightarrow> refs s i > 0 \<Longrightarrow> n_ops (node_pool s ! i) \<noteq> None"
    and "\<And>i. refs s i > 0 \<Longrightarrow> i < MAX_VFS_NODES"
  shows "vfs_inv s"
  using assms unfolding vfs_inv_def by auto

lemma inv_length: "vfs_inv s \<Longrightarrow> length (node_pool s) = MAX_VFS_NODES"
  by (simp add: vfs_inv_def)

lemma entry_in_range:
  assumes "vfs_inv s" "valid_table t s" "k < VFS_MAX_FDS" "fds (get_table t s) ! k = Some i"
  shows "i < MAX_VFS_NODES" "n_ref_count (node_pool s ! i) > 0" "n_ops (node_pool s ! i) \<noteq> None"
proof -
  have "refs s i > 0" using refs_entry_set [OF assms(1-3), of None 0 i] assms(4) by simp
  then show "i < MAX_VFS_NODES" "n_ref_count (node_pool s ! i) > 0" "n_ops (node_pool s ! i) \<noteq> None"
    using inv_nodeD [OF assms(1), of i] by simp_all
qed

lemma cur_node_in_range:
  assumes "vfs_inv s" "valid_table t s" "fd_table_get (get_table t s) fd = Some i"
  shows "0 \<le> fd" "nat fd < VFS_MAX_FDS" "fds (get_table t s) ! nat fd = Some i"
    "i < MAX_VFS_NODES" "n_ops (node_pool s ! i) \<noteq> None"
proof -
  show fd: "0 \<le> fd" "nat fd < VFS_MAX_FDS" "fds (get_table t s) ! nat fd = Some i"
    using assms(3) by (auto simp: fd_table_get_def split: if_splits)
  show "i < MAX_VFS_NODES" "n_ops (node_pool s ! i) \<noteq> None"
    using entry_in_range [OF assms(1,2) fd(2,3)] by simp_all
qed

lemma fd_install_inv:
  assumes "vfs_inv s" "valid_table t s" "k < VFS_MAX_FDS" "fds (get_table t s) ! k = None"
    and "i < MAX_VFS_NODES" "n_ops (node_pool s ! i) \<noteq> None"
  shows "vfs_inv (fd_install t k i s)"
proof (rule vfs_inv_entry [OF assms(1-3), where e = "Some i" and d = 1])
  show "same_tables (entry_set t k (Some i) 1 s) (fd_install t k i s)"
    by (simp add: fd_install_def entry_set_def Let_def)
next
  fix j
  assume "j < MAX_VFS_NODES" "0 < n_ref_count (node_pool (fd_install t k i s) ! j)"
  then show "n_ops (node_pool (fd_install t k i s) ! j) \<noteq> None"
    using assms(5,6) inv_nodeD(1,2) [OF assms(1), of j] inv_length [OF assms(1)]
    by (auto simp: fd_install_def Let_def nth_list_update split: if_splits)
qed (use assms inv_length [OF assms(1)] in \<open>auto simp: fd_install_def Let_def nth_list_update\<close>)

lemma fd_table_alloc_inv:
  assumes "vfs_inv s" "valid_table t s" "i < MAX_VFS_NODES" "n_ops (node_pool s ! i) \<noteq> None"
    and "fd_table_alloc t i s = (fd, s')"
  shows "vfs_inv s'"
proof (cases "first_index (\<lambda>e. e = None) (fds (get_table t s))")
  case (Some k)
  then have "k < VFS_MAX_FDS" "fds (get_table t s) ! k = None"
    using vfs_inv_table_ok [OF assms(1,2)] by (auto simp: first_index_Some_iff table_ok_def)
  then show ?thesis using fd_install_inv [OF assms(1,2) _ _ assms(3,4)] assms(5) Some by (auto simp: fd_table_alloc_def)
qed (use assms in \<open>simp add: fd_table_alloc_def\<close>)

lemma close_node_effect:
  assumes "close_node E i s = Some s'"
  shows "\<exists>v. back_end s v \<and> s' = free_node i v"
proof (cases "Option.bind (n_ops (node_pool s ! i)) (ops_close E)")
  case None
  then have "s' = free_node i s" using assms by (simp add: close_node_def)
  then show ?thesis by (intro exI [of _ s]) simp
next
  case (Some f)
  then obtain ops where "ops_close E ops = Some f" by (auto simp: bind_eq_Some_conv)
  moreover obtain r v where "f (n_internal_fd (node_pool s ! i)) s = Some (r, v)" "s' = free_node i v"
    using assms Some by (auto simp: close_node_def Let_def split: bind_splits)
  ultimately show ?thesis using ops_close_back_end by blast
qed

lemma drop_ref_effect:
  assumes "drop_ref E i s = Some s'" "i < length (node_pool s)"
  shows "same_tables s s'" "\<exists>n. node_pool s' = (node_pool s)[i := n] \<and>
    (if n_ref_count (node_pool s ! i) \<le> 1 then n_ref_count n = 0 \<and> n_ops n = None
     else n_ref_count n = n_ref_count (node_pool s ! i) - 1 \<and> n_ops n = n_ops (node_pool s ! i))"
proof -
  let ?u = "upd_node i (\<lambda>n. n\<lparr>n_ref_count := n_ref_count n - 1\<rparr>) s"
  have u: "same_tables s ?u" "node_pool ?u = (node_pool s)[i := (node_pool s ! i)\<lparr>n_ref_count := n_ref_count (node_pool s ! i) - 1\<rparr>]"
    by simp_all
  have "(if n_ref_count (node_pool s ! i) \<le> 1 then \<exists>v. back_end ?u v \<and> s' = free_node i v else s' = ?u)"
    using assms close_node_effect [of E i ?u] by (auto simp: drop_ref_def Let_def)
  then show "same_tables s s'" "\<exists>n. node_pool s' = (node_pool s)[i := n] \<and>
    (if n_ref_count (node_pool s ! i) \<le> 1 then n_ref_count n = 0 \<and> n_ops n = None
     else n_ref_count n = n_ref_count (node_pool s ! i) - 1 \<and> n_ops n = n_ops (node_pool s ! i))"
    using u same_trans(1) [OF u(1)]
    by (auto simp: back_end_def free_node_def split: if_splits)
qed

lemma fd_table_close_inv:
  assumes "vfs_inv s" "valid_table t s" "fd_table_close E t fd s = Some (r, s')"
  shows "vfs_inv s'"
proof (cases "fd < 0 \<or> fd \<ge> int VFS_MAX_FDS \<or> fds (get_table t s) ! nat fd = None")
  case False
  then obtain i where i: "fds (get_table t s) ! nat fd = Some i" and fd: "nat fd < VFS_MAX_FDS" "\<not> fd < 0" "\<not> fd \<ge> int VFS_MAX_FDS"
    by auto
  note range = entry_in_range [OF assms(1,2) fd(1) i]
  obtain v where v: "drop_ref E i s = Some v" and s': "s' = entry_set t (nat fd) None (-1) v"
    using assms(3) i fd by (auto simp: fd_table_close_def entry_set_def Let_def split: bind_splits)
  have lt: "i < length (node_pool s)" using range(1) inv_length [OF assms(1)] by simp
  note drop = drop_ref_effect [OF v lt]
  obtain n where n: "node_pool v = (node_pool s)[i := n]"
      "if n_ref_count (node_pool s ! i) \<le> 1 then n_ref_count n = 0 \<and> n_ops n = None
       else n_ref_count n = n_ref_count (node_pool s ! i) - 1 \<and> n_ops n = n_ops (node_pool s ! i)"
    using drop(2) by blast
  have tab: "get_table t v = get_table t s" using same_get_table [OF drop(1)] .
  show ?thesis
  proof (rule vfs_inv_entry [OF assms(1,2) fd(1), where e = None and d = "-1"])
    show "same_tables (entry_set t (nat fd) None (-1) s) s'"
      using drop(1) tab by (auto simp: s' entry_set_def same_tables_def set_table_def split: table_ref.splits)
    show "length (node_pool s') = MAX_VFS_NODES" using n(1) inv_length [OF assms(1)] by (simp add: s' entry_set_def)
    fix j assume j: "j < MAX_VFS_NODES"
    have pool: "node_pool s' ! j = (if j = i then n else node_pool s ! j)"
      using n(1) j inv_length [OF assms(1)] by (simp add: s' entry_set_def nth_list_update)
    show "n_ref_count (node_pool s' ! j) = n_ref_count (node_pool s ! j) + (if None = Some j then 1 else 0) -
        (if fds (get_table t s) ! nat fd = Some j then 1 else 0)"
      using pool n(2) range(2) i by (auto split: if_splits)
    show "n_ops (node_pool s' ! j) \<noteq> None" if "0 < n_ref_count (node_pool s' ! j)"
      using that pool n(2) range(3) inv_nodeD(1,2) [OF assms(1) j] by (auto split: if_splits)
  qed (use i in auto)
qed (use assms in \<open>auto simp: fd_table_close_def split: if_splits option.splits\<close>)

lemma alloc_node_Some:
  assumes "vfs_inv s" "alloc_node s = (Some i, s')"
  shows "i < MAX_VFS_NODES" "refs s i = 0" "same_tables s s'"
    "node_pool s' = (node_pool s)[i := (node_pool s ! i)\<lparr>n_ref_count := 1\<rparr>]"
proof -
  have *: "first_index (\<lambda>n. n_ref_count n = 0 \<and> n_ops n = None) (node_pool s) = Some i"
    using assms(2) by (auto simp: alloc_node_def split: option.splits)
  then have i: "i < MAX_VFS_NODES" "n_ref_count (node_pool s ! i) = 0"
    using inv_length [OF assms(1)] by (auto simp: first_index_Some_iff)
  then show "i < MAX_VFS_NODES" "refs s i = 0" using inv_nodeD(1) [OF assms(1), of i] by auto
  show "same_tables s s'" "node_pool s' = (node_pool s)[i := (node_pool s ! i)\<lparr>n_ref_count := 1\<rparr>]"
    using assms(2) * by (auto simp: alloc_node_def)
qed

lemma alloc_node_None: "alloc_node s = (None, s') \<Longrightarrow> s' = s"
  by (auto simp: alloc_node_def split: option.splits)

text \<open>A node that is referred to by no descriptor may change in any way that leaves its count 0.\<close>

lemma vfs_inv_free_node:
  assumes "vfs_inv s" "refs s i = 0" "same_tables s v" "node_pool v = (node_pool s)[i := n]" "n_ref_count n = 0"
  shows "vfs_inv v"
  using vfs_inv_node [OF assms(1,3,4)] assms(2,5) by simp

abbreviation cur_valid :: "'x vfs \<Rightarrow> bool" where
  "cur_valid s \<equiv> valid_table (get_current_fd_table s) s"

lemma vfs_inv_back_end: "vfs_inv s \<Longrightarrow> back_end s s' \<Longrightarrow> vfs_inv s'"
  using vfs_inv_same back_end_same by blast

lemma vfs_close_inv: "vfs_inv s \<Longrightarrow> cur_valid s \<Longrightarrow> vfs_close E fd s = Some (r, s') \<Longrightarrow> vfs_inv s'"
  using fd_table_close_inv by (auto simp: vfs_close_def)

lemma vfs_read_inv: "vfs_inv s \<Longrightarrow> vfs_read E fd sz s = Some (r, bs, s') \<Longrightarrow> vfs_inv s'"
  using vfs_read_ok [of E] vfs_inv_same unfolding reader_ok_def by blast

lemma vfs_write_inv:
  assumes "vfs_inv s" "vfs_write E fd buf s = Some (r, s')"
  shows "vfs_inv s'"
proof (cases "cur_node fd s")
  case (Some node)
  show ?thesis
  proof (cases "Option.bind (n_ops (node_pool s ! node)) (ops_write E)")
    case None
    then show ?thesis using assms Some by (simp add: vfs_write_def)
  next
    case w: (Some f)
    then obtain ops where ops: "ops_write E ops = Some f" by (auto simp: bind_eq_Some_conv)
    let ?g = "\<lambda>n. let n = n\<lparr>n_offset := n_offset n + of_int r\<rparr> in if n_offset n > n_size n then n\<lparr>n_size := n_offset n\<rparr> else n"
    show ?thesis
    proof (cases "n_flags (node_pool s ! node) AND 3 = 0")
      case False
      then obtain v where v: "f (n_internal_fd (node_pool s ! node)) buf s = Some (r, v)"
          and s': "s' = (if r > 0 then upd_node node ?g v else v)"
        using assms(2) Some w by (cases "f (n_internal_fd (node_pool s ! node)) buf s") (auto simp: vfs_write_def)
      have inv: "vfs_inv v" using vfs_inv_back_end [OF assms(1) ops_write_back_end [OF ops v]] .
      have "n_ref_count (?g n) = n_ref_count n \<and> n_ops (?g n) = n_ops n" for n by (simp add: Let_def)
      from same_offset(2) [where f = ?g and s = v and s' = v and i = node, OF this] have "same_tables v s'" "same_nodes v s'"
        by (simp_all add: s')
      then show ?thesis using vfs_inv_same [OF inv] by blast
    qed (use assms Some w in \<open>simp add: vfs_write_def\<close>)
  qed
qed (use assms in \<open>simp add: vfs_write_def\<close>)

lemma vfs_seek_inv: "vfs_inv s \<Longrightarrow> vfs_seek fd whence off s = (r, s') \<Longrightarrow> vfs_inv s'"
  by (auto simp: vfs_seek_def Let_def split: option.splits if_splits intro: vfs_inv_same)

lemma vfs_dup_inv:
  assumes "vfs_inv s" "cur_valid s" "vfs_dup fd s = (r, s')"
  shows "vfs_inv s'"
proof (cases "cur_node fd s")
  case (Some i)
  note range = cur_node_in_range [OF assms(1,2) Some]
  show ?thesis
    using assms(3) Some fd_table_alloc_inv [OF assms(1,2) range(4,5)]
    by (auto simp: vfs_dup_def split: prod.splits if_splits)
qed (use assms in \<open>simp add: vfs_dup_def\<close>)

lemma fd_table_close_tables:
  assumes "vfs_inv s" "valid_table t s" "fd_table_close E t fd s = Some (r, s')"
  shows "valid_table t s'" "k_sched s' = k_sched s"
    "k \<noteq> nat fd \<Longrightarrow> fds (get_table t s') ! k = fds (get_table t s) ! k"
    "0 \<le> fd \<Longrightarrow> nat fd < VFS_MAX_FDS \<Longrightarrow> fds (get_table t s') ! nat fd = None"
proof -
  have len: "length (fds (get_table t s)) = VFS_MAX_FDS"
    using vfs_inv_table_ok [OF assms(1,2)] by (simp add: table_ok_def)
  have "valid_table t s' \<and> k_sched s' = k_sched s \<and>
      (k \<noteq> nat fd \<longrightarrow> fds (get_table t s') ! k = fds (get_table t s) ! k) \<and>
      (0 \<le> fd \<longrightarrow> nat fd < VFS_MAX_FDS \<longrightarrow> fds (get_table t s') ! nat fd = None)"
  proof (cases "fd < 0 \<or> fd \<ge> int VFS_MAX_FDS \<or> fds (get_table t s) ! nat fd = None")
    case False
    then obtain i where i: "fds (get_table t s) ! nat fd = Some i" and fd: "nat fd < VFS_MAX_FDS" "\<not> fd < 0" "\<not> fd \<ge> int VFS_MAX_FDS"
      by auto
    obtain v where v: "drop_ref E i s = Some v" and s': "s' = entry_set t (nat fd) None (-1) v"
      using assms(3) i fd by (auto simp: fd_table_close_def entry_set_def Let_def split: bind_splits)
    have lt: "i < length (node_pool s)" using entry_in_range(1) [OF assms(1,2) fd(1) i] inv_length [OF assms(1)] by simp
    note drop = drop_ref_effect(1) [OF v lt]
    have "valid_table t s'" using assms(2) cur_valid_back [OF drop] by (simp add: s' entry_set_def valid_set_table)
    moreover have "fds (get_table t s') = (fds (get_table t s))[nat fd := None]" "k_sched s' = k_sched s"
      using drop same_get_table [OF drop, of t] by (simp_all add: s' entry_set_def same_tables_def)
    ultimately show ?thesis using fd len by simp
  qed (use assms in \<open>auto simp: fd_table_close_def split: if_splits option.splits\<close>)
  then show "valid_table t s'" "k_sched s' = k_sched s"
    "k \<noteq> nat fd \<Longrightarrow> fds (get_table t s') ! k = fds (get_table t s) ! k"
    "0 \<le> fd \<Longrightarrow> nat fd < VFS_MAX_FDS \<Longrightarrow> fds (get_table t s') ! nat fd = None" by blast+
qed

lemma vfs_dup2_inv:
  assumes "vfs_inv s" "cur_valid s" "vfs_dup2 E oldfd newfd s = Some (r, s')"
  shows "vfs_inv s'"
proof (cases "oldfd < 0 \<or> newfd < 0 \<or> oldfd \<ge> int VFS_MAX_FDS \<or> newfd \<ge> int VFS_MAX_FDS \<or> oldfd = newfd \<or>
    cur_node oldfd s = None")
  case False
  let ?t = "get_current_fd_table s"
  obtain i where i: "cur_node oldfd s = Some i" using False by auto
  note range = cur_node_in_range [OF assms(1,2) i]
  have ne: "nat oldfd \<noteq> nat newfd" and new: "nat newfd < VFS_MAX_FDS" "0 \<le> newfd" using False by auto
  obtain v where v: "if fds (get_table ?t s) ! nat newfd \<noteq> None then map_option snd (fd_table_close E ?t newfd s) = Some v
      else v = s" and s': "s' = fd_install ?t (nat newfd) i v"
    using assms(3) False i by (auto simp: vfs_dup2_def Let_def split: bind_splits if_splits)
  have "vfs_inv v \<and> valid_table ?t v \<and> fds (get_table ?t v) ! nat oldfd = Some i \<and> fds (get_table ?t v) ! nat newfd = None"
  proof (cases "fds (get_table ?t s) ! nat newfd = None")
    case False
    then obtain r where "fd_table_close E ?t newfd s = Some (r, v)" using v by auto
    from fd_table_close_inv [OF assms(1,2) this] fd_table_close_tables [OF assms(1,2) this] ne range new
    show ?thesis by simp
  qed (use v assms range in simp)
  moreover from this have "i < MAX_VFS_NODES" "n_ops (node_pool v ! i) \<noteq> None"
    using entry_in_range [of v ?t "nat oldfd" i] range(2) by auto
  ultimately show ?thesis using fd_install_inv [of v ?t "nat newfd" i] new by (simp add: s')
qed (use assms in \<open>auto simp: vfs_dup2_def Let_def split: if_splits\<close>)

lemma vfs_mount_inv: "vfs_inv s \<Longrightarrow> vfs_inv (vfs_mount_fs path ops s)"
  by (erule vfs_inv_same) (auto simp: vfs_mount_fs_def same_tables_def same_nodes_def split: option.splits)

lemma vfs_dir_inv:
  "vfs_inv s \<Longrightarrow> vfs_mkdir E path s = Some (r, s') \<Longrightarrow> vfs_inv s'"
  "vfs_inv s \<Longrightarrow> vfs_unlink E path s = Some (r, s') \<Longrightarrow> vfs_inv s'"
  using ops_dir_back_end vfs_inv_back_end
  by (fastforce simp: vfs_mkdir_def vfs_unlink_def bind_eq_Some_conv split: option.splits)+

definition has_table :: "'x vfs \<Rightarrow> bool" where
  "has_table s \<longleftrightarrow> (case process_current (k_sched s) of None \<Rightarrow> True | Some p \<Rightarrow> fd_table (proc (k_sched s) p) \<noteq> 0)"

lemma open_table_has: "has_table s \<Longrightarrow> open_table s = Some (Some (get_current_fd_table s), s)"
  by (auto simp: has_table_def open_table_def get_current_fd_table_def Let_def split: option.splits)

lemma fd_table_alloc_fail: "fd_table_alloc t i s = (fd, s') \<Longrightarrow> fd < 0 \<Longrightarrow> s' = s"
  by (auto simp: fd_table_alloc_def split: option.splits)

lemma free_node_pool [simp]:
  "same_tables s (free_node i s') = same_tables s s'"
  "node_pool (free_node i s) = (node_pool s)[i := \<lparr>n_type = 0, n_internal_fd = -1, n_ops = None, n_offset = 0, n_size = 0,
     n_ref_count = 0, n_flags = 0\<rparr>]"
  by (simp_all add: free_node_def)

text \<open>The descriptor of a new node \<open>i\<close>, in the states \<^verbatim>\<open>vfs_open\<close> goes through once the node is filled in.\<close>

lemma open_finish_inv:
  assumes inv: "vfs_inv s" "cur_valid s" "has_table s" "i < MAX_VFS_NODES" "refs s i = 0"
    and v: "same_tables s v" "node_pool v = (node_pool s)[i := n]" "n_ref_count n = 0" "n_ops n \<noteq> None"
    and r: "Option.bind (open_table v) (\<lambda>(table, s). case table of None \<Rightarrow> Some (-1, free_node i s)
      | Some t \<Rightarrow> (let (fd, s) = fd_table_alloc t i s in if fd < 0 then Some (-1, free_node i s) else Some (fd, s)))
      = Some (r, s')"
  shows "vfs_inv s'"
proof -
  have vi: "vfs_inv v" using vfs_inv_free_node [OF inv(1,5) v(1-3)] .
  let ?t = "get_current_fd_table v"
  have cv: "cur_valid v" using inv(2) cur_valid_back [OF v(1)] same_current [OF v(1)] by simp
  have "has_table v" using inv(3) v(1) by (simp add: has_table_def same_tables_def split: option.splits)
  from open_table_has [OF this] obtain fd w where w: "fd_table_alloc ?t i v = (fd, w)"
      and s': "s' = (if fd < 0 then free_node i w else w)"
    using r by (cases "fd_table_alloc ?t i v") (auto split: if_splits)
  have ops: "n_ops (node_pool v ! i) \<noteq> None" using v(2,4) inv(4) inv_length [OF inv(1)] by simp
  have "vfs_inv w" using fd_table_alloc_inv [OF vi cv inv(4) ops w] .
  moreover have "refs v i = 0" using same_tables_refs [OF v(1)] inv(5) by simp
  then have "vfs_inv (free_node i v)" by (rule vfs_inv_free_node [OF vi _ _ free_node_pool(2)]) simp_all
  ultimately show ?thesis using fd_table_alloc_fail [OF w] by (auto simp: s')
qed

lemma vfs_open_inv:
  assumes "vfs_inv s" "cur_valid s" "has_table s" "vfs_open E path flags s = Some (r, s')"
  shows "vfs_inv s'"
proof (cases "find_ops path s")
  case ops: (Some ops)
  show ?thesis
  proof (cases "ops_open E ops")
    case opn: (Some opn)
    obtain ifd v where v: "opn path flags s = Some (ifd, v)"
      using assms(4) ops opn by (cases "opn path flags s") (auto simp: vfs_open_def)
    have be: "back_end s v" using ops_open_back_end [OF opn v] .
    have inv: "vfs_inv v" "cur_valid v" "has_table v"
      using vfs_inv_back_end [OF assms(1) be] assms(2,3) be cur_valid_back [of s v] same_current [of s v]
      by (auto simp: back_end_def has_table_def same_tables_def split: option.splits)
    show ?thesis
    proof (cases "ifd < 0")
      case False
      obtain node w where w: "alloc_node v = (node, w)" by (cases "alloc_node v")
      show ?thesis
      proof (cases node)
        case None
        then have "w = v" using w alloc_node_None by blast
        then show ?thesis
          using assms(4) ops opn v False w None inv(1) vfs_inv_back_end [OF inv(1)] ops_close_back_end [of E ops _ ifd v]
          by (auto simp: vfs_open_def split: option.splits bind_splits)
      next
        case (Some i)
        note al = alloc_node_Some [OF inv(1) w [unfolded Some]]
        let ?w = "upd_node i (\<lambda>n. n\<lparr>n_type := VFS_TYPE_FILE, n_internal_fd := ifd, n_ops := Some ops, n_offset := 0\<rparr>) w"
        obtain sz x where x: "(case ops_size E ops of Some size_fn \<Rightarrow> size_fn ifd ?w | None \<Rightarrow> Some (0, ?w)) = Some (sz, x)"
          using assms(4) ops opn v False w Some
          by (cases "case ops_size E ops of Some size_fn \<Rightarrow> size_fn ifd ?w | None \<Rightarrow> Some (0, ?w)") (auto simp: vfs_open_def)
        have bx: "back_end ?w x" using x ops_size_back_end [of E ops _ ifd ?w] by (auto split: option.splits)
        let ?x = "upd_node i (\<lambda>n. n\<lparr>n_size := of_int sz, n_ref_count := 0, n_flags := flags AND 3\<rparr>) x"
        have st: "same_tables v ?x" using al(3) bx by (auto simp: back_end_def same_tables_def)
        obtain n where "node_pool ?x = (node_pool v)[i := n]" "n_ref_count n = 0" "n_ops n \<noteq> None"
          using al(1,4) bx inv_length [OF inv(1)] by (auto simp: back_end_def)
        from open_finish_inv [OF inv al(1,2) st this, of r s'] show ?thesis
          using assms(4) ops opn v False w Some x by (simp add: vfs_open_def)
      qed
    qed (use assms ops opn v inv in \<open>auto simp: vfs_open_def\<close>)
  qed (use assms ops in \<open>simp add: vfs_open_def\<close>)
qed (use assms in \<open>simp add: vfs_open_def\<close>)

lemma alloc_node_pick:
  assumes "alloc_node s = (Some i, s')"
  shows "i < length (node_pool s)" "n_ref_count (node_pool s ! i) = 0" "same_tables s s'"
    "node_pool s' = (node_pool s)[i := (node_pool s ! i)\<lparr>n_ref_count := 1\<rparr>]" "n_ops (node_pool s ! i) = None"
  using assms by (auto simp: alloc_node_def first_index_Some_iff split: option.splits)

lemma fd_table_alloc_frame:
  assumes "fd_table_alloc t i s = (fd, s')" "valid_table u s"
  shows "valid_table u s'" "k_sched s' = k_sched s" "n_ops (node_pool s' ! j) = n_ops (node_pool s ! j)"
proof -
  have "valid_table u s' \<and> k_sched s' = k_sched s \<and> n_ops (node_pool s' ! j) = n_ops (node_pool s ! j)"
    using assms valid_set_table [OF assms(2)]
    by (cases "i < length (node_pool s)"; cases "i = j")
      (auto simp: fd_table_alloc_def fd_install_def Let_def valid_table_def list_update_beyond split: option.splits table_ref.splits)
  then show "valid_table u s'" "k_sched s' = k_sched s" "n_ops (node_pool s' ! j) = n_ops (node_pool s ! j)" by blast+
qed

text \<open>Two new nodes that no descriptor refers to.\<close>

lemma vfs_inv_two_nodes:
  assumes inv: "vfs_inv s" "refs s i = 0" "refs s j = 0"
    and v: "same_tables s v" "node_pool v = (node_pool s)[i := m, j := n]" "n_ref_count m = 0" "n_ref_count n = 0"
  shows "vfs_inv v"
proof -
  let ?u = "s\<lparr>node_pool := (node_pool s)[i := m]\<rparr>"
  have "vfs_inv ?u" by (rule vfs_inv_free_node [OF inv(1,2)]) (use v in simp_all)
  moreover have "refs ?u j = 0" using inv(3) by (simp add: refs_def all_tables_def)
  moreover have "same_tables ?u v" using v(1) by (simp add: same_tables_def)
  ultimately show ?thesis using vfs_inv_free_node [of ?u j v n] v(2,4) by simp
qed

text \<open>The descriptors of a new pipe, once its two nodes are filled in.\<close>

lemma pipe_finish_inv:
  assumes inv: "vfs_inv s" "cur_valid s" and nodes: "r < MAX_VFS_NODES" "w < MAX_VFS_NODES"
    "n_ops (node_pool s ! r) \<noteq> None" "n_ops (node_pool s ! w) \<noteq> None"
    and a: "fd_table_alloc (get_current_fd_table s) r s = (fd0, s1)" "fd_table_alloc (get_current_fd_table s) w s1 = (fd1, s2)"
  shows "vfs_inv s2" "valid_table (get_current_fd_table s) s2"
proof -
  have i1: "vfs_inv s1" using fd_table_alloc_inv [OF inv nodes(1,3) a(1)] .
  note fr = fd_table_alloc_frame [OF a(1) inv(2)]
  have ops: "n_ops (node_pool s1 ! w) \<noteq> None" using fr(3) [of w] nodes(4) by simp
  show "vfs_inv s2" using fd_table_alloc_inv [OF i1 fr(1) nodes(2) ops a(2)] .
  show "valid_table (get_current_fd_table s) s2" using fd_table_alloc_frame(1) [OF a(2) fr(1)] .
qed

lemma pipe_undo_inv:
  assumes "vfs_inv s" "valid_table t s" "(if fd \<ge> 0 then map_option snd (fd_table_close E t fd s) else Some s) = Some s'"
  shows "vfs_inv s'" "valid_table t s'"
  using assms fd_table_close_inv [OF assms(1,2)] fd_table_close_tables(1) [OF assms(1,2)] by (auto split: if_splits)

lemma back_end_pipes [simp]: "back_end s (s'\<lparr>pipe_in_use := u\<rparr>) = back_end s s'" "back_end s (s'\<lparr>pipes := p\<rparr>) = back_end s s'"
  by (simp_all add: back_end_def same_tables_def)

text \<open>The two nodes of a new pipe, and the state with these nodes filled in.\<close>

definition pipe_nodes :: "nat \<Rightarrow> nat \<Rightarrow> nat \<Rightarrow> 'x vfs \<Rightarrow> 'x vfs" where
  "pipe_nodes idx r w s =
     upd_node w (\<lambda>_. pipe_node VFS_TYPE_PIPE_WRITE idx Pipe_Write_Vfs_Ops VFS_O_WRONLY)
       (upd_node r (\<lambda>_. pipe_node VFS_TYPE_PIPE_READ idx Pipe_Read_Vfs_Ops VFS_O_RDONLY) s)"

definition pipe_fresh :: "nat \<Rightarrow> nat \<Rightarrow> 'x vfs \<Rightarrow> bool" where
  "pipe_fresh r w s \<longleftrightarrow> r \<noteq> w \<and> r < MAX_VFS_NODES \<and> w < MAX_VFS_NODES \<and> refs s r = 0 \<and> refs s w = 0 \<and>
     n_ops (node_pool s ! r) = None \<and> n_ops (node_pool s ! w) = None"

lemma back_end_reset: "back_end s (pipe_reset idx s)"
  by (simp add: pipe_reset_def)

lemma pipe_alloc_nodes:
  assumes inv: "vfs_inv s" and al: "alloc_node s = (Some r, s1)" "alloc_node s1 = (Some w, s2)"
  shows "pipe_fresh r w s" "same_tables s (pipe_nodes idx r w s2)"
    "node_pool (pipe_nodes idx r w s2) = (node_pool s)
       [r := pipe_node VFS_TYPE_PIPE_READ idx Pipe_Read_Vfs_Ops VFS_O_RDONLY,
        w := pipe_node VFS_TYPE_PIPE_WRITE idx Pipe_Write_Vfs_Ops VFS_O_WRONLY]"
proof -
  note a1 = alloc_node_Some [OF inv al(1)] and a2 = alloc_node_pick [OF al(2)] and p1 = alloc_node_pick [OF al(1)]
  show fresh: "pipe_fresh r w s"
    using a2(1,2,5) a1(1,2,4) p1(5) inv_length [OF inv] inv_nodeD(1) [OF inv, of w]
    by (auto simp: nth_list_update pipe_fresh_def split: if_splits)
  show "same_tables s (pipe_nodes idx r w s2)" using same_trans(1) [OF a1(3) a2(3)] by (simp add: pipe_nodes_def)
  have "r \<noteq> w" using fresh by (simp add: pipe_fresh_def)
  then show "node_pool (pipe_nodes idx r w s2) = (node_pool s)
       [r := pipe_node VFS_TYPE_PIPE_READ idx Pipe_Read_Vfs_Ops VFS_O_RDONLY,
        w := pipe_node VFS_TYPE_PIPE_WRITE idx Pipe_Write_Vfs_Ops VFS_O_WRONLY]"
    using a1(4) a2(4) by (simp add: pipe_nodes_def list_update_twice)
qed

lemma pipe_nodes_inv:
  assumes inv: "vfs_inv s" "cur_valid s" and al: "alloc_node s = (Some r, s1)" "alloc_node s1 = (Some w, s2)"
  shows "vfs_inv (pipe_nodes idx r w s2)" "cur_valid (pipe_nodes idx r w s2)"
    "n_ops (node_pool (pipe_nodes idx r w s2) ! r) \<noteq> None" "n_ops (node_pool (pipe_nodes idx r w s2) ! w) \<noteq> None"
proof -
  note f = pipe_alloc_nodes(1) [OF inv(1) al, unfolded pipe_fresh_def] and nd = pipe_alloc_nodes(2,3) [OF inv(1) al, of idx]
  show "vfs_inv (pipe_nodes idx r w s2)"
    using vfs_inv_two_nodes [OF inv(1) _ _ nd] f by (simp add: pipe_node_def)
  show "cur_valid (pipe_nodes idx r w s2)" using inv(2) cur_valid_back [OF nd(1)] same_current [OF nd(1)] by simp
  show "n_ops (node_pool (pipe_nodes idx r w s2) ! r) \<noteq> None" "n_ops (node_pool (pipe_nodes idx r w s2) ! w) \<noteq> None"
    using nd(2) f inv_length [OF inv(1)] by (simp_all add: pipe_node_def nth_list_update)
qed

lemma pipe_fds_inv:
  assumes inv: "vfs_inv s" "cur_valid s" and al: "alloc_node s = (Some r, s1)" "alloc_node s1 = (Some w, s2)"
    and run: "pipe_fds E idx r w s2 = Some (res, fdp, s')"
  shows "vfs_inv s'"
proof -
  let ?s = "pipe_nodes idx r w s2"
  note n = pipe_nodes_inv [OF inv al, of idx] and f = pipe_alloc_nodes(1) [OF inv(1) al, unfolded pipe_fresh_def]
  let ?t = "get_current_fd_table ?s"
  obtain fd0 s5 where s5: "fd_table_alloc ?t r ?s = (fd0, s5)" by (cases "fd_table_alloc ?t r ?s")
  obtain fd1 s6 where s6: "fd_table_alloc ?t w s5 = (fd1, s6)" by (cases "fd_table_alloc ?t w s5")
  note i6 = pipe_finish_inv [OF n(1,2) _ _ n(3,4) s5 s6]
  note run' = run [unfolded pipe_fds_def Let_def, folded pipe_nodes_def, unfolded s5 s6 prod.case]
  show ?thesis
  proof (cases "fd0 < 0 \<or> fd1 < 0")
    case True
    then obtain s7 s8 where s7: "(if fd0 \<ge> 0 then map_option snd (fd_table_close E ?t fd0 s6) else Some s6) = Some s7"
      and s8: "(if fd1 \<ge> 0 then map_option snd (fd_table_close E ?t fd1 s7) else Some s7) = Some s8"
      and s': "s' = s8\<lparr>pipe_in_use := (pipe_in_use s8)[idx := False]\<rparr>"
      using run' by (auto simp: bind_eq_Some_conv simp del: map_option_eq_Some)
    note i7 = pipe_undo_inv [OF i6 s7]
    show ?thesis using vfs_inv_back_end [OF pipe_undo_inv(1) [OF i7 s8]] f by (simp add: s')
  qed (use run' i6 f in simp)
qed

lemma vfs_pipe_create_inv:
  assumes inv: "vfs_inv s" "cur_valid s" and run: "vfs_pipe_create E s = Some (res, fdp, s')"
  shows "vfs_inv s'"
proof (cases "pipe_alloc_index s")
  case (Some idx)
  let ?s = "pipe_reset idx s"
  have st: "same_tables s ?s" using back_end_reset back_end_same by blast
  have i0: "vfs_inv ?s" "cur_valid ?s"
    using vfs_inv_back_end [OF inv(1) back_end_reset] inv(2) cur_valid_back [OF st] same_current [OF st] by simp_all
  obtain rn s1 where s1: "alloc_node ?s = (rn, s1)" by (cases "alloc_node ?s")
  obtain wn s2 where s2: "alloc_node s1 = (wn, s2)" by (cases "alloc_node s1")
  note run' = run [unfolded vfs_pipe_create_def Some option.case s1 s2 Let_def prod.case]
  show ?thesis
  proof (cases rn)
    case None
    then have "wn = None" "s2 = ?s" using s1 s2 alloc_node_None by fastforce+
    then show ?thesis using run' None vfs_inv_back_end [OF i0(1)] by auto
  next
    case rn: (Some r)
    note al = alloc_node_Some [OF i0(1) s1 [unfolded rn]]
    show ?thesis
    proof (cases wn)
      case None
      then have "s2 = s1" using s2 alloc_node_None by blast
      then have s': "s' = free_node r (s1\<lparr>pipe_in_use := (pipe_in_use s1)[idx := False]\<rparr>)" using run' rn None by simp
      then obtain n where "node_pool s' = (node_pool ?s)[r := n]" "n_ref_count n = 0" using al(4) by simp
      moreover have "same_tables ?s s'" using al(3) by (simp add: s' same_tables_def free_node_def)
      ultimately show ?thesis using vfs_inv_free_node [OF i0(1) al(2)] by blast
    next
      case wn: (Some w)
      show ?thesis using pipe_fds_inv [OF i0 s1 [unfolded rn] s2 [unfolded wn]] run' rn wn by simp
    qed
  qed
qed (use inv run in \<open>simp add: vfs_pipe_create_def\<close>)

section \<open>New tables\<close>

lemma get_table_other [simp]: "t \<noteq> u \<Longrightarrow> get_table u (set_table t tb s) = get_table u s"
  by (auto simp: get_table_def set_table_def update_conv' split: table_ref.splits)

definition room :: "nat list \<Rightarrow> table_ref \<Rightarrow> 'x vfs \<Rightarrow> bool" where
  "room ks t s \<longleftrightarrow> distinct ks \<and> set ks \<subseteq> {k. k < VFS_MAX_FDS \<and> fds (get_table t s) ! k = None}"

lemma install_std_inv:
  assumes "vfs_inv s" "valid_table t s" "room ks t s"
  shows "vfs_inv (install_std_from ks t s)"
  using assms
proof (induction ks arbitrary: s)
  case (Cons k ks)
  show ?case
  proof (cases "alloc_node s")
    case (Pair node s1)
    show ?thesis
    proof (cases node)
      case None
      then show ?thesis using Pair Cons.prems alloc_node_None by force
    next
      case (Some i)
      note al = alloc_node_Some [OF Cons.prems(1) Pair [unfolded Some]]
      define s2 where "s2 = upd_node i (\<lambda>n. n\<lparr>n_type := VFS_TYPE_DEVICE, n_internal_fd := int k, n_ops := Some Console_Vfs_Ops,
        n_offset := 0, n_size := 0, n_ref_count := 1, n_flags := (if k = 0 then VFS_O_RDONLY else VFS_O_WRONLY)\<rparr>) s1"
      let ?s = "entry_set t k (Some i) 1 s2"
      have k: "k < VFS_MAX_FDS" "fds (get_table t s) ! k = None" using Cons.prems(3) by (auto simp: room_def)
      have tab: "get_table t s2 = get_table t s" using same_get_table [OF al(3)] by (simp add: s2_def)
      obtain n where pool: "node_pool s2 = (node_pool s)[i := n]" "n_ref_count n = 1" "n_ops n \<noteq> None"
        using al(1,4) inv_length [OF Cons.prems(1)] by (simp add: s2_def)
      have nth: "node_pool ?s ! j = (if j = i then n else node_pool s ! j)" if "j < MAX_VFS_NODES" for j
        using pool(1) that inv_length [OF Cons.prems(1)] by (simp add: entry_set_def nth_list_update)
      have "vfs_inv ?s"
      proof (rule vfs_inv_entry [OF Cons.prems(1,2) k(1), where e = "Some i" and d = 1])
        show "same_tables (entry_set t k (Some i) 1 s) ?s"
          using al(3) tab by (auto simp: s2_def entry_set_def same_tables_def set_table_def split: table_ref.splits)
        show "length (node_pool ?s) = MAX_VFS_NODES" using pool(1) inv_length [OF Cons.prems(1)] by (simp add: entry_set_def)
      next
        fix j assume j: "j < MAX_VFS_NODES"
        show "n_ref_count (node_pool ?s ! j) = n_ref_count (node_pool s ! j) + (if Some i = Some j then 1 else 0) -
            (if fds (get_table t s) ! k = Some j then 1 else 0)"
          using nth [OF j] pool(2) k(2) al(1,2) inv_nodeD(1) [OF Cons.prems(1) al(1)] by auto
        show "n_ops (node_pool ?s ! j) \<noteq> None" if "0 < n_ref_count (node_pool ?s ! j)"
          using that nth [OF j] pool(3) inv_nodeD(1,2) [OF Cons.prems(1) j] by (auto split: if_splits)
      qed (use k al(1) in auto)
      moreover have "same_tables s s2" using al(3) by (simp add: s2_def)
      then have "valid_table t ?s" using Cons.prems(2) cur_valid_back by (auto simp: entry_set_def intro: valid_set_table)
      moreover have "room ks t ?s" 
        using Cons.prems(3) tab by (auto simp: room_def entry_set_def nth_list_update')
      ultimately show ?thesis using Cons.IH Pair Some by (simp add: s2_def entry_set_def Let_def)
    qed
  qed
qed simp

lemma empty_table_ok: "table_ok empty_table" "count_list (fds empty_table) (Some i) = 0"
proof -
  have "count_list (replicate n (None :: nat option)) x = (if x = None then n else 0)" for n x by (induction n) auto
  then show "table_ok empty_table" "count_list (fds empty_table) (Some i) = 0"
    by (simp_all add: table_ok_def empty_table_def)
qed

lemma room_empty: "get_table t s = empty_table \<Longrightarrow> distinct ks \<Longrightarrow> set ks \<subseteq> {..<VFS_MAX_FDS} \<Longrightarrow> room ks t s"
  by (auto simp: room_def empty_table_def)

lemma update_new: "k \<notin> fst ` set xs \<Longrightarrow> AList.update k v xs = xs @ [(k, v)]"
  by (induction xs) auto

lemma alloc_table_inv:
  assumes inv: "vfs_inv s" and run: "alloc_table empty_table s = Some (p, s')" and new: "p \<notin> fst ` set (user_fd_tables s)"
  shows "vfs_inv s'" "p \<noteq> 0 \<Longrightarrow> valid_table (User_Table p) s'" "p \<noteq> 0 \<Longrightarrow> get_table (User_Table p) s' = empty_table"
    "k_sched s' = k_sched s" "valid_table t s \<Longrightarrow> valid_table t s'"
    "valid_table t s \<Longrightarrow> get_table t s' = get_table t s"
proof -
  obtain h where s': "s' = (let s = s\<lparr>k_ram := (k_ram s)\<lparr>rf_heap := h\<rparr>\<rparr> in
      if p = 0 then s else set_table (User_Table p) empty_table s)"
    using run by (auto simp: alloc_table_def Let_def split: bind_splits if_splits)
  let ?h = "s\<lparr>k_ram := (k_ram s)\<lparr>rf_heap := h\<rparr>\<rparr>"
  have "back_end s ?h" by (simp add: back_end_def same_tables_def)
  then have ih: "vfs_inv ?h" by (rule vfs_inv_back_end [OF inv])
  have upd: "AList.update p empty_table (user_fd_tables s) = user_fd_tables s @ [(p, empty_table)]"
    using new by (rule update_new)
  let ?v = "set_table (User_Table p) empty_table ?h"
  have "refs ?v i = refs ?h i" for i by (simp add: refs_def all_tables_def set_table_def upd empty_table_ok)
  moreover have "list_all table_ok (all_tables ?v)"
    using ih by (simp add: vfs_inv_def set_table_def upd all_tables_def empty_table_ok)
  moreover have "distinct (map fst (user_fd_tables ?v))" using ih by (auto simp: vfs_inv_def intro!: distinct_set_table)
  ultimately have "vfs_inv ?v" using inv_length [OF ih] inv_nodeD [OF ih] by (intro vfs_invI) simp_all
  then show "vfs_inv s'" using ih by (simp add: s' Let_def)
  show "p \<noteq> 0 \<Longrightarrow> valid_table (User_Table p) s'" by (simp add: s' Let_def valid_table_def set_table_def dom_update)
  show "p \<noteq> 0 \<Longrightarrow> get_table (User_Table p) s' = empty_table" "k_sched s' = k_sched s" by (simp_all add: s' Let_def)
  show "valid_table t s \<Longrightarrow> valid_table t s'"
    by (auto simp: s' Let_def valid_table_def set_table_def dom_update split: table_ref.splits)
  show "valid_table t s \<Longrightarrow> get_table t s' = get_table t s"
    using new by (auto simp: s' Let_def valid_table_def get_table_def set_table_def update_conv' split: table_ref.splits)
qed

lemma fd_table_create_inv:
  assumes "vfs_inv s" "fd_table_create s = Some (p, s')" "p \<notin> fst ` set (user_fd_tables s)"
  shows "vfs_inv s'"
proof -
  obtain v where v: "alloc_table empty_table s = Some (p, v)"
      and s': "s' = (if p = 0 then v else fd_table_install_std (User_Table p) v)"
    using assms(2) by (auto simp: fd_table_create_def split: bind_splits if_splits)
  note al = alloc_table_inv [OF assms(1) v assms(3)]
  show ?thesis
  proof (cases "p = 0")
    case False
    have "room [0, 1, 2] (User_Table p) v" using room_empty [OF al(3) [OF False], of "[0, 1, 2]"] by simp
    then show ?thesis using install_std_inv [OF al(1) al(2) [OF False]] False
      by (simp add: s' fd_table_install_std_def del: install_std_from.simps)
  qed (use al s' in simp)
qed

lemma fd_install_room:
  "room (k # ks) t s \<Longrightarrow> room ks t (fd_install t k i s)"
  by (auto simp: room_def fd_install_def Let_def nth_list_update')

lemma fd_install_frame:
  "t \<noteq> u \<Longrightarrow> get_table u (fd_install t k i s) = get_table u s" "valid_table u s \<Longrightarrow> valid_table u (fd_install t k i s)"
  using valid_set_table [of u s t]
  by (auto simp: fd_install_def Let_def valid_table_def split: table_ref.splits)

lemma clone_inv:
  assumes "vfs_inv s" "valid_table src s" "valid_table dst s" "src \<noteq> dst" "room ks dst s"
  shows "vfs_inv (clone_from ks src dst s)"
  using assms
proof (induction ks arbitrary: s)
  case (Cons k ks)
  have k: "k < VFS_MAX_FDS" "fds (get_table dst s) ! k = None" "room ks dst s" using Cons.prems(5) by (auto simp: room_def)
  show ?case
  proof (cases "fds (get_table src s) ! k")
    case None
    then show ?thesis using Cons.IH [OF Cons.prems(1-4) k(3)] by simp
  next
    case (Some i)
    note range = entry_in_range [OF Cons.prems(1,2) k(1) Some]
    have "vfs_inv (fd_install dst k i s)" using fd_install_inv [OF Cons.prems(1,3) k(1,2) range(1,3)] .
    then show ?thesis
      using Cons.IH [of "fd_install dst k i s"] Cons.prems fd_install_frame fd_install_room [OF Cons.prems(5)] Some
      by (simp add: fd_install_frame)
  qed
qed simp

lemma fd_table_clone_inv:
  assumes "vfs_inv s" "valid_table src s" "fd_table_clone src s = Some (p, s')" "p \<notin> fst ` set (user_fd_tables s)"
  shows "vfs_inv s'"
proof -
  obtain v where v: "alloc_table empty_table s = Some (p, v)"
      and s': "s' = (if p = 0 then v else clone_from [0..<VFS_MAX_FDS] src (User_Table p) v)"
    using assms(3) by (auto simp: fd_table_clone_def split: bind_splits if_splits)
  note al = alloc_table_inv [OF assms(1) v assms(4)]
  show ?thesis
  proof (cases "p = 0")
    case False
    have "src \<noteq> User_Table p" using assms(2,4) by (auto simp: valid_table_def)
    moreover have "room [0..<VFS_MAX_FDS] (User_Table p) v" by (rule room_empty [OF al(3) [OF False]]) auto
    ultimately show ?thesis using clone_inv [OF al(1) al(5) [OF assms(2)] al(2) [OF False]] False by (simp add: s')
  qed (use al s' in simp)
qed

lemma vfs_init_inv:
  assumes "length (node_pool s) = MAX_VFS_NODES" "user_fd_tables s = []"
  shows "vfs_inv (vfs_init s)"
proof -
  let ?s = "s\<lparr>node_pool := map (\<lambda>n. n\<lparr>n_ref_count := 0, n_ops := None, n_internal_fd := -1\<rparr>) (node_pool s),
    kernel_fd_table := empty_table, mount_count := 0\<rparr>"
  have "vfs_inv ?s" using assms by (simp add: vfs_inv_def all_tables_def refs_def empty_table_ok)
  then have "vfs_inv (vfs_mount_fs ''/'' (Some Ramfs_Vfs_Ops) ?s)" by (rule vfs_mount_inv)
  moreover have "room [0, 1, 2] Kernel_Table (vfs_mount_fs ''/'' (Some Ramfs_Vfs_Ops) ?s)"
    by (rule room_empty) (auto simp: get_table_def vfs_mount_fs_def split: option.splits)
  ultimately show ?thesis
    using install_std_inv [of _ Kernel_Table "[0, 1, 2]"]
    by (simp add: vfs_init_def fd_table_install_std_def valid_table_def Let_def del: install_std_from.simps)
qed

section \<open>Reachable states\<close>

text \<open>
  The calls in any order and by any process. Between two calls the scheduler may do anything, as
  long as the process that calls has a table of its own or none is needed. A process that has no
  table yet gets one by \<open>Create\<close> or \<open>Clone\<close>; the heap does not hand out the address of a table
  that is still in use.
\<close>

inductive vfs_reach :: "'x env \<Rightarrow> 'x vfs \<Rightarrow> bool" for E where
  Init: "length (node_pool s) = MAX_VFS_NODES \<Longrightarrow> user_fd_tables s = [] \<Longrightarrow> vfs_reach E (vfs_init s)"
| Open: "vfs_reach E s \<Longrightarrow> cur_valid s \<Longrightarrow> has_table s \<Longrightarrow> vfs_open E path flags s = Some (r, s') \<Longrightarrow> vfs_reach E s'"
| Close: "vfs_reach E s \<Longrightarrow> cur_valid s \<Longrightarrow> vfs_close E fd s = Some (r, s') \<Longrightarrow> vfs_reach E s'"
| Read: "vfs_reach E s \<Longrightarrow> vfs_read E fd sz s = Some (r, bs, s') \<Longrightarrow> vfs_reach E s'"
| Write: "vfs_reach E s \<Longrightarrow> vfs_write E fd buf s = Some (r, s') \<Longrightarrow> vfs_reach E s'"
| Seek: "vfs_reach E s \<Longrightarrow> vfs_seek fd whence off s = (r, s') \<Longrightarrow> vfs_reach E s'"
| Dup: "vfs_reach E s \<Longrightarrow> cur_valid s \<Longrightarrow> vfs_dup fd s = (r, s') \<Longrightarrow> vfs_reach E s'"
| Dup2: "vfs_reach E s \<Longrightarrow> cur_valid s \<Longrightarrow> vfs_dup2 E oldfd newfd s = Some (r, s') \<Longrightarrow> vfs_reach E s'"
| Pipe: "vfs_reach E s \<Longrightarrow> cur_valid s \<Longrightarrow> vfs_pipe_create E s = Some (r, fdp, s') \<Longrightarrow> vfs_reach E s'"
| Mount: "vfs_reach E s \<Longrightarrow> vfs_reach E (vfs_mount_fs path ops s)"
| Mkdir: "vfs_reach E s \<Longrightarrow> vfs_mkdir E path s = Some (r, s') \<Longrightarrow> vfs_reach E s'"
| Unlink: "vfs_reach E s \<Longrightarrow> vfs_unlink E path s = Some (r, s') \<Longrightarrow> vfs_reach E s'"
| Create: "vfs_reach E s \<Longrightarrow> fd_table_create s = Some (p, s') \<Longrightarrow> p \<notin> fst ` set (user_fd_tables s) \<Longrightarrow> vfs_reach E s'"
| Clone: "vfs_reach E s \<Longrightarrow> valid_table src s \<Longrightarrow> fd_table_clone src s = Some (p, s') \<Longrightarrow>
    p \<notin> fst ` set (user_fd_tables s) \<Longrightarrow> vfs_reach E s'"
| Schedule: "vfs_reach E s \<Longrightarrow> vfs_reach E (s\<lparr>k_sched := sc\<rparr>)"

lemma vfs_reach_ok: "vfs_reach E s \<Longrightarrow> vfs_inv s"
proof (induction rule: vfs_reach.induct)
  case (Schedule s sc)
  have "all_tables (s\<lparr>k_sched := sc\<rparr>) = all_tables s" "refs (s\<lparr>k_sched := sc\<rparr>) i = refs s i" for i
    by (simp_all add: all_tables_def refs_def)
  then show ?case using Schedule.IH by (simp add: vfs_inv_def)
qed (blast intro: vfs_init_inv vfs_open_inv vfs_close_inv vfs_read_inv vfs_write_inv vfs_seek_inv vfs_dup_inv vfs_dup2_inv
    vfs_pipe_create_inv vfs_mount_inv vfs_dir_inv fd_table_create_inv fd_table_clone_inv)+

definition blank_node :: vfs_node where
  "blank_node = \<lparr>n_type = 0, n_internal_fd = 0, n_ops = None, n_offset = 0, n_size = 0, n_ref_count = 0, n_flags = 0\<rparr>"

text \<open>The memory of the kernel at the start, with a RAM file system and no process.\<close>

definition blank_vfs :: "unit vfs" where
  "blank_vfs = \<lparr>mounts = replicate 8 \<lparr>mnt_path = replicate 256 NUL, mnt_ops = None, mnt_active = False\<rparr>, mount_count = 0,
     node_pool = replicate 128 blank_node, kernel_fd_table = empty_table, user_fd_tables = [],
     vfile_open_paths = replicate 8 (replicate 256 NUL), vfile_open_used = replicate 8 False,
     fs_vfs_handles = replicate 8 0, fs_vfs_handle_used = replicate 8 False,
     pipes = replicate 16 sample_pipe, pipe_in_use = replicate 16 False, k_ram = ramfs_init blank_ramfs,
     k_sched = scheduler_init sample_sched, k_pmm = sample_pmm, k_vfile = vfile_register blank_vfile, k_terminal = [],
     vfile_scratch = (\<lambda>_. NUL), k_ext = ()\<rparr>"




end
