(* ===== verification/Vfs_Props.thy ===== *)
theory Vfs_Props
  imports Vfs_Inv
begin

text \<open>
  What the file system promises: mounts are resolved by the longest prefix, descriptors that refer
  to themselves, pipes through descriptors, and the calls that lose resources.
\<close>

section \<open>Mounts\<close>

text \<open>A mount matches a path when its own path is a prefix that ends at the end of a component.\<close>

definition mount_match :: "string \<Rightarrow> vfs_mount \<Rightarrow> bool" where
  "mount_match path m \<longleftrightarrow>
     (let len = length (cstr (mnt_path m))
      in mnt_active m \<and> take len (cstr path) = cstr (mnt_path m) \<and>
         (len \<le> 1 \<or> len = length (cstr path) \<or> cstr path ! len = CHR ''/''))"

abbreviation mount_len :: "vfs_mount \<Rightarrow> nat" where
  "mount_len m \<equiv> length (cstr (mnt_path m))"

lemma cnth_cstr: "k \<le> length (cstr s) \<Longrightarrow> cnth s k = (if k = length (cstr s) then NUL else cstr s ! k)"
proof (induction s arbitrary: k)
  case (Cons c s)
  show ?case
  proof (cases k)
    case (Suc j)
    then show ?thesis using Cons.IH [of j] Cons.prems by (auto simp: cnth_def split: if_splits)
  qed (simp add: cnth_def)
qed (simp add: cnth_def)

lemma find_mount_Cons:
  "find_mount path (m # ms) k (best, bl) =
     find_mount path ms (Suc k) (if mount_match path m \<and> bl \<le> mount_len m then (Some k, mount_len m) else (best, bl))"
proof (cases "take (mount_len m) (cstr path) = cstr (mnt_path m)")
  case True
  then have "mount_len m \<le> length (cstr path)" by (metis length_take min.bounded_iff order_refl)
  moreover have "cstr path ! mount_len m \<noteq> NUL" if "mount_len m < length (cstr path)"
    using nth_mem [OF that] cstr_no_nul [of path] by metis
  ultimately show ?thesis
    using True cnth_cstr [of "mount_len m" path]
    by (auto simp: mount_match_def Let_def k_strlen_eq k_strncmp_prefix not_less le_less)
qed (simp add: mount_match_def Let_def k_strlen_eq k_strncmp_prefix)

lemma find_mount_spec:
  assumes "r = find_mount path ms k (best, bl)"
  shows "(r = best \<and> (\<forall>m \<in> set ms. mount_match path m \<longrightarrow> mount_len m < bl)) \<or>
    (\<exists>j < length ms. r = Some (k + j) \<and> mount_match path (ms ! j) \<and> bl \<le> mount_len (ms ! j) \<and>
       (\<forall>m \<in> set ms. mount_match path m \<longrightarrow> mount_len m \<le> mount_len (ms ! j)))"
  using assms
proof (induction ms arbitrary: k best bl)
  case (Cons m ms)
  show ?case
  proof (cases "mount_match path m \<and> bl \<le> mount_len m")
    case True
    then have r: "r = find_mount path ms (Suc k) (Some k, mount_len m)" using Cons.prems by (simp add: find_mount_Cons del: find_mount.simps)
    from Cons.IH [OF r] show ?thesis
    proof (elim disjE exE conjE)
      fix j assume "j < length ms" "r = Some (Suc k + j)" "mount_match path (ms ! j)" "mount_len m \<le> mount_len (ms ! j)"
        "\<forall>m \<in> set ms. mount_match path m \<longrightarrow> mount_len m \<le> mount_len (ms ! j)"
      then show ?thesis using True by (intro disjI2 exI [of _ "Suc j"]) auto
    next
      assume "r = Some k" "\<forall>m' \<in> set ms. mount_match path m' \<longrightarrow> mount_len m' < mount_len m"
      then show ?thesis using True by (intro disjI2 exI [of _ 0]) auto
    qed
  next
    case False
    then have r: "r = find_mount path ms (Suc k) (best, bl)" using Cons.prems by (auto simp: find_mount_Cons simp del: find_mount.simps)
    from Cons.IH [OF r] show ?thesis
    proof (elim disjE exE conjE)
      fix j assume "j < length ms" "r = Some (Suc k + j)" "mount_match path (ms ! j)" "bl \<le> mount_len (ms ! j)"
        "\<forall>m \<in> set ms. mount_match path m \<longrightarrow> mount_len m \<le> mount_len (ms ! j)"
      then show ?thesis using False by (intro disjI2 exI [of _ "Suc j"]) auto
    next
      assume "r = best" "\<forall>m' \<in> set ms. mount_match path m' \<longrightarrow> mount_len m' < bl"
      then show ?thesis using False by (intro disjI1) auto
    qed
  qed
qed simp

text \<open>
  C25. The longest mounted prefix. For an absolute path \<open>find_ops\<close> finds a mount exactly when some
  mount matches, and then the operations of a longest one; a mount without operations of its own
  is served by the virtual files.
\<close>

theorem find_ops_longest:
  assumes "cchar path = CHR ''/''" and "mount_count s \<le> length (mounts s)"
  shows "case find_ops path s of
      None \<Rightarrow> \<forall>i < mount_count s. \<not> mount_match path (mounts s ! i)
    | Some ops \<Rightarrow> \<exists>i < mount_count s. mount_match path (mounts s ! i) \<and>
        (\<forall>j < mount_count s. mount_match path (mounts s ! j) \<longrightarrow> mount_len (mounts s ! j) \<le> mount_len (mounts s ! i)) \<and>
        ops = (case mnt_ops (mounts s ! i) of Some ops \<Rightarrow> ops | None \<Rightarrow> Vfile_Vfs_Ops)"
proof -
  let ?ms = "take (mount_count s) (mounts s)"
  have nth: "i < mount_count s \<Longrightarrow> mounts s ! i \<in> set ?ms" for i
    using assms(2) by (auto simp: in_set_conv_nth intro!: exI [of _ i])
  have "(find_mount path ?ms 0 (None, 0) = None \<and> (\<forall>m \<in> set ?ms. mount_match path m \<longrightarrow> mount_len m < 0)) \<or>
    (\<exists>j < length ?ms. find_mount path ?ms 0 (None, 0) = Some (0 + j) \<and> mount_match path (?ms ! j) \<and> 0 \<le> mount_len (?ms ! j) \<and>
       (\<forall>m \<in> set ?ms. mount_match path m \<longrightarrow> mount_len m \<le> mount_len (?ms ! j)))"
    by (rule find_mount_spec) simp
  then show ?thesis
  proof (elim disjE exE conjE)
    assume none: "find_mount path ?ms 0 (None, 0) = None" and "\<forall>m \<in> set ?ms. mount_match path m \<longrightarrow> mount_len m < 0"
    then have "find_ops path s = None" using assms(1) by (simp add: find_ops_def)
    then show ?thesis using nth \<open>\<forall>m \<in> set ?ms. mount_match path m \<longrightarrow> mount_len m < 0\<close> by auto
  next
    fix j
    assume j: "j < length ?ms" "find_mount path ?ms 0 (None, 0) = Some (0 + j)" "mount_match path (?ms ! j)"
      "\<forall>m \<in> set ?ms. mount_match path m \<longrightarrow> mount_len m \<le> mount_len (?ms ! j)"
    then have lt: "j < mount_count s" "?ms ! j = mounts s ! j" by simp_all
    have "find_ops path s = Some (case mnt_ops (mounts s ! j) of Some ops \<Rightarrow> ops | None \<Rightarrow> Vfile_Vfs_Ops)"
      using assms(1) j(2) by (simp add: find_ops_def split: option.split)
    then show ?thesis using lt j(3,4) nth by (auto intro!: exI [of _ j])
  qed
qed

definition sample_mounts :: "unit vfs" where
  "sample_mounts = blank_vfs\<lparr>mounts := [\<lparr>mnt_path = ''/'' @ [NUL], mnt_ops = Some Ramfs_Vfs_Ops, mnt_active = True\<rparr>,
     \<lparr>mnt_path = ''/0'' @ [NUL], mnt_ops = None, mnt_active = True\<rparr>], mount_count := 2\<rparr>"

theorem find_ops_longest_witness: "find_ops ''/0/dev/null'' sample_mounts = Some Vfile_Vfs_Ops"
proof -
  let ?p = "''/0/dev/null''" and ?s = sample_mounts
  have m: "mount_count ?s = 2" "mnt_ops (mounts ?s ! 1) = None" "mount_len (mounts ?s ! 0) = 1" "mount_len (mounts ?s ! 1) = 2"
    by (simp_all add: sample_mounts_def)
  have match: "mount_match ?p (mounts ?s ! 1)" by (simp add: sample_mounts_def mount_match_def Let_def)
  have "cchar ?p = CHR ''/''" "mount_count ?s \<le> length (mounts ?s)" by (simp_all add: sample_mounts_def)
  note spec = find_ops_longest [OF this]
  then obtain ops where ops: "find_ops ?p ?s = Some ops" using match m(1) by (cases "find_ops ?p ?s") auto
  then obtain i where i: "i < 2" "mount_len (mounts ?s ! 1) \<le> mount_len (mounts ?s ! i)"
      "ops = (case mnt_ops (mounts ?s ! i) of Some ops \<Rightarrow> ops | None \<Rightarrow> Vfile_Vfs_Ops)"
    using spec match m(1) by (simp only: option.case) force
  then have "i = 1" using m(3,4) by (cases "i = 0") auto
  then show ?thesis using ops i(3) m(2) by simp
qed

section \<open>Descriptors that refer to themselves\<close>

lemma self_fd_num_digits:
  assumes "set ds \<subseteq> digit_char ` {..<10}" "foldl (\<lambda>v c. 10 * v + (of_char c - 48)) v ds \<le> 9 * VFS_MAX_FDS" "cchar rest = NUL"
  shows "self_fd_num (ds @ rest) v n = Some (foldl (\<lambda>v c. 10 * v + (of_char c - 48)) v ds, n + length ds, rest)"
  using assms(1,2)
proof (induction ds arbitrary: v n)
  case Nil
  show ?case using assms(3) by (cases rest) simp_all
next
  case (Cons c ds)
  have grow: "v \<le> foldl (\<lambda>v c. 10 * v + (of_char c - 48)) v ds" for v :: nat
  proof (induction ds arbitrary: v)
    case (Cons d ds)
    show ?case using Cons.IH [of "10 * v + (of_char d - 48)"] by simp
  qed simp
  obtain d where d: "c = digit_char d" "d < 10" using Cons.prems(1) by auto
  have "10 * v + d \<le> 9 * VFS_MAX_FDS" using Cons.prems(2) grow [of "10 * v + d"] d by simp
  then show ?case using Cons.IH [of "10 * v + d" "Suc n"] Cons.prems d by (simp add: mult.commute)
qed

lemma self_fd_num_put_dec:
  assumes "unat n \<le> 9 * VFS_MAX_FDS" "cchar rest = NUL"
  shows "\<exists>d > 0. self_fd_num (put_dec n @ rest) 0 0 = Some (unat n, d, rest)"
proof -
  have "set (dec_digits k) \<subseteq> digit_char ` {..<10}" for k using dec_digits_no_nul by blast
  moreover have "digit_char 0 = CHR ''0''" by code_simp
  then have "CHR ''0'' \<in> digit_char ` {..<10}" by (metis image_eqI lessThan_iff zero_less_numeral)
  ultimately have "set (put_dec n) \<subseteq> digit_char ` {..<10}" by (simp add: put_dec_def)
  from self_fd_num_digits [OF this, of 0 rest 0] put_dec_value [of n] assms length_put_dec(1) [of n]
  show ?thesis by (auto simp: dec_value_def)
qed

lemma put_scratch_Nil [simp]: "put_scratch [] b = b"
  by (simp add: put_scratch_def)

definition self_descriptor :: "int \<Rightarrow> 'x vfs \<Rightarrow> bool" where
  "self_descriptor fd s \<longleftrightarrow>
     (case cur_node fd s of
        None \<Rightarrow> False
      | Some node \<Rightarrow>
          (let n = node_pool s ! node; path = vfile_open_paths s ! nat (n_internal_fd n)
           in n_ops n = Some Vfile_Vfs_Ops \<and> n_flags n AND 3 \<noteq> VFS_O_WRONLY \<and> vfile_open_idx (n_internal_fd n) s \<and>
              cstr path = SELF_FD @ put_dec (of_int fd) \<and> vfile_find (\<lambda>e. \<not> ve_is_dir e) path (k_vfile s) = None))"

lemma self_fd_path:
  assumes "cstr path = SELF_FD @ put_dec (of_int fd)" "0 \<le> fd" "fd < int VFS_MAX_FDS"
  shows "k_strncmp path SELF_FD (int (k_strlen SELF_FD)) = 0"
    "\<exists>d > 0. \<exists>rest. cchar rest = NUL \<and> self_fd_num (drop (k_strlen SELF_FD) path) 0 0 = Some (nat fd, d, rest)"
proof -
  show "k_strncmp path SELF_FD (int (k_strlen SELF_FD)) = 0"
    using assms(1) by (simp add: k_strlen_eq k_strncmp_0_iff)
  obtain rest where rest: "path = cstr path @ rest" "cchar rest = NUL"
  proof
    show "path = cstr path @ dropWhile (\<lambda>c. c \<noteq> NUL) path" by (simp add: cstr_def)
    show "cchar (dropWhile (\<lambda>c. c \<noteq> NUL) path) = NUL" by (induction path) (auto simp: cchar_def)
  qed
  obtain k where k: "fd = int k" using assms(2) nonneg_int_cases by blast
  then have u: "unat (of_int fd :: u64) = k" using assms(3) unat_of_nat_u64 [of k] by simp
  have "path = SELF_FD @ put_dec (of_int fd) @ rest" using rest(1) assms(1) by (metis append.assoc)
  then have "drop (k_strlen SELF_FD) path = put_dec (of_int fd) @ rest" by (simp add: k_strlen_eq)
  then show "\<exists>d > 0. \<exists>rest. cchar rest = NUL \<and> self_fd_num (drop (k_strlen SELF_FD) path) 0 0 = Some (nat fd, d, rest)"
    using self_fd_num_put_dec [of "of_int fd" rest] rest(2) assms(3) u k by (auto simp del: of_int_of_nat_eq)
qed

lemma self_descriptor_read:
  assumes self: "self_descriptor fd s" and rd: "\<And>f. rd = Some f \<Longrightarrow> f fd VFILE_MAX_CONTENT s = Some (-1, [], s)"
  shows "vfs_read_node E rd fd sz s = Some (-1, [], s)"
proof -
  obtain node where node: "cur_node fd s = Some node" using self by (auto simp: self_descriptor_def split: option.splits)
  let ?n = "node_pool s ! node"
  let ?path = "vfile_open_paths s ! nat (n_internal_fd ?n)"
  have n: "n_ops ?n = Some Vfile_Vfs_Ops" "n_flags ?n AND 3 \<noteq> VFS_O_WRONLY" "vfile_open_idx (n_internal_fd ?n) s"
    "cstr ?path = SELF_FD @ put_dec (of_int fd)" "vfile_find (\<lambda>e. \<not> ve_is_dir e) ?path (k_vfile s) = None"
    using self node by (simp_all add: self_descriptor_def Let_def)
  have fd: "0 \<le> fd" "fd < int VFS_MAX_FDS" using node by (auto simp: fd_table_get_def split: if_splits)
  note path = self_fd_path [OF n(4) fd]
  have "gen_self_fd_path rd ?path VFILE_MAX_CONTENT s = Some (-1, s)"
    using path(2) fd rd by (cases rd) (auto simp: gen_self_fd_path_def)
  then have "vfile_read E rd ?path VFILE_MAX_CONTENT s = Some (-1, s)" using path(1) n(5) by (simp add: vfile_read_def)
  then show ?thesis using node n(1,2,3) by (simp add: vfs_read_node_def vfile_vfs_read_def)
qed

text \<open>
  C27. Descriptors that refer to themselves. Reading a descriptor that is open on its own entry
  \<^verbatim>\<open>/0/system/self/fd/N\<close> does not recurse forever: the nested reads stop at the depth limit and the
  read fails with -1, without any change of state.
\<close>

theorem vfs_read_self_fd:
  assumes "self_descriptor fd s"
  shows "vfs_read E fd sz s = Some (-1, [], s)"
proof -
  have "vfs_read_depth E k fd sz s = Some (-1, [], s)" for k sz
    by (induction k arbitrary: sz) (auto intro!: self_descriptor_read [OF assms])
  then show ?thesis by (simp add: vfs_read_def)
qed

definition sample_self_fd :: "unit vfs" where
  "sample_self_fd = blank_vfs\<lparr>node_pool := (node_pool blank_vfs)[0 := blank_node\<lparr>n_ops := Some Vfile_Vfs_Ops, n_ref_count := 1\<rparr>],
     kernel_fd_table := \<lparr>fds = (replicate 32 None)[3 := Some 0], fd_count = 1\<rparr>,
     vfile_open_paths := ''/0/system/self/fd/3'' # replicate 7 [], vfile_open_used := True # replicate 7 False,
     k_vfile := blank_vfile\<rparr>"

theorem vfs_read_self_fd_witness: "\<forall>E. vfs_read E 3 64 sample_self_fd = Some (-1, [], sample_self_fd)"
proof -
  have "cur_node 3 sample_self_fd = Some 0"
    by (simp add: sample_self_fd_def blank_vfs_def fd_table_get_def get_current_fd_table_def process_current_def
        scheduler_init_def get_table_def)
  moreover have "put_dec (3 :: u64) = ''3''" by code_simp
  then have "put_dec (of_int 3) = ''3''" by simp
  ultimately have "self_descriptor 3 sample_self_fd"
    by (simp add: self_descriptor_def sample_self_fd_def blank_vfs_def blank_node_def vfile_open_idx_def vfile_find_def
        blank_vfile_def Let_def)
  then show ?thesis using vfs_read_self_fd by blast
qed

section \<open>Pipes through descriptors\<close>

lemma fd_table_alloc_Some:
  assumes "fd_table_alloc t i s = (fd, s')" "0 \<le> fd" "vfs_inv s" "valid_table t s" "i < MAX_VFS_NODES"
  shows "fd < int VFS_MAX_FDS" "fds (get_table t s) ! nat fd = None"
    "fds (get_table t s') = (fds (get_table t s))[nat fd := Some i]"
    "node_pool s' = (node_pool s)[i := (node_pool s ! i)\<lparr>n_ref_count := n_ref_count (node_pool s ! i) + 1\<rparr>]"
    "pipes s' = pipes s" "pipe_in_use s' = pipe_in_use s" "k_sched s' = k_sched s"
proof -
  have len: "length (fds (get_table t s)) = VFS_MAX_FDS"
    using vfs_inv_table_ok [OF assms(3,4)] by (simp add: table_ok_def)
  obtain k where k: "first_index (\<lambda>e. e = None) (fds (get_table t s)) = Some k" "fd = int k" "s' = fd_install t k i s"
    using assms(1,2) by (auto simp: fd_table_alloc_def split: option.splits)
  show "fd < int VFS_MAX_FDS" "fds (get_table t s) ! nat fd = None"
    using k(1,2) len by (auto simp: first_index_Some_iff)
  show "fds (get_table t s') = (fds (get_table t s))[nat fd := Some i]"
    "node_pool s' = (node_pool s)[i := (node_pool s ! i)\<lparr>n_ref_count := n_ref_count (node_pool s ! i) + 1\<rparr>]"
    "pipes s' = pipes s" "pipe_in_use s' = pipe_in_use s" "k_sched s' = k_sched s"
    using k(2,3) by (simp_all add: fd_install_def Let_def)
qed

lemma alloc_node_frame:
  "alloc_node s = (r, s') \<Longrightarrow> pipes s' = pipes s \<and> pipe_in_use s' = pipe_in_use s \<and> k_sched s' = k_sched s"
  by (auto simp: alloc_node_def split: option.splits)

text \<open>A descriptor of the current table and the node behind it.\<close>

definition pipe_end :: "int \<Rightarrow> int \<Rightarrow> nat \<Rightarrow> vfs_ops \<Rightarrow> int \<Rightarrow> 'x vfs \<Rightarrow> bool" where
  "pipe_end fd type idx ops flags s \<longleftrightarrow>
     (\<exists>i < MAX_VFS_NODES. cur_node fd s = Some i \<and> node_pool s ! i = (pipe_node type idx ops flags)\<lparr>n_ref_count := 1\<rparr>)"

lemma pipe_nodes_frame:
  "alloc_node s = (r', s1) \<Longrightarrow> alloc_node s1 = (w', s2) \<Longrightarrow> pipes (pipe_nodes idx r w s2) = pipes s"
  "alloc_node s = (r', s1) \<Longrightarrow> alloc_node s1 = (w', s2) \<Longrightarrow> pipe_in_use (pipe_nodes idx r w s2) = pipe_in_use s"
  by (auto dest!: alloc_node_frame simp: pipe_nodes_def)

text \<open>The successful run of \<open>pipe_fds\<close>.\<close>

lemma pipe_fds_ok:
  assumes inv: "vfs_inv s" "cur_valid s" and al: "alloc_node s = (Some r, s1)" "alloc_node s1 = (Some w, s2)"
    and run: "pipe_fds E idx r w s2 = Some (0, Some (fd0, fd1), s')"
  shows "pipe_end fd0 VFS_TYPE_PIPE_READ idx Pipe_Read_Vfs_Ops VFS_O_RDONLY s'"
    "pipe_end fd1 VFS_TYPE_PIPE_WRITE idx Pipe_Write_Vfs_Ops VFS_O_WRONLY s'"
    "pipes s' = pipes s" "pipe_in_use s' = pipe_in_use s"
proof -
  let ?s = "pipe_nodes idx r w s2"
  note n = pipe_nodes_inv [OF inv al, of idx] and f = pipe_alloc_nodes(1) [OF inv(1) al, unfolded pipe_fresh_def]
    and nd = pipe_alloc_nodes(2,3) [OF inv(1) al, of idx] and fr = pipe_nodes_frame [OF al, of idx r w]
  let ?t = "get_current_fd_table ?s"
  obtain d0 s5 where s5: "fd_table_alloc ?t r ?s = (d0, s5)" by (cases "fd_table_alloc ?t r ?s")
  obtain d1 s6 where s6: "fd_table_alloc ?t w s5 = (d1, s6)" by (cases "fd_table_alloc ?t w s5")
  note run' = run [unfolded pipe_fds_def Let_def, folded pipe_nodes_def, unfolded s5 s6 prod.case]
  have d: "d0 = fd0" "d1 = fd1" "s6 = s'" "0 \<le> fd0" "0 \<le> fd1" using run' by (auto split: if_splits bind_splits)
  have r: "r < MAX_VFS_NODES" "w < MAX_VFS_NODES" "r \<noteq> w" using f by auto
  note s5 = s5 [unfolded d] and s6 = s6 [unfolded d]
  note a0 = fd_table_alloc_Some [OF s5 d(4) n(1,2) r(1)]
  have v5: "valid_table ?t s5" using fd_table_alloc_frame(1) [OF s5 n(2)] .
  note a1 = fd_table_alloc_Some [OF s6 d(5) fd_table_alloc_inv [OF n(1,2) r(1) n(3) s5] v5 r(2)]
  have cur: "get_current_fd_table s' = ?t"
    using a0(7) a1(7) by (simp add: get_current_fd_table_def split: option.split)
  have ne: "nat fd1 \<noteq> nat fd0"
  proof
    assume eq: "nat fd1 = nat fd0"
    have "length (fds (get_table ?t ?s)) = VFS_MAX_FDS" using vfs_inv_table_ok [OF n(1,2)] by (simp add: table_ok_def)
    then have "fds (get_table ?t s5) ! nat fd0 = Some r" using a0(1,3) d(4) by simp
    then show False using a1(2) eq by simp
  qed
  have len: "length (fds (get_table ?t ?s)) = VFS_MAX_FDS" "length (node_pool ?s) = MAX_VFS_NODES"
    using vfs_inv_table_ok [OF n(1,2)] inv_length [OF n(1)] by (simp_all add: table_ok_def)
  have "cur_node fd0 s' = Some r" "cur_node fd1 s' = Some w"
    using cur a0(1,3) a1(1,3) d(4,5) ne len(1) by (simp_all add: fd_table_get_def)
  moreover have "node_pool s' ! r = (pipe_node VFS_TYPE_PIPE_READ idx Pipe_Read_Vfs_Ops VFS_O_RDONLY)\<lparr>n_ref_count := 1\<rparr>"
    "node_pool s' ! w = (pipe_node VFS_TYPE_PIPE_WRITE idx Pipe_Write_Vfs_Ops VFS_O_WRONLY)\<lparr>n_ref_count := 1\<rparr>"
    using a0(4) a1(4) nd(2) r len(2) inv_length [OF inv(1)] by (simp_all add: pipe_node_def)
  ultimately show "pipe_end fd0 VFS_TYPE_PIPE_READ idx Pipe_Read_Vfs_Ops VFS_O_RDONLY s'"
    "pipe_end fd1 VFS_TYPE_PIPE_WRITE idx Pipe_Write_Vfs_Ops VFS_O_WRONLY s'"
    using r(1,2) by (auto simp: pipe_end_def)
  show "pipes s' = pipes s" "pipe_in_use s' = pipe_in_use s" using a0(5,6) a1(5,6) fr by simp_all
qed

lemma pipe_end_write:
  assumes e: "cur_node fd s = Some i" "node_pool s ! i = (pipe_node VFS_TYPE_PIPE_WRITE idx Pipe_Write_Vfs_Ops VFS_O_WRONLY)\<lparr>n_ref_count := 1\<rparr>"
    and p: "idx < VFS_MAX_PIPES" "pipe_in_use s ! idx"
  shows "\<exists>s'. vfs_write E fd buf s = Some (int (fst (pipe_put buf (pipes s ! idx))), s') \<and>
    pipes s' = (pipes s)[idx := snd (pipe_put buf (pipes s ! idx))] \<and> pipe_in_use s' = pipe_in_use s \<and> same_tables s s' \<and>
    (\<exists>n. node_pool s' = (node_pool s)[i := n])"
proof -
  obtain n q where q: "pipe_put buf (pipes s ! idx) = (n, q)" by (cases "pipe_put buf (pipes s ! idx)")
  have w: "pipe_vfs_write (int idx) buf s = Some (int n, upd_pipe idx (\<lambda>_. q) s)"
    using p q by (simp add: pipe_vfs_write_def pipe_open_idx_def)
  have "same_tables s (upd_pipe idx (\<lambda>_. q) s)" by (simp add: same_tables_def)
  moreover have "\<exists>m. node_pool s = (node_pool s)[i := m]" using list_update_id by metis
  ultimately show ?thesis
    using e w q by (auto simp: vfs_write_def pipe_node_def Let_def)
qed

lemma pipe_end_read:
  assumes e: "cur_node fd s = Some i" "node_pool s ! i = (pipe_node VFS_TYPE_PIPE_READ idx Pipe_Read_Vfs_Ops VFS_O_RDONLY)\<lparr>n_ref_count := 1\<rparr>"
    and p: "idx < VFS_MAX_PIPES" "pipe_in_use s ! idx"
  shows "\<exists>s'. vfs_read E fd sz s = Some (int (length (fst (pipe_get (unat sz) (pipes s ! idx)))), fst (pipe_get (unat sz) (pipes s ! idx)), s')"
proof -
  obtain bs q where q: "pipe_get (unat sz) (pipes s ! idx) = (bs, q)" by (cases "pipe_get (unat sz) (pipes s ! idx)")
  have "pipe_vfs_read (int idx) sz s = Some (int (length bs), bs, upd_pipe idx (\<lambda>_. q) s)"
    using p q by (simp add: pipe_vfs_read_def pipe_open_idx_def)
  then have "\<exists>s'. vfs_read_node E rd fd sz s = Some (int (length bs), bs, s')" for rd
    using e by (simp add: vfs_read_node_def pipe_node_def)
  then show ?thesis using q by (simp add: vfs_read_def numeral_2_eq_2)
qed

text \<open>
  C24. Bytes through a pipe. After \<^verbatim>\<open>vfs_pipe\<close> has succeeded, a write to its second descriptor accepts
  the first 4096 bytes, and a read from its first descriptor returns them in order, as many as were
  asked for.
\<close>

theorem vfs_pipe_write_read:
  assumes inv: "vfs_inv s" "cur_valid s" and pipes: "length (pipes s) = VFS_MAX_PIPES" "length (pipe_in_use s) = VFS_MAX_PIPES"
      "\<And>p. p \<in> set (pipes s) \<Longrightarrow> length (p_buf p) = VFS_PIPE_BUF_SIZE"
    and run: "vfs_pipe_create E s = Some (0, Some (rfd, wfd), s1)"
  shows "\<exists>s2 s3. vfs_write E wfd buf s1 = Some (int (min (length buf) VFS_PIPE_BUF_SIZE), s2) \<and>
    vfs_read E rfd sz s2 = Some (int (min (unat sz) (min (length buf) VFS_PIPE_BUF_SIZE)), take (min (unat sz) VFS_PIPE_BUF_SIZE) buf, s3)"
proof -
  obtain idx where idx: "pipe_alloc_index s = Some idx" using run by (cases "pipe_alloc_index s") (auto simp: vfs_pipe_create_def)
  have lt: "idx < VFS_MAX_PIPES" using idx pipes(2) by (simp add: pipe_alloc_index_def first_index_Some_iff)
  let ?s = "pipe_reset idx s"
  have st: "same_tables s ?s" using back_end_reset back_end_same by blast
  have i0: "vfs_inv ?s" "cur_valid ?s"
    using vfs_inv_back_end [OF inv(1) back_end_reset] inv(2) cur_valid_back [OF st] same_current [OF st] by simp_all
  obtain rn u1 where u1: "alloc_node ?s = (rn, u1)" by (cases "alloc_node ?s")
  obtain wn u2 where u2: "alloc_node u1 = (wn, u2)" by (cases "alloc_node u1")
  note run' = run [unfolded vfs_pipe_create_def idx option.case u1 u2 Let_def prod.case]
  obtain r w where rw: "rn = Some r" "wn = Some w" using run' by (cases rn; cases wn) auto
  note ok = pipe_fds_ok [OF i0 u1 [unfolded rw] u2 [unfolded rw], of E idx rfd wfd s1]
  have run2: "pipe_fds E idx r w u2 = Some (0, Some (rfd, wfd), s1)" using run' rw by simp
  let ?p = "pipes s1 ! idx"
  have p: "pipe_in_use s1 ! idx" "pipe_ok ?p" "pipe_contents ?p = []" "length (pipes s1) = VFS_MAX_PIPES"
    using ok(3,4) [OF run2] lt pipes by (simp_all add: pipe_reset_def pipe_ok_def pipe_contents_def)
  obtain j where j: "cur_node wfd s1 = Some j" "node_pool s1 ! j = (pipe_node VFS_TYPE_PIPE_WRITE idx Pipe_Write_Vfs_Ops VFS_O_WRONLY)\<lparr>n_ref_count := 1\<rparr>"
    using ok(2) [OF run2] by (auto simp: pipe_end_def)
  obtain i where i: "cur_node rfd s1 = Some i" "node_pool s1 ! i = (pipe_node VFS_TYPE_PIPE_READ idx Pipe_Read_Vfs_Ops VFS_O_RDONLY)\<lparr>n_ref_count := 1\<rparr>"
    using ok(1) [OF run2] by (auto simp: pipe_end_def)
  have "i \<noteq> j" using i(2) j(2) by (auto simp: pipe_node_def)
  obtain s2 where s2: "vfs_write E wfd buf s1 = Some (int (fst (pipe_put buf ?p)), s2)"
      "pipes s2 = (pipes s1)[idx := snd (pipe_put buf ?p)]" "pipe_in_use s2 = pipe_in_use s1" "same_tables s1 s2"
      "\<exists>n. node_pool s2 = (node_pool s1)[j := n]"
    using pipe_end_write [OF j lt p(1), of E buf] by blast
  have i2: "cur_node rfd s2 = Some i" "node_pool s2 ! i = (pipe_node VFS_TYPE_PIPE_READ idx Pipe_Read_Vfs_Ops VFS_O_RDONLY)\<lparr>n_ref_count := 1\<rparr>"
    using i s2(5) \<open>i \<noteq> j\<close> same_current [OF s2(4)] same_get_table [OF s2(4)] by auto
  have q: "pipes s2 ! idx = snd (pipe_put buf ?p)" "pipe_in_use s2 ! idx" using s2(2,3) p lt by simp_all
  note put = pipe_put_contents [OF p(2), of buf]
  have "p_count ?p = 0" using p(3) length_pipe_contents by (metis list.size(3))
  then have cont: "pipe_contents (pipes s2 ! idx) = take VFS_PIPE_BUF_SIZE buf" "fst (pipe_put buf ?p) = min (length buf) VFS_PIPE_BUF_SIZE"
    using put(2,3) p(3) q(1) by (simp_all add: min.commute)
  have "fst (pipe_get (unat sz) (pipes s2 ! idx)) = take (unat sz) (pipe_contents (pipes s2 ! idx))"
    using pipe_get_contents(3) [OF put(1)] q(1) by simp
  then show ?thesis
    using pipe_end_read [OF i2 lt q(2), of E sz] s2(1) cont by (auto simp: take_take ac_simps)
qed

lemma blank_vfs_inv: "vfs_inv blank_vfs" "cur_valid blank_vfs"
proof -
  have "refs blank_vfs i = 0" for i by (simp add: refs_def all_tables_def blank_vfs_def empty_table_ok)
  then show "vfs_inv blank_vfs"
    by (intro vfs_invI) (simp_all add: blank_vfs_def blank_node_def all_tables_def empty_table_ok)
  show "cur_valid blank_vfs"
    by (simp add: get_current_fd_table_def process_current_def blank_vfs_def scheduler_init_def valid_table_def)
qed

lemma blank_vfs_pipe: "\<exists>s. vfs_pipe_create E blank_vfs = Some (0, Some (0, 1), s)"
proof -
  let ?b = blank_vfs and ?P = "\<lambda>n. n_ref_count n = 0 \<and> n_ops n = None"
  have pool: "node_pool (pipe_reset 0 ?b) = replicate 128 blank_node" by (simp add: blank_vfs_def pipe_reset_def)
  have idx: "pipe_alloc_index ?b = Some 0" by (simp add: pipe_alloc_index_def blank_vfs_def first_index_Some_iff)
  have "first_index ?P (replicate 128 blank_node) = Some 0" by (simp add: first_index_Some_iff blank_node_def)
  then have r: "alloc_node (pipe_reset 0 ?b) = (Some 0, upd_node 0 (\<lambda>n. n\<lparr>n_ref_count := 1\<rparr>) (pipe_reset 0 ?b))"
    by (simp add: alloc_node_def pool)
  let ?u = "upd_node 0 (\<lambda>n. n\<lparr>n_ref_count := 1\<rparr>) (pipe_reset 0 ?b)"
  have "first_index ?P ((replicate 128 blank_node)[0 := blank_node\<lparr>n_ref_count := 1\<rparr>]) = Some 1"
    by (simp add: first_index_Some_iff blank_node_def)
  then obtain u2 where w: "alloc_node ?u = (Some 1, u2)" and u2: "u2 = upd_node 1 (\<lambda>n. n\<lparr>n_ref_count := 1\<rparr>) ?u"
    by (simp add: alloc_node_def pool)
  define v where "v = pipe_nodes 0 0 1 u2"
  have t: "get_current_fd_table v = Kernel_Table" "get_table Kernel_Table v = empty_table"
    by (simp_all add: v_def u2 get_current_fd_table_def process_current_def blank_vfs_def scheduler_init_def pipe_nodes_def
        get_table_def pipe_reset_def)
  have "first_index (\<lambda>e. e = None) (fds empty_table) = Some 0"
    by (simp add: first_index_Some_iff empty_table_def)
  then have f0: "fd_table_alloc Kernel_Table 0 v = (0, fd_install Kernel_Table 0 0 v)"
    by (simp add: fd_table_alloc_def t)
  have "first_index (\<lambda>e. e = None) ((fds empty_table)[0 := Some 0]) = Some 1"
    by (simp add: first_index_Some_iff empty_table_def)
  then have f1: "\<exists>s. fd_table_alloc Kernel_Table 1 (fd_install Kernel_Table 0 0 v) = (1, s)"
    by (simp add: fd_table_alloc_def fd_install_def t Let_def)
  have "\<exists>s. pipe_fds E 0 0 1 u2 = Some (0, Some (0, 1), s)"
    unfolding pipe_fds_def Let_def pipe_nodes_def [symmetric] v_def [symmetric] t f0 prod.case using f1 by auto
  then show ?thesis by (simp only: vfs_pipe_create_def idx option.case r w Let_def prod.case)
qed

theorem vfs_pipe_write_read_witness:
  "\<forall>E. \<exists>s1 s2 s3. vfs_pipe_create E blank_vfs = Some (0, Some (0, 1), s1) \<and>
     vfs_write E 1 [7, 8, 9] s1 = Some (3, s2) \<and> vfs_read E 0 2 s2 = Some (2, [7, 8], s3)"
proof
  fix E
  obtain s where s: "vfs_pipe_create E blank_vfs = Some (0, Some (0, 1), s)" using blank_vfs_pipe by blast
  have "\<exists>s2 s3. vfs_write E 1 [7, 8, 9] s = Some (int (min (length [7, 8, 9 :: u8]) VFS_PIPE_BUF_SIZE), s2) \<and>
    vfs_read E 0 2 s2 = Some (int (min (unat (2 :: u64)) (min (length [7, 8, 9 :: u8]) VFS_PIPE_BUF_SIZE)),
      take (min (unat (2 :: u64)) VFS_PIPE_BUF_SIZE) [7, 8, 9], s3)"
    by (rule vfs_pipe_write_read [OF blank_vfs_inv _ _ _ s]) (simp_all add: blank_vfs_def sample_pipe_def)
  then show "\<exists>s1 s2 s3. vfs_pipe_create E blank_vfs = Some (0, Some (0, 1), s1) \<and>
     vfs_write E 1 [7, 8, 9] s1 = Some (3, s2) \<and> vfs_read E 0 2 s2 = Some (2, [7, 8], s3)"
    using s by simp
qed

section \<open>Lost nodes\<close>

definition free_nodes :: "'x vfs \<Rightarrow> nat" where
  "free_nodes s = length (filter (\<lambda>n. n_ref_count n = 0 \<and> n_ops n = None) (node_pool s))"

lemma alloc_node_free:
  assumes "0 < free_nodes s"
  shows "\<exists>i s'. alloc_node s = (Some i, s') \<and> free_nodes s' + 1 = free_nodes s"
proof -
  let ?P = "\<lambda>n. n_ref_count n = 0 \<and> n_ops n = None"
  have "\<exists>n \<in> set (node_pool s). ?P n" using assms by (auto simp: free_nodes_def filter_empty_conv)
  then obtain i where i: "first_index ?P (node_pool s) = Some i"
    using first_index_None_iff [of ?P "node_pool s"] by (cases "first_index ?P (node_pool s)") auto
  let ?s = "upd_node i (\<lambda>n. n\<lparr>n_ref_count := 1\<rparr>) s"
  have "alloc_node s = (Some i, ?s)" using i by (simp add: alloc_node_def)
  moreover have "free_nodes ?s + 1 = free_nodes s"
    using length_filter_update [of i "node_pool s" ?P "(node_pool s ! i)\<lparr>n_ref_count := 1\<rparr>"] first_index_SomeD(1,2) [OF i]
    by (simp add: free_nodes_def)
  ultimately show ?thesis by blast
qed

text \<open>
  C28. A pipe that finds no descriptors loses its nodes. When the table of the caller is full,
  \<^verbatim>\<open>vfs_pipe\<close> reports failure but keeps the operations of both nodes it took from the pool, with a
  reference count of 0 and no descriptor, so neither is ever allocated again.
\<close>

theorem vfs_pipe_loses_nodes:
  assumes inv: "vfs_inv s" "cur_valid s" and full: "None \<notin> set (fds (get_table (get_current_fd_table s) s))"
    and idx: "pipe_alloc_index s = Some idx" and free: "2 \<le> free_nodes s"
  shows "\<exists>fdp s'. vfs_pipe_create E s = Some (-1, fdp, s') \<and> free_nodes s' + 2 = free_nodes s \<and>
    kernel_fd_table s' = kernel_fd_table s \<and> user_fd_tables s' = user_fd_tables s"
proof -
  let ?s = "pipe_reset idx s"
  have st: "same_tables s ?s" using back_end_reset back_end_same by blast
  have i0: "vfs_inv ?s" "cur_valid ?s"
    using vfs_inv_back_end [OF inv(1) back_end_reset] inv(2) cur_valid_back [OF st] same_current [OF st] by simp_all
  have fr: "free_nodes ?s = free_nodes s" by (simp add: free_nodes_def pipe_reset_def)
  obtain r u1 where u1: "alloc_node ?s = (Some r, u1)" "free_nodes u1 + 1 = free_nodes s"
    using alloc_node_free [of ?s] fr free by auto
  obtain w u2 where u2: "alloc_node u1 = (Some w, u2)" "free_nodes u2 + 1 = free_nodes u1"
    using alloc_node_free [of u1] u1(2) free by auto
  let ?v = "pipe_nodes idx r w u2"
  note nd = pipe_alloc_nodes(2,3) [OF i0(1) u1(1) u2(1), of idx]
    and f = pipe_alloc_nodes(1) [OF i0(1) u1(1) u2(1), unfolded pipe_fresh_def]
  have sv: "same_tables s ?v" using same_trans(1) [OF st nd(1)] .
  then have t: "get_current_fd_table ?v = get_current_fd_table s" "get_table t ?v = get_table t s" for t
    using same_current same_get_table by blast+
  have "first_index (\<lambda>e. e = None) (fds (get_table (get_current_fd_table s) s)) = None"
    unfolding first_index_None_iff using full by metis
  then have a: "fd_table_alloc (get_current_fd_table s) i ?v = (-1, ?v)" for i by (simp add: fd_table_alloc_def t)
  have run: "pipe_fds E idx r w u2 = Some (-1, Some (-1, -1), ?v\<lparr>pipe_in_use := (pipe_in_use ?v)[idx := False]\<rparr>)"
    unfolding pipe_fds_def Let_def pipe_nodes_def [symmetric] t a prod.case by simp
  have "vfs_pipe_create E s = Some (-1, Some (-1, -1), ?v\<lparr>pipe_in_use := (pipe_in_use ?v)[idx := False]\<rparr>)"
    by (simp only: vfs_pipe_create_def idx option.case u1(1) u2(1) Let_def prod.case run)
  moreover have "free_nodes ?v + 2 = free_nodes s"
  proof -
    let ?P = "\<lambda>n. n_ref_count n = 0 \<and> n_ops n = None" and ?pr = "pipe_node VFS_TYPE_PIPE_READ idx Pipe_Read_Vfs_Ops VFS_O_RDONLY"
      and ?pw = "pipe_node VFS_TYPE_PIPE_WRITE idx Pipe_Write_Vfs_Ops VFS_O_WRONLY"
    have P: "\<not> ?P ?pr" "\<not> ?P ?pw" "?P (node_pool ?s ! r)" "?P (node_pool ?s ! w)"
      using f inv_nodeD(1) [OF i0(1)] by (auto simp: pipe_node_def)
    have len: "length (node_pool ?s) = MAX_VFS_NODES" using inv_length [OF i0(1)] .
    have "length (filter ?P ((node_pool ?s)[r := ?pr])) + 1 = length (filter ?P (node_pool ?s))"
      using length_filter_update [of r "node_pool ?s" ?P ?pr] P(1,3) len f by (simp only: if_True if_False) simp
    moreover have "length (filter ?P ((node_pool ?s)[r := ?pr, w := ?pw])) + 1 = length (filter ?P ((node_pool ?s)[r := ?pr]))"
      using length_filter_update [of w "(node_pool ?s)[r := ?pr]" ?P ?pw] P(2,4) len f by (auto split: if_splits)
    ultimately show ?thesis using fr by (simp add: free_nodes_def nd(2))
  qed
  moreover have "free_nodes (?v\<lparr>pipe_in_use := (pipe_in_use ?v)[idx := False]\<rparr>) = free_nodes ?v" by (simp add: free_nodes_def)
  ultimately show ?thesis using sv by (simp add: same_tables_def)
qed

text \<open>A kernel whose 32 descriptors all refer to one console node.\<close>

definition full_vfs :: "unit vfs" where
  "full_vfs = blank_vfs\<lparr>node_pool := (node_pool blank_vfs)[5 := blank_node\<lparr>n_ref_count := 32, n_ops := Some Console_Vfs_Ops\<rparr>],
     kernel_fd_table := \<lparr>fds = replicate 32 (Some 5), fd_count = 32\<rparr>\<rparr>"

lemma full_vfs_inv: "vfs_inv full_vfs" "cur_valid full_vfs"
proof -
  have "refs full_vfs i = (if i = 5 then 32 else 0)" for i
    by (simp add: refs_def all_tables_def full_vfs_def blank_vfs_def count_list_replicate)
  then show "vfs_inv full_vfs"
    by (intro vfs_invI) (auto simp: full_vfs_def blank_vfs_def blank_node_def all_tables_def table_ok_def
        count_list_replicate nth_list_update split: if_splits)
  show "cur_valid full_vfs"
    by (simp add: get_current_fd_table_def process_current_def full_vfs_def blank_vfs_def scheduler_init_def valid_table_def)
qed

theorem vfs_pipe_loses_nodes_witness:
  "\<forall>E. \<exists>fdp s'. vfs_pipe_create E full_vfs = Some (-1, fdp, s') \<and> free_nodes s' + 2 = free_nodes full_vfs"
proof
  fix E
  let ?P = "\<lambda>n. n_ref_count n = 0 \<and> n_ops n = None"
  have "?P blank_node" by (simp add: blank_node_def)
  then have "length (filter ?P (replicate 128 blank_node)) = 128" by (simp add: filter_replicate)
  then have "2 \<le> free_nodes full_vfs"
    using length_filter_update [of 5 "replicate 128 blank_node" ?P "blank_node\<lparr>n_ref_count := 32, n_ops := Some Console_Vfs_Ops\<rparr>"]
    by (simp add: free_nodes_def full_vfs_def blank_vfs_def split: if_splits)
  moreover have "get_current_fd_table full_vfs = Kernel_Table"
    by (simp add: get_current_fd_table_def process_current_def full_vfs_def blank_vfs_def scheduler_init_def)
  then have "None \<notin> set (fds (get_table (get_current_fd_table full_vfs) full_vfs))"
    by (simp add: get_table_def full_vfs_def)
  moreover have "pipe_alloc_index full_vfs = Some 0"
    by (simp add: pipe_alloc_index_def full_vfs_def blank_vfs_def first_index_Some_iff)
  ultimately show "\<exists>fdp s'. vfs_pipe_create E full_vfs = Some (-1, fdp, s') \<and> free_nodes s' + 2 = free_nodes full_vfs"
    using vfs_pipe_loses_nodes [OF full_vfs_inv, of 0 E] by blast
qed

section \<open>Reading always returns\<close>

lemma gen_heap_returns:
  assumes "heap_inv h a bs"
  shows "\<exists>w. gen_heap h mx buf = Some w"
proof -
  have h: "chain (kh_mem h) a bs" "bs \<noteq> []" "0 < a" "a + extent bs < 2 ^ 64" "heap_first h = of_nat a"
    using assms by (simp_all add: heap_inv_def)
  obtain v where "kheap_validate h = Some v"
    using walk_blocks_ok [OF h(1-4), of 0 0 0] h(5) by (auto simp: kheap_validate_def walk_blocks_def)
  moreover obtain st where "kheap_get_stats (Some \<lparr>total_size = 0, used_size = 0, free_blocks = 0, largest_free = 0,
              block_count = 0, allocated_blocks = 0\<rparr>) h = Some (Some st)"
    using stats_walk_ok [OF h(1-4)] h(5) by (fastforce simp: kheap_get_stats_def)
  ultimately show ?thesis by (simp add: gen_heap_def Let_def)
qed

definition returns :: "'x reader \<Rightarrow> bool" where
  "returns rd \<longleftrightarrow> (\<forall>fd sz s a bs. heap_inv (rf_heap (k_ram s)) a bs \<longrightarrow> rd fd sz s \<noteq> None)"

lemma vfile_read_returns:
  assumes h: "heap_inv (rf_heap (k_ram s)) a bs" and rd: "\<And>f. rd = Some f \<Longrightarrow> returns f"
  shows "vfile_read E rd path mx s \<noteq> None"
proof -
  have "run_read_fn E f mx b s \<noteq> None" for f b
    using gen_heap_returns [OF h, of mx b] by (cases f) (auto split: prod.splits)
  moreover have "gen_self_fd_path rd path mx s \<noteq> None"
  proof (cases rd)
    case (Some f)
    have nn: "f fd mx s \<noteq> None" for fd using rd [OF Some] h unfolding returns_def by blast
    have "\<exists>x. Option.bind (f fd mx s) (\<lambda>(r, bs, s). Some (r, s\<lparr>vfile_scratch := put_scratch bs (vfile_scratch s)\<rparr>)) = Some x" for fd
      using nn [of fd] by (cases "f fd mx s") auto
    then show ?thesis using Some by (simp add: gen_self_fd_path_def split: option.split)
  qed (simp add: gen_self_fd_path_def split: option.split)
  ultimately show ?thesis by (auto simp: vfile_read_def split: option.splits)
qed

lemma vfs_read_node_returns:
  fixes E :: "'x env"
  assumes rd: "\<And>f. rd = Some f \<Longrightarrow> returns f"
  shows "returns (vfs_read_node E rd)"
  unfolding returns_def
proof (intro allI impI)
  fix fd sz a bs and s :: "'x vfs"
  assume h: "heap_inv (rf_heap (k_ram s)) a bs"
  have "f i sz off s \<noteq> None" if "ops_read E rd ops = Some f" for ops f i off
  proof (cases ops)
    case Vfile_Vfs_Ops
    then show ?thesis
      using that vfile_read_returns [where E = E and rd = rd and path = "vfile_open_paths s ! nat i" and mx = VFILE_MAX_CONTENT, OF h rd] by (auto simp: vfile_vfs_read_def Let_def split: bind_splits)
  qed (use that in \<open>auto simp: adapter_defs Let_def split: prod.splits\<close>)
  then show "vfs_read_node E rd fd sz s \<noteq> None"
    by (fastforce simp: vfs_read_node_def Let_def bind_eq_Some_conv split: option.splits bind_splits)
qed

text \<open>
  C26. Every read returns. As long as the kernel heap is intact, \<^verbatim>\<open>vfs_read\<close> ends on every descriptor,
  also when it is open on \<^verbatim>\<open>/0/system/heap\<close>, whose contents walk over all blocks, or on a chain of
  \<^verbatim>\<open>/0/system/self/fd\<close> entries.
\<close>

theorem vfs_read_returns:
  assumes "heap_inv (rf_heap (k_ram s)) a bs"
  shows "\<exists>r data s'. vfs_read E fd sz s = Some (r, data, s')"
proof -
  have "returns (vfs_read_depth E k)" for k by (induction k) (auto intro!: vfs_read_node_returns)
  then have "vfs_read E fd sz s \<noteq> None" using assms unfolding returns_def vfs_read_def by blast
  then show ?thesis by auto
qed

theorem vfs_read_returns_witness: "\<forall>E. \<exists>r data s'. vfs_read E 0 64 (vfs_init blank_vfs) = Some (r, data, s')"
proof
  fix E
  have "k_ram (install_std_from ks t s) = k_ram s" for ks t and s :: "unit vfs"
    by (induction ks t s rule: install_std_from.induct)
      (auto simp: alloc_node_def set_table_def Let_def split: option.splits prod.splits table_ref.splits)
  then have "k_ram (vfs_init blank_vfs) = k_ram blank_vfs"
    by (simp add: vfs_init_def fd_table_install_std_def vfs_mount_fs_def Let_def del: install_std_from.simps split: option.splits)
  then have "rf_heap (k_ram (vfs_init blank_vfs)) = sample_heap"
    by (simp add: blank_vfs_def ramfs_init_def blank_ramfs_def Let_def)
  then show "\<exists>r data s'. vfs_read E 0 64 (vfs_init blank_vfs) = Some (r, data, s')"
    using vfs_read_returns [of "vfs_init blank_vfs"] sample_heap_inv by metis
qed

end
