(* ===== verification/Disk.thy ===== *)
theory Disk
  imports Kheap
begin

text \<open>
  The disk below the file systems: the ATA driver \<^verbatim>\<open>src/drivers/disk.c\<close>, the partition table
  \<^verbatim>\<open>src/drivers/partition_table.c\<close>, the partition manager \<^verbatim>\<open>src/drivers/part.c\<close> and the binding of
  the mounted volume \<^verbatim>\<open>src/fs/volume.c\<close>.

  The controller is a parameter, a record of the four port instructions over its own state \<open>'d\<close>.
  The sector buffer of the table lives in the modelled kernel heap and is reached through its
  address; a buffer of the caller is the list of its bytes.
\<close>

section \<open>Port I/O\<close>

record 'd ports =
  in_b :: "u16 \<Rightarrow> 'd \<Rightarrow> u8 \<times> 'd"
  in_w :: "u16 \<Rightarrow> 'd \<Rightarrow> u16 \<times> 'd"
  out_b :: "u16 \<Rightarrow> u8 \<Rightarrow> 'd \<Rightarrow> 'd"
  out_w :: "u16 \<Rightarrow> u16 \<Rightarrow> 'd \<Rightarrow> 'd"

definition io_wait :: "'d ports \<Rightarrow> 'd \<Rightarrow> 'd" where
  "io_wait P d = out_b P 0x80 0 d"

abbreviation (input) ATA_DATA :: u16 where "ATA_DATA \<equiv> 0x1F0"
abbreviation (input) ATA_COUNT :: u16 where "ATA_COUNT \<equiv> 0x1F2"
abbreviation (input) ATA_LBA_LOW :: u16 where "ATA_LBA_LOW \<equiv> 0x1F3"
abbreviation (input) ATA_LBA_MID :: u16 where "ATA_LBA_MID \<equiv> 0x1F4"
abbreviation (input) ATA_LBA_HIGH :: u16 where "ATA_LBA_HIGH \<equiv> 0x1F5"
abbreviation (input) ATA_DRIVE :: u16 where "ATA_DRIVE \<equiv> 0x1F6"
abbreviation (input) ATA_STATUS :: u16 where "ATA_STATUS \<equiv> 0x1F7"
abbreviation (input) ATA_COMMAND :: u16 where "ATA_COMMAND \<equiv> 0x1F7"
abbreviation (input) ATA_CONTROL :: u16 where "ATA_CONTROL \<equiv> 0x3F6"
abbreviation (input) ATA_DRIVE_MASTER :: u8 where "ATA_DRIVE_MASTER \<equiv> 0xE0"
abbreviation (input) ATA_STATUS_ERR :: u8 where "ATA_STATUS_ERR \<equiv> 0x01"
abbreviation (input) ATA_STATUS_DRQ :: u8 where "ATA_STATUS_DRQ \<equiv> 0x08"
abbreviation (input) ATA_STATUS_DF :: u8 where "ATA_STATUS_DF \<equiv> 0x20"
abbreviation (input) ATA_STATUS_BSY :: u8 where "ATA_STATUS_BSY \<equiv> 0x80"
abbreviation (input) ATA_CMD_READ :: u8 where "ATA_CMD_READ \<equiv> 0x20"
abbreviation (input) ATA_CMD_WRITE :: u8 where "ATA_CMD_WRITE \<equiv> 0x30"
abbreviation (input) ATA_CMD_IDENTIFY :: u8 where "ATA_CMD_IDENTIFY \<equiv> 0xEC"

section \<open>The ATA driver\<close>

record disk_info =
  lba_sectors :: u32
  lba48_sectors :: u64
  di_model :: "u8 list"
  di_serial :: "u8 list"

record 'd disk =
  dk_dev :: 'd
  dk_info :: disk_info
  disk_initialized :: bool
  disk_is_ssd_cached :: bool
  dk_heap :: kheap
  gpt_header :: u64
  gpt_entries :: u64
  partition_count :: u32
  allocated_entries :: u32
  part_ready :: bool
  vol_base :: u64
  vol_sectors :: u64

text \<open>The polling loops give up after 100000 turns; the flag is false for -1.\<close>

fun wait_status :: "'d ports \<Rightarrow> (u8 \<Rightarrow> bool) \<Rightarrow> nat \<Rightarrow> 'd \<Rightarrow> bool \<times> 'd" where
  "wait_status P ok 0 d = (False, d)"
| "wait_status P ok (Suc n) d =
     (let (status, d) = in_b P ATA_STATUS d in if ok status then (True, d) else wait_status P ok n d)"

definition wait_ready :: "'d ports \<Rightarrow> 'd \<Rightarrow> bool \<times> 'd" where
  "wait_ready P d = wait_status P (\<lambda>status. status AND ATA_STATUS_BSY = 0) 100000 d"

definition wait_data :: "'d ports \<Rightarrow> 'd \<Rightarrow> bool \<times> 'd" where
  "wait_data P d =
     wait_status P (\<lambda>status. status AND ATA_STATUS_BSY = 0 \<and> status AND ATA_STATUS_DRQ \<noteq> 0) 100000 d"

definition ata_reset :: "'d ports \<Rightarrow> 'd \<Rightarrow> 'd" where
  "ata_reset P d =
     (let d = io_wait P (out_b P ATA_CONTROL 0x04 d);
          d = io_wait P (out_b P ATA_CONTROL 0x00 d)
      in snd (wait_ready P d))"

fun read_words :: "'d ports \<Rightarrow> nat \<Rightarrow> 'd \<Rightarrow> u16 list \<times> 'd" where
  "read_words P 0 d = ([], d)"
| "read_words P (Suc n) d =
     (let (w, d) = in_w P ATA_DATA d; (ws, d) = read_words P n d in (w # ws, d))"

definition read_data :: "'d ports \<Rightarrow> 'd \<Rightarrow> u16 list \<times> 'd" where
  "read_data P d = read_words P 256 d"

definition write_data :: "'d ports \<Rightarrow> u16 list \<Rightarrow> 'd \<Rightarrow> 'd" where
  "write_data P ws d = fold (out_w P ATA_DATA) ws d"

text \<open>The poll of \<^verbatim>\<open>disk_init\<close> for an answer to IDENTIFY: \<open>None\<close> when there is no drive or it stays busy.\<close>

fun poll_identify :: "'d ports \<Rightarrow> nat \<Rightarrow> 'd \<Rightarrow> u8 option \<times> 'd" where
  "poll_identify P 0 d = (None, d)"
| "poll_identify P (Suc n) d =
     (let (status, d) = in_b P ATA_STATUS d
      in if status = 0x00 then (None, d)
         else if status AND ATA_STATUS_BSY = 0 then (Some status, d)
         else poll_identify P n d)"

definition swapped_bytes :: "u16 list \<Rightarrow> u8 list" where
  "swapped_bytes ws = concat (map (\<lambda>w. [ucast (drop_bit 8 w), ucast (w AND 0xFF)]) ws) @ [0]"

definition disk_init :: "'d ports \<Rightarrow> 'd disk \<Rightarrow> int \<times> 'd disk" where
  "disk_init P s =
     (let d = ata_reset P (dk_dev s);
          d = io_wait P (out_b P ATA_DRIVE ATA_DRIVE_MASTER d);
          d = io_wait P (out_b P ATA_COMMAND ATA_CMD_IDENTIFY d);
          (answer, d) = poll_identify P 100000 d
      in case answer of
           None \<Rightarrow> (-1, s\<lparr>dk_dev := d\<rparr>)
         | Some status \<Rightarrow>
             if status AND (ATA_STATUS_ERR OR ATA_STATUS_DF) \<noteq> 0 then (-1, s\<lparr>dk_dev := d\<rparr>)
             else
               (let (identify, d) = read_data P d
                in (0, s\<lparr>dk_dev := d,
                         dk_info := \<lparr>lba_sectors = push_bit 16 (ucast (identify ! 61)) OR ucast (identify ! 60),
                           lba48_sectors = push_bit 48 (ucast (identify ! 103)) OR push_bit 32 (ucast (identify ! 102)) OR
                             push_bit 16 (ucast (identify ! 101)) OR ucast (identify ! 100),
                           di_model = swapped_bytes (take 20 (drop 27 identify)),
                           di_serial = swapped_bytes (take 10 (drop 10 identify))\<rparr>,
                         disk_is_ssd_cached := identify ! 217 = 0x0001, disk_initialized := True\<rparr>)))"

definition ata_setup :: "'d ports \<Rightarrow> u32 \<Rightarrow> u32 \<Rightarrow> u8 \<Rightarrow> 'd \<Rightarrow> 'd" where
  "ata_setup P lba count cmd d =
     (let d = out_b P ATA_DRIVE (ATA_DRIVE_MASTER OR ucast (drop_bit 24 lba AND 0x0F)) d;
          d = out_b P ATA_COUNT (if count = 256 then 0 else ucast count) d;
          d = out_b P ATA_LBA_LOW (ucast (lba AND 0xFF)) d;
          d = out_b P ATA_LBA_MID (ucast (drop_bit 8 lba AND 0xFF)) d;
          d = out_b P ATA_LBA_HIGH (ucast (drop_bit 16 lba AND 0xFF)) d
      in out_b P ATA_COMMAND cmd d)"

definition words_bytes :: "u16 list \<Rightarrow> u8 list" where
  "words_bytes ws = concat (map (le_split 2) ws)"

text \<open>The sectors read until one times out, as the bytes that were stored.\<close>

fun read_sectors :: "'d ports \<Rightarrow> nat \<Rightarrow> 'd \<Rightarrow> bool \<times> u8 list \<times> 'd" where
  "read_sectors P 0 d = (True, [], d)"
| "read_sectors P (Suc n) d =
     (let (ok, d) = wait_data P d
      in if \<not> ok then (False, [], d)
         else
           (let (ws, d) = read_data P d;
                (ok, bs, d) = read_sectors P n d
            in (ok, words_bytes ws @ bs, d)))"

definition disk_read :: "'d ports \<Rightarrow> u32 \<Rightarrow> u32 \<Rightarrow> 'd disk \<Rightarrow> int \<times> u8 list \<times> 'd disk" where
  "disk_read P lba count s =
     (if count = 0 \<or> count > 256 then (-1, [], s)
      else if lba > 0x0FFFFFFF then (-1, [], s)
      else
        (let (ok, d) = wait_ready P (dk_dev s)
         in if \<not> ok then (-1, [], s\<lparr>dk_dev := d\<rparr>)
            else
              (let (ok, bs, d) = read_sectors P (unat count) (ata_setup P lba count ATA_CMD_READ d)
               in (if ok then 0 else -1, bs, s\<lparr>dk_dev := d\<rparr>))))"

fun bytes_words :: "u8 list \<Rightarrow> u16 list" where
  "bytes_words (a # b # bs) = le_join [a, b] # bytes_words bs"
| "bytes_words bs = []"

fun write_sectors :: "'d ports \<Rightarrow> nat \<Rightarrow> u8 list \<Rightarrow> 'd \<Rightarrow> bool \<times> 'd" where
  "write_sectors P 0 buf d = (True, d)"
| "write_sectors P (Suc n) buf d =
     (let (ok, d) = wait_ready P d
      in if \<not> ok then (False, d)
         else write_sectors P n (drop 512 buf) (write_data P (bytes_words (take 512 buf)) d))"

definition disk_write :: "'d ports \<Rightarrow> u32 \<Rightarrow> u32 \<Rightarrow> u8 list \<Rightarrow> 'd disk \<Rightarrow> int \<times> 'd disk" where
  "disk_write P lba count buf s =
     (if count = 0 \<or> count > 256 then (-1, s)
      else if lba > 0x0FFFFFFF then (-1, s)
      else
        (let (ok, d) = wait_ready P (dk_dev s)
         in if \<not> ok then (-1, s\<lparr>dk_dev := d\<rparr>)
            else
              (let (ok, d) = write_sectors P (unat count) buf (ata_setup P lba count ATA_CMD_WRITE d)
               in (if ok then 0 else -1, s\<lparr>dk_dev := d\<rparr>))))"

text \<open>The product of the 28-bit count is a 32-bit one.\<close>

definition disk_get_size :: "'d disk \<Rightarrow> u64" where
  "disk_get_size s =
     (if lba48_sectors (dk_info s) \<noteq> 0 then lba48_sectors (dk_info s) * 512
      else ucast (lba_sectors (dk_info s) * 512))"

definition disk_is_ready :: "'d disk \<Rightarrow> bool" where
  "disk_is_ready s = disk_initialized s"

definition disk_is_ssd :: "'d disk \<Rightarrow> int" where
  "disk_is_ssd s = (if \<not> disk_initialized s then -1 else if disk_is_ssd_cached s then 1 else 0)"

section \<open>The partition table\<close>

abbreviation (input) GPT_MAX_PARTITIONS :: u32 where "GPT_MAX_PARTITIONS \<equiv> 128"

definition GPT_TYPE_UNUSED :: "u8 list" where
  "GPT_TYPE_UNUSED = replicate 16 0"

definition GPT_TYPE_EFI_SYSTEM :: "u8 list" where
  "GPT_TYPE_EFI_SYSTEM = [0xC1, 0x2A, 0x73, 0x28, 0x81, 0x1C, 0x10, 0x46, 0xB0, 0x86, 0x4B, 0x54, 0x79, 0x98, 0x4D, 0x83]"

definition GPT_TYPE_LINUX_FS :: "u8 list" where
  "GPT_TYPE_LINUX_FS = [0xAF, 0x3D, 0xC6, 0x0F, 0x83, 0x84, 0x72, 0x47, 0x8E, 0x79, 0x3D, 0x69, 0xD8, 0x47, 0x7D, 0xE4]"

definition GPT_TYPE_LINUX_SWAP :: "u8 list" where
  "GPT_TYPE_LINUX_SWAP = [0x61, 0x57, 0xC6, 0x06, 0x81, 0x1C, 0x10, 0x46, 0xB0, 0x86, 0x4B, 0x54, 0x79, 0x98, 0x4D, 0x83]"

definition GPT_TYPE_FAT32 :: "u8 list" where
  "GPT_TYPE_FAT32 = [0xE3, 0xAF, 0x2E, 0xEB, 0x5D, 0xF3, 0x46, 0x47, 0x9D, 0x14, 0xA5, 0x43, 0x51, 0x5C, 0xC8, 0xB0]"

definition gpt_signature_valid :: "mem \<Rightarrow> u64 \<Rightarrow> bool" where
  "gpt_signature_valid m sig \<longleftrightarrow>
     m sig = 0x45 \<and> m (sig + 1) = 0x46 \<and> m (sig + 2) = 0x49 \<and> m (sig + 3) = 0x20 \<and>
     m (sig + 4) = 0x50 \<and> m (sig + 5) = 0x41 \<and> m (sig + 6) = 0x52 \<and> m (sig + 7) = 0x54"

text \<open>Fields of the header and of an entry, by their offsets in the packed structures.\<close>

definition hdr_entry_array_lba :: "mem \<Rightarrow> u64 \<Rightarrow> u64" where "hdr_entry_array_lba m h = rd64 m (h + 72)"
definition hdr_entry_count :: "mem \<Rightarrow> u64 \<Rightarrow> u32" where "hdr_entry_count m h = rd32 m (h + 80)"
definition hdr_entry_size :: "mem \<Rightarrow> u64 \<Rightarrow> u32" where "hdr_entry_size m h = rd32 m (h + 84)"

definition ent_type_guid :: "mem \<Rightarrow> u64 \<Rightarrow> u8 list" where "ent_type_guid m e = rd_bytes m e 16"
definition ent_start_lba :: "mem \<Rightarrow> u64 \<Rightarrow> u64" where "ent_start_lba m e = rd64 m (e + 32)"
definition ent_end_lba :: "mem \<Rightarrow> u64 \<Rightarrow> u64" where "ent_end_lba m e = rd64 m (e + 40)"
definition ent_name :: "mem \<Rightarrow> u64 \<Rightarrow> nat \<Rightarrow> u16" where "ent_name m e i = rd16 m (e + 56 + 2 * of_nat i)"

text \<open>A read from the disk into memory at an address.\<close>

definition disk_read_at :: "'d ports \<Rightarrow> u32 \<Rightarrow> u32 \<Rightarrow> u64 \<Rightarrow> 'd disk \<Rightarrow> int \<times> 'd disk" where
  "disk_read_at P lba count addr s =
     (let (r, bs, s) = disk_read P lba count s
      in (r, s\<lparr>dk_heap := (dk_heap s)\<lparr>kh_mem := wr_bytes (kh_mem (dk_heap s)) addr bs\<rparr>\<rparr>))"

text \<open>The array of entries, allocated anew when it is too small for \<^verbatim>\<open>partition_count\<close>; false when that fails.\<close>

definition gpt_alloc_entries :: "u64 \<Rightarrow> 'd disk \<Rightarrow> (bool \<times> 'd disk) option" where
  "gpt_alloc_entries entry_array_size s =
     (if gpt_entries s = 0 \<or> allocated_entries s < partition_count s then
        Option.bind (if gpt_entries s \<noteq> 0 then kfree (gpt_entries s) (dk_heap s) else Some (dk_heap s)) (\<lambda>h.
        Option.bind (kmalloc entry_array_size h) (\<lambda>(p, h).
          if p = 0
          then Some (False, s\<lparr>dk_heap := h, gpt_entries := 0, partition_count := 0, allocated_entries := 0\<rparr>)
          else Some (True, s\<lparr>dk_heap := h, gpt_entries := p, allocated_entries := partition_count s\<rparr>)))
      else Some (True, s))"

definition gpt_read_entries :: "'d ports \<Rightarrow> 'd disk \<Rightarrow> (int \<times> 'd disk) option" where
  "gpt_read_entries P s =
     (let m = kh_mem (dk_heap s); h = gpt_header s
      in if hdr_entry_size m h \<noteq> 128 then Some (-1, s)
         else if hdr_entry_count m h = 0 \<or> hdr_entry_count m h > GPT_MAX_PARTITIONS then Some (-1, s)
         else if hdr_entry_array_lba m h = 0 \<or> hdr_entry_array_lba m h > 0xFFFFFF then Some (-1, s)
         else
           (let s = s\<lparr>partition_count := hdr_entry_count m h\<rparr>;
                entry_array_size = ucast (partition_count s) * ucast (hdr_entry_size m h) :: u64;
                entry_sectors = ucast ((entry_array_size + 512 - 1) div 512) :: u32
            in Option.bind (gpt_alloc_entries entry_array_size s) (\<lambda>(ok, s).
                 if \<not> ok then Some (-1, s)
                 else
                   (let entry_lba = hdr_entry_array_lba (kh_mem (dk_heap s)) (gpt_header s);
                        (r, s) = disk_read_at P (ucast entry_lba) entry_sectors (gpt_entries s) s
                    in Some (if r < 0 then -1 else 0, s)))))"

definition gpt_read_header :: "'d ports \<Rightarrow> 'd disk \<Rightarrow> (int \<times> 'd disk) option" where
  "gpt_read_header P s =
     Option.bind (if gpt_header s = 0
                  then map_option (\<lambda>(p, h). s\<lparr>gpt_header := p, dk_heap := h\<rparr>) (kmalloc 512 (dk_heap s))
                  else Some s) (\<lambda>s.
       if gpt_header s = 0 then Some (-1, s)
       else
         (let (r, s) = disk_read_at P 1 1 (gpt_header s) s
          in if r < 0 then Some (-1, s)
             else if \<not> gpt_signature_valid (kh_mem (dk_heap s)) (gpt_header s) then Some (-1, s)
             else gpt_read_entries P s))"

text \<open>The address of a used entry.\<close>

definition gpt_get_partition :: "u32 \<Rightarrow> 'd disk \<Rightarrow> u64 option" where
  "gpt_get_partition index s =
     (if index \<ge> partition_count s then None
      else
        (let entry = gpt_entries s + 128 * ucast index
         in if ent_type_guid (kh_mem (dk_heap s)) entry = GPT_TYPE_UNUSED then None else Some entry))"

definition gpt_find_by_type :: "u8 list \<Rightarrow> 'd disk \<Rightarrow> int" where
  "gpt_find_by_type type_guid s =
     (case List.find (\<lambda>i. ent_type_guid (kh_mem (dk_heap s)) (gpt_entries s + 128 * of_nat i) = type_guid)
             [0..<unat (partition_count s)] of
        Some i \<Rightarrow> int i
      | None \<Rightarrow> -1)"

definition gpt_get_partition_size :: "u32 \<Rightarrow> 'd disk \<Rightarrow> u64" where
  "gpt_get_partition_size index s =
     (case gpt_get_partition index s of
        None \<Rightarrow> 0
      | Some e \<Rightarrow> (ent_end_lba (kh_mem (dk_heap s)) e - ent_start_lba (kh_mem (dk_heap s)) e + 1) * 512)"

text \<open>Sizes and sector counts are 32-bit numbers.\<close>

definition gpt_read_partition ::
  "'d ports \<Rightarrow> u32 \<Rightarrow> u64 \<Rightarrow> u32 \<Rightarrow> 'd disk \<Rightarrow> (int \<times> u8 list \<times> 'd disk) option" where
  "gpt_read_partition P index offset sz s =
     (case gpt_get_partition index s of
        None \<Rightarrow> Some (-1, [], s)
      | Some e \<Rightarrow>
          (let start_lba = ent_start_lba (kh_mem (dk_heap s)) e + offset div 512;
               offset_in_sector = ucast (offset mod 512) :: u32;
               sectors = (sz + offset_in_sector + 512 - 1) div 512
           in Option.bind (kmalloc (ucast (sectors * 512)) (dk_heap s)) (\<lambda>(temp, h).
                let s = s\<lparr>dk_heap := h\<rparr>
                in if temp = 0 then Some (-1, [], s)
                   else
                     (let (r, s) = disk_read_at P (ucast start_lba) sectors temp s;
                          data = map (\<lambda>i. kh_mem (dk_heap s) (temp + ucast (offset_in_sector + of_nat i))) [0..<unat sz]
                      in Option.bind (kfree temp (dk_heap s)) (\<lambda>h.
                           Some (if r < 0 then -1 else 0, if r < 0 then [] else data, s\<lparr>dk_heap := h\<rparr>))))))"

section \<open>The partition manager\<close>

datatype partition_type =
  PARTITION_TYPE_UNUSED | PARTITION_TYPE_EFI_SYSTEM | PARTITION_TYPE_BIOS_BOOT | PARTITION_TYPE_FS_DATA |
  PARTITION_TYPE_LINUX_SWAP | PARTITION_TYPE_LINUX_DATA

record part_info =
  pi_number :: int
  pi_type :: partition_type
  pi_start_lba :: u64
  pi_size_sectors :: u64
  pi_filesystem_type :: u32
  pi_label :: string

definition part_storage_device :: "'d disk \<Rightarrow> string option" where
  "part_storage_device s =
     (if \<not> part_ready s \<or> \<not> disk_is_ready s then None
      else Some (if disk_is_ssd s = 1 then ''ssd'' else ''hdd''))"

definition part_init :: "'d ports \<Rightarrow> 'd disk \<Rightarrow> 'd disk option" where
  "part_init P s =
     (let s = s\<lparr>part_ready := False\<rparr>;
          (r, s) = (if disk_is_ready s then (0, s) else disk_init P s)
      in if r < 0 then Some s
         else Option.bind (gpt_read_header P s) (\<lambda>(r, s).
                Some (if r < 0 then s else s\<lparr>part_ready := True\<rparr>)))"

definition part_classify_type :: "u8 list \<Rightarrow> partition_type" where
  "part_classify_type guid =
     (if guid = GPT_TYPE_EFI_SYSTEM then PARTITION_TYPE_EFI_SYSTEM
      else if guid = GPT_TYPE_LINUX_SWAP then PARTITION_TYPE_LINUX_SWAP
      else if guid = GPT_TYPE_LINUX_FS then PARTITION_TYPE_LINUX_DATA
      else if guid = GPT_TYPE_FAT32 then PARTITION_TYPE_FS_DATA
      else PARTITION_TYPE_FS_DATA)"

text \<open>The label of an entry, up to 36 characters.\<close>

fun part_label :: "mem \<Rightarrow> u64 \<Rightarrow> nat \<Rightarrow> nat \<Rightarrow> string" where
  "part_label m e i 0 = []"
| "part_label m e i (Suc n) =
     (let c = ent_name m e i
      in if c = 0 then [] else (if c < 128 then char_of (unat c) else CHR ''?'') # part_label m e (Suc i) n)"

definition part_get_info :: "int \<Rightarrow> 'd disk \<Rightarrow> part_info option" where
  "part_get_info num s =
     (if \<not> part_ready s \<or> num < 0 then None
      else case gpt_get_partition (of_int num) s of
        None \<Rightarrow> None
      | Some e \<Rightarrow>
          (let m = kh_mem (dk_heap s)
           in if ent_end_lba m e < ent_start_lba m e then None
              else Some \<lparr>pi_number = num, pi_type = part_classify_type (ent_type_guid m e),
                         pi_start_lba = ent_start_lba m e, pi_size_sectors = ent_end_lba m e - ent_start_lba m e + 1,
                         pi_filesystem_type = 0, pi_label = part_label m e 0 36\<rparr>))"

text \<open>The dense list of used entries, at most \<open>max_count\<close>; \<open>None\<close> for -1.\<close>

definition part_list_partitions :: "int \<Rightarrow> 'd disk \<Rightarrow> part_info list option" where
  "part_list_partitions max_count s =
     (if \<not> part_ready s \<or> max_count \<le> 0 then None
      else Some (take (nat max_count)
             (List.map_filter (\<lambda>i. part_get_info (int i) s) [0..<unat (partition_count s)])))"

definition part_translate :: "int \<Rightarrow> u64 \<Rightarrow> u64 \<Rightarrow> 'd disk \<Rightarrow> u32 option" where
  "part_translate num start_lba sectors s =
     (if \<not> part_ready s \<or> sectors = 0 \<or> sectors > 256 then None
      else case gpt_get_partition (of_int num) s of
        None \<Rightarrow> None
      | Some e \<Rightarrow>
          (let m = kh_mem (dk_heap s);
               first = ent_start_lba m e;
               part_sectors = ent_end_lba m e - first + 1;
               abs_lba = first + start_lba
           in if ent_end_lba m e < first then None
              else if start_lba \<ge> part_sectors then None
              else if sectors > part_sectors - start_lba then None
              else if abs_lba > 0x0FFFFFFF then None
              else Some (ucast abs_lba)))"

definition part_read_sectors :: "'d ports \<Rightarrow> int \<Rightarrow> u64 \<Rightarrow> u64 \<Rightarrow> 'd disk \<Rightarrow> int \<times> u8 list \<times> 'd disk" where
  "part_read_sectors P num start_lba sectors s =
     (case part_translate num start_lba sectors s of
        None \<Rightarrow> (-1, [], s)
      | Some abs_lba \<Rightarrow> disk_read P abs_lba (ucast sectors) s)"

definition part_write_sectors :: "'d ports \<Rightarrow> int \<Rightarrow> u64 \<Rightarrow> u8 list \<Rightarrow> u64 \<Rightarrow> 'd disk \<Rightarrow> int \<times> 'd disk" where
  "part_write_sectors P num start_lba buf sectors s =
     (case part_translate num start_lba sectors s of
        None \<Rightarrow> (-1, s)
      | Some abs_lba \<Rightarrow> disk_write P abs_lba (ucast sectors) buf s)"

definition part_get_disk_info :: "'d disk \<Rightarrow> disk_info option" where
  "part_get_disk_info s = (if \<not> disk_is_ready s then None else Some (dk_info s))"

section \<open>The mounted volume\<close>

definition volume_use_partition :: "int \<Rightarrow> 'd disk \<Rightarrow> int \<times> 'd disk" where
  "volume_use_partition num s =
     (let list = (case part_list_partitions 16 s of Some ps \<Rightarrow> ps | None \<Rightarrow> []);
          count = (case part_list_partitions 16 s of Some ps \<Rightarrow> int (length ps) | None \<Rightarrow> -1)
      in if num < 1 \<or> num > count then (-1, s)
         else (0, s\<lparr>vol_base := pi_start_lba (list ! nat (num - 1)),
                    vol_sectors := pi_size_sectors (list ! nat (num - 1))\<rparr>))"

definition volume_use_whole_disk :: "'d disk \<Rightarrow> 'd disk" where
  "volume_use_whole_disk s = s\<lparr>vol_base := 0, vol_sectors := 0\<rparr>"

definition volume_sectors :: "'d disk \<Rightarrow> u64" where
  "volume_sectors s = vol_sectors s"

definition volume_base_lba :: "'d disk \<Rightarrow> u64" where
  "volume_base_lba s = vol_base s"

section \<open>What a transfer stores\<close>

lemma read_words_length: "read_words P n d = (ws, d') \<Longrightarrow> length ws = n"
  by (induction n arbitrary: d ws d') (auto split: prod.splits)

lemma length_words_bytes [simp]: "length (words_bytes ws) = 2 * length ws"
  by (induction ws) (simp_all add: words_bytes_def)

lemma read_sectors_length:
  "read_sectors P n d = (True, bs, d') \<Longrightarrow> length bs = 512 * n"
proof (induction n arbitrary: d bs d')
  case 0
  then show ?case by simp
next
  case (Suc n)
  then show ?case
    by (auto simp: read_data_def split: prod.splits if_splits dest!: read_words_length)
qed

lemma disk_read_length:
  assumes "disk_read P lba n s = (0, bs, s')"
  shows "length bs = 512 * unat n"
  using assms by (auto simp: disk_read_def split: if_splits prod.splits dest: read_sectors_length)

lemma disk_read_frame:
  assumes "disk_read P lba n s = (r, bs, s')"
  shows "dk_heap s' = dk_heap s" "gpt_entries s' = gpt_entries s" "gpt_header s' = gpt_header s"
    "partition_count s' = partition_count s" "allocated_entries s' = allocated_entries s"
  using assms by (auto simp: disk_read_def split: if_splits prod.splits)

lemma disk_read_result: "disk_read P lba n s = (r, bs, s') \<Longrightarrow> r = 0 \<or> r = -1"
  by (auto simp: disk_read_def split: if_splits prod.splits)

section \<open>Partitions\<close>

lemma part_sectors_nat:
  fixes first last :: u64
  assumes "first \<le> last" and "last - first + 1 \<noteq> 0"
  shows "unat (last - first + 1) = unat last - unat first + 1"
proof -
  have "unat (last - first) = unat last - unat first"
    using assms(1) by (rule unat_sub)
  moreover have "unat (1 + (last - first)) = Suc (unat (last - first))"
    using assms(2) by (intro unatSuc) (simp add: add.commute)
  ultimately show ?thesis by (simp add: add.commute)
qed

lemma unat_ucast_lba28 [simp]: "(w::u64) \<le> 0x0FFFFFFF \<Longrightarrow> unat (ucast w :: u32) = unat w"
  by (simp add: unsigned_ucast_eq word_le_nat_alt take_bit_nat_eq_self)

text \<open>What the range checks of \<^verbatim>\<open>part_translate\<close> amount to, without wrap-around.\<close>

lemma translate_range:
  fixes first last lba n :: u64
  assumes le: "first \<le> last" and n: "n \<noteq> 0"
  shows "(\<not> last - first + 1 \<le> lba \<and> \<not> last - first + 1 - lba < n) \<longleftrightarrow>
    unat last - unat first + 1 < 2 ^ 64 \<and> unat first + unat lba + unat n \<le> unat last + 1"
proof (cases "last - first + 1 = 0")
  case True
  have "unat (last - first) = unat last - unat first" using le by (rule unat_sub)
  moreover have "last - first = -1" using True by (simp add: eq_neg_iff_add_eq_0)
  ultimately have "unat last - unat first + 1 = 2 ^ 64" by (simp add: unsigned_minus_1_eq_mask mask_eq_exp_minus_1)
  then show ?thesis using True by simp
next
  case False
  have len: "unat (last - first + 1) = unat last - unat first + 1" by (rule part_sectors_nat [OF le False])
  have fl: "unat first \<le> unat last" using le by (simp add: word_le_nat_alt)
  have lt: "unat last - unat first + 1 < 2 ^ 64" using unat_less_2p64 [of "last - first + 1"] len by simp
  show ?thesis
  proof (cases "last - first + 1 \<le> lba")
    case True
    have "0 < unat n" using n by (simp add: unat_gt_0)
    then show ?thesis using True len fl by (simp add: word_le_nat_alt) linarith
  next
    case False
    then have "unat (last - first + 1 - lba) = unat last - unat first + 1 - unat lba"
      using len by (subst unat_sub) (auto simp: word_le_nat_alt)
    then show ?thesis using False len fl lt by (auto simp: word_le_nat_alt word_less_nat_alt)
  qed
qed

lemma translate_abs:
  fixes first last lba :: u64
  assumes "unat first + unat lba + unat n \<le> unat last + 1" and "n \<noteq> 0"
  shows "unat (first + lba) = unat first + unat lba"
proof -
  have "0 < unat n" using assms(2) by (simp add: unat_gt_0)
  then have "unat first + unat lba < 18446744073709551616" using assms(1) unat_less_2p64 [of last] by linarith
  then show ?thesis by (intro unat_add_u64) simp
qed

lemma translate_checks:
  fixes first last lba n :: u64 and a :: u32
  assumes n: "n \<noteq> 0"
  shows "first \<le> last \<and> (\<not> last - first + 1 \<le> lba \<and> \<not> last - first + 1 - lba < n) \<and>
      first + lba \<le> 0x0FFFFFFF \<and> ucast (first + lba) = a \<longleftrightarrow>
    first \<le> last \<and> unat last - unat first + 1 < 2 ^ 64 \<and> unat a = unat first + unat lba \<and>
      unat a + unat n \<le> unat last + 1 \<and> unat a < 2 ^ 28" (is "?lhs \<longleftrightarrow> ?rhs")
proof
  assume L: ?lhs
  then have r: "unat first + unat lba + unat n \<le> unat last + 1" "unat last - unat first + 1 < 2 ^ 64"
    using translate_range [OF _ n, of first last lba] by auto
  have "unat a = unat (first + lba)" "unat (first + lba) < 2 ^ 28"
    using L by (auto simp: word_le_nat_alt)
  then show ?rhs using L r translate_abs [OF r(1) n] by simp
next
  assume R: ?rhs
  then have ab: "unat (first + lba) = unat first + unat lba" using translate_abs [of first lba n last] n by simp
  then have le: "first + lba \<le> 0x0FFFFFFF" using R by (simp add: word_le_nat_alt)
  then have "unat (ucast (first + lba) :: u32) = unat a" using R ab by simp
  then have "ucast (first + lba) = a" by (simp add: word_unat_eq_iff)
  then show ?lhs using R le translate_range [OF _ n, of first last lba] by auto
qed


section \<open>Reading the partition table\<close>

text \<open>The number of sectors the entries take.\<close>

lemma gpt_entry_sectors:
  fixes c :: u32
  assumes "c \<le> 128"
  shows "unat (ucast ((511 + ucast c * 128 :: u64) div 512) :: u32) = (unat c + 3) div 4"
proof -
  have c: "unat c \<le> 128" using assms by (simp add: word_le_nat_alt)
  have "unat (511 + ucast c * 128 :: u64) = unat c * 128 + 511"
  proof -
    have "(511 + ucast c * 128 :: u64) = of_nat (unat c * 128 + 511)" by simp
    then show ?thesis using c by (simp only: unat_of_nat) simp
  qed
  then show ?thesis using c by (simp add: unsigned_ucast_eq unat_div take_bit_nat_eq_self)
qed

lemma sectors_cover:
  fixes k :: nat
  shows "128 * k \<le> 512 * ((k + 3) div 4)" "512 * ((k + 3) div 4) = 128 * k \<longleftrightarrow> k mod 4 = 0"
proof -
  have "k \<le> 4 * ((k + 3) div 4)" "4 * ((k + 3) div 4) = k \<longleftrightarrow> k mod 4 = 0" by linarith presburger
  then show "128 * k \<le> 512 * ((k + 3) div 4)" "512 * ((k + 3) div 4) = 128 * k \<longleftrightarrow> k mod 4 = 0"
    by linarith+
qed
lemma disk_read_at_stores:
  assumes "disk_read_at P lba n addr s = (r, s')"
  obtains bs d where "disk_read P lba n s = (r, bs, d)"
    "kh_mem (dk_heap s') = wr_bytes (kh_mem (dk_heap s)) addr bs"
    "gpt_entries s' = gpt_entries s" "partition_count s' = partition_count s" "allocated_entries s' = allocated_entries s"
  using assms disk_read_frame
  by (cases "disk_read P lba n s") (fastforce simp: disk_read_at_def)

text \<open>A drive that always has data, all bytes 0xAB, and a table header in memory that claims one entry.\<close>

definition eager_drive :: "unit ports" where
  "eager_drive = \<lparr>in_b = (\<lambda>_ d. (0x08, d)), in_w = (\<lambda>_ d. (0xABAB, d)), out_b = (\<lambda>_ _ d. d), out_w = (\<lambda>_ _ d. d)\<rparr>"

definition one_entry_heap :: kheap where
  "one_entry_heap = sample_heap
     \<lparr>kh_mem := wr_bytes (kh_mem sample_heap) 0x8048 [2, 0, 0, 0, 0, 0, 0, 0, 1, 0, 0, 0, 128, 0, 0, 0]\<rparr>"

definition one_entry_disk :: "unit disk" where
  "one_entry_disk = \<lparr>dk_dev = (), dk_info = \<lparr>lba_sectors = 0, lba48_sectors = 0, di_model = [], di_serial = []\<rparr>,
     disk_initialized = True, disk_is_ssd_cached = False, dk_heap = one_entry_heap, gpt_header = 0x8000,
     gpt_entries = 0, partition_count = 0, allocated_entries = 0, part_ready = False, vol_base = 0, vol_sectors = 0\<rparr>"

lemma one_entry_kmalloc:
  obtains h' where "kmalloc 128 one_entry_heap = Some (0x10018, h')"
    "\<And>x. unat x < 0x10000 \<Longrightarrow> kh_mem h' x = kh_mem one_entry_heap x"
proof -
  have "heap_inv one_entry_heap 0x10000 [(0xFE8, False)]"
  proof -
    have "chain (kh_mem one_entry_heap) 0x10000 [(0xFE8, False)] = chain (kh_mem sample_heap) 0x10000 [(0xFE8, False)]"
    proof (rule chain_cong)
      fix x :: u64
      assume "0x10000 \<le> unat x"
      then have "\<not> in_range x 0x8048 16" by (subst in_range_nat) simp_all
      then show "kh_mem one_entry_heap x = kh_mem sample_heap x"
        by (auto simp: one_entry_heap_def wr_bytes_def in_range_def)
    qed simp
    then show ?thesis using sample_heap_inv by (simp add: heap_inv_def one_entry_heap_def)
  qed
  note eff = kmalloc_effect [OF this, of 128]
  have fit: "first_fit (round16 (unat (128 :: u64))) [(0xFE8, False)] = Some (0, 0xFE8)"
    and loose: "loose_fit (round16 (unat (128 :: u64))) [(0xFE8, False)]"
    by (simp_all add: loose_fit_def round16_def)
  show thesis
    using eff [OF _ _ loose] fit that by auto
qed

lemma eager_read_words: "read_words eager_drive n d = (replicate n 0xABAB, d)"
  by (induction n) (simp_all add: eager_drive_def)

lemma eager_wait: "0 < n \<Longrightarrow> ok 0x08 \<Longrightarrow> wait_status eager_drive ok n d = (True, d)"
  by (cases n) (simp_all add: eager_drive_def)

lemma eager_wait_data: "wait_data eager_drive d = (True, d)"
  unfolding wait_data_def by (rule eager_wait) simp_all

lemma eager_wait_ready: "wait_ready eager_drive d = (True, d)"
  unfolding wait_ready_def by (rule eager_wait) simp_all

lemma eager_read_sectors: "fst (read_sectors eager_drive n d)"
  by (induction n arbitrary: d) (auto simp: eager_wait_data read_data_def eager_read_words split: prod.splits)

lemma eager_disk_read:
  assumes "0 < n" "n \<le> 256" "lba \<le> 0x0FFFFFFF"
  shows "fst (disk_read eager_drive lba n s) = 0"
  using assms eager_read_sectors [of "unat n"] by (auto simp: disk_read_def eager_wait_ready not_less word_neq_0_conv split: prod.splits)

lemma one_entry_header:
  "hdr_entry_size (kh_mem one_entry_heap) 0x8000 = 128" "hdr_entry_count (kh_mem one_entry_heap) 0x8000 = 1"
  "hdr_entry_array_lba (kh_mem one_entry_heap) 0x8000 = 2"
  by (simp_all add: hdr_entry_size_def hdr_entry_count_def hdr_entry_array_lba_def rd32_def rd64_def
      rd_bytes_def wr_bytes_def one_entry_heap_def upt_rec)



end
