(* ===== verification/Ns.thy ===== *)
theory Ns
  imports Disk Kstring Vfile
begin

text \<open>
  \<^verbatim>\<open>src/fs/ns.c\<close>, the resolver of the unified resource namespace: normalisation and grammar,
  alias expansion, classification, description and translation to file system paths.

  The local buffers of the resolver are only read up to their terminator and are modelled by
  that text. The disk and partition facts come from the state of \<^verbatim>\<open>disk.c\<close>, \<^verbatim>\<open>part.c\<close> and
  \<^verbatim>\<open>volume.c\<close>, the memory figures from that of \<^verbatim>\<open>memory.c\<close>. \<^verbatim>\<open>dput_dec\<close> prints a number from an
  array that it does not terminate; the bytes that follow on the stack are an argument.
\<close>

section \<open>Normalisation and grammar\<close>

abbreviation (input) NS_MAX_PATH :: nat where "NS_MAX_PATH \<equiv> 256"
abbreviation (input) NS_MAX_DEPTH :: nat where "NS_MAX_DEPTH \<equiv> 16"
abbreviation (input) SLASH :: char where "SLASH \<equiv> CHR ''/''"

definition ns_aliases :: "(string \<times> string) list" where
  "ns_aliases =
     [(''0/hmr'', ''0/hardware/memory/ram''),
      (''0/hsh'', ''0/hardware/storage/hdd''),
      (''0/hss'', ''0/hardware/storage/ssd'')]"

definition ns_lower :: "char \<Rightarrow> char" where
  "ns_lower c = (if 65 \<le> chr_code c \<and> chr_code c \<le> 90 then char_of (chr_code c - 65 + 97) else c)"

definition strip_slashes :: "string \<Rightarrow> string" where
  "strip_slashes s = rev (dropWhile (\<lambda>c. c = SLASH) (rev s))"

definition ns_normalize :: "string \<Rightarrow> string option" where
  "ns_normalize path =
     (let s = cstr path
      in if length s > NS_MAX_PATH - 1 then None else Some (strip_slashes (map ns_lower s)))"

definition is_digit :: "char \<Rightarrow> bool" where
  "is_digit c \<longleftrightarrow> 48 \<le> chr_code c \<and> chr_code c \<le> 57"

definition valid_char :: "char \<Rightarrow> bool" where
  "valid_char c \<longleftrightarrow> (97 \<le> chr_code c \<and> chr_code c \<le> 122) \<or> is_digit c \<or>
     c = CHR ''-'' \<or> c = CHR ''_'' \<or> c = CHR ''.''"

text \<open>The loop of \<^verbatim>\<open>ns_parse_valid\<close> from the third character on.\<close>

fun parse_comps :: "string \<Rightarrow> nat \<Rightarrow> nat \<Rightarrow> bool \<Rightarrow> bool" where
  "parse_comps [] depth comp_len nondot \<longleftrightarrow> comp_len \<noteq> 0 \<and> nondot \<and> \<not> depth + 1 > NS_MAX_DEPTH"
| "parse_comps (c # cs) depth comp_len nondot =
     (if c = SLASH then
        if comp_len = 0 then False
        else if \<not> nondot then False
        else if depth + 1 > NS_MAX_DEPTH then False
        else parse_comps cs (depth + 1) 0 False
      else if valid_char c then parse_comps cs depth (comp_len + 1) (nondot \<or> c \<noteq> CHR ''.'')
      else False)"

definition ns_parse_valid :: "string \<Rightarrow> bool" where
  "ns_parse_valid path =
     (case ns_normalize path of
        None \<Rightarrow> False
      | Some norm \<Rightarrow>
          if length norm < 1 then False
          else if \<not> is_digit (norm ! 0) then False
          else if length norm = 1 then True
          else if norm ! 1 \<noteq> SLASH then False
          else parse_comps (drop 2 norm) 0 0 False)"

fun ns_split :: "string \<Rightarrow> nat \<Rightarrow> string list" where
  "ns_split p 0 = []"
| "ns_split [] (Suc n) = []"
| "ns_split (c # cs) (Suc n) =
     takeWhile (\<lambda>x. x \<noteq> SLASH) (c # cs) # ns_split (drop 1 (dropWhile (\<lambda>x. x \<noteq> SLASH) (c # cs))) n"

section \<open>Alias expansion\<close>

definition alias_of :: "string \<Rightarrow> (string \<times> string) option" where
  "alias_of work =
     List.find (\<lambda>(s, canonical). k_strncmp work s (int (k_strlen s)) = 0 \<and>
       (let next = cnth work (k_strlen s) in next = NUL \<or> next = SLASH)) ns_aliases"

fun expand_aliases :: "nat \<Rightarrow> string \<Rightarrow> string option" where
  "expand_aliases 0 work = Some work"
| "expand_aliases (Suc pass) work =
     (case alias_of work of
        None \<Rightarrow> Some work
      | Some (s, canonical) \<Rightarrow>
          (let rest = drop (k_strlen s) work
           in if k_strlen canonical + k_strlen rest \<ge> NS_MAX_PATH then None
              else expand_aliases pass (canonical @ rest)))"

definition ns_canonical :: "string \<Rightarrow> nat \<Rightarrow> string option" where
  "ns_canonical path mx =
     Option.bind (ns_normalize path) (\<lambda>work.
       if \<not> ns_parse_valid work then None
       else Option.bind (expand_aliases 8 work) (\<lambda>work.
              if k_strlen work \<ge> mx then None else Some work))"

section \<open>Classification\<close>

datatype ns_kind =
  NS_RESOURCE_NONE | NS_ROOT | NS_STORAGE_DEVICE | NS_PARTITION | NS_PARTITIONS_DIR | NS_MEMORY_RAM |
  NS_CPU | NS_HWINFO | NS_HARDWARE_DIR | NS_SYSTEM_DIR | NS_SYSTEM_NODE | NS_DEV_DIR | NS_DEV_SHIM |
  NS_USER_STORE | NS_UNRESOLVED

record ns_resource =
  r_kind :: ns_kind
  r_domain :: int
  part_index :: int
  r_device :: "string option"
  r_canonical :: string

definition set_resource :: "ns_resource \<Rightarrow> ns_kind \<Rightarrow> int \<Rightarrow> int \<Rightarrow> string option \<Rightarrow> ns_resource" where
  "set_resource out kind domain idx device =
     out\<lparr>r_kind := kind, r_domain := domain, part_index := idx, r_device := device\<rparr>"

fun index_loop :: "string \<Rightarrow> int \<Rightarrow> int option" where
  "index_loop [] v = (if v < 1 then None else Some v)"
| "index_loop (c # cs) v =
     (if \<not> is_digit c then None
      else (let v = v * 10 + (chr_code c - 48) in if v > 1000000 then None else index_loop cs v))"

definition parse_index :: "string \<Rightarrow> int option" where
  "parse_index s = (if s = [] then None else index_loop s 0)"

definition streq :: "string \<Rightarrow> string \<Rightarrow> bool" where
  "streq a b \<longleftrightarrow> k_strcmp a b = 0"

definition unresolved :: "ns_resource \<Rightarrow> int \<times> ns_resource" where
  "unresolved out = (-2, out\<lparr>r_kind := NS_UNRESOLVED\<rparr>)"

definition resolved :: "ns_resource \<Rightarrow> ns_kind \<Rightarrow> int \<times> ns_resource" where
  "resolved out kind = (0, set_resource out kind (r_domain out) (-1) None)"

text \<open>The branch of \<^verbatim>\<open>0/hardware/storage\<close>; \<open>n\<close> is the number of components.\<close>

definition resolve_storage :: "'d disk \<Rightarrow> string list \<Rightarrow> ns_resource \<Rightarrow> int \<times> ns_resource" where
  "resolve_storage st comps out =
     (let n = length comps
      in if n = 3 then resolved out NS_HARDWARE_DIR
         else
           (let owner = part_storage_device st;
                dev = (if streq (comps ! 3) ''hdd'' then Some ''hdd''
                       else if streq (comps ! 3) ''ssd'' then Some ''ssd'' else None)
            in if dev = None \<or> owner = None \<or> \<not> streq (the dev) (the owner) then unresolved out
               else if n = 4 then (0, set_resource out NS_STORAGE_DEVICE (r_domain out) (-1) dev)
               else if streq (comps ! 4) ''partitions'' then
                 if n = 5 then (0, set_resource out NS_PARTITIONS_DIR (r_domain out) (-1) dev)
                 else (case parse_index (comps ! 5) of
                         None \<Rightarrow> unresolved out
                       | Some idx \<Rightarrow> (0, set_resource out NS_PARTITION (r_domain out) idx dev))
               else unresolved out))"

definition resolve_hardware :: "'d disk \<Rightarrow> string list \<Rightarrow> ns_resource \<Rightarrow> int \<times> ns_resource" where
  "resolve_hardware st comps out =
     (let n = length comps
      in if n = 2 then resolved out NS_HARDWARE_DIR
         else if streq (comps ! 2) ''memory'' then
           if n = 3 then resolved out NS_HARDWARE_DIR
           else if n = 4 \<and> streq (comps ! 3) ''ram'' then resolved out NS_MEMORY_RAM
           else if n = 4 \<and> streq (comps ! 3) ''info'' then resolved out NS_HWINFO
           else unresolved out
         else if streq (comps ! 2) ''storage'' then resolve_storage st comps out
         else if streq (comps ! 2) ''cpu'' then
           if n = 3 then resolved out NS_CPU
           else if n = 4 \<and> streq (comps ! 3) ''id'' then resolved out NS_HWINFO
           else unresolved out
         else if n = 3 \<and> (streq (comps ! 2) ''platform'' \<or> streq (comps ! 2) ''pci'') then resolved out NS_HWINFO
         else unresolved out)"

definition ns_resolve :: "'d disk \<Rightarrow> string \<Rightarrow> ns_resource \<Rightarrow> int \<times> ns_resource" where
  "ns_resolve st path out =
     (case ns_canonical path NS_MAX_PATH of
        None \<Rightarrow> (-1, out)
      | Some canon \<Rightarrow>
          (let comps = ns_split canon NS_MAX_DEPTH;
               n = length comps;
               out = out\<lparr>r_canonical := canon, r_domain := chr_code (comps ! 0 ! 0) - 48, part_index := -1, r_device := None\<rparr>
           in if n = 1 then resolved out NS_ROOT
              else if streq (comps ! 1) ''hardware'' then resolve_hardware st comps out
              else if streq (comps ! 1) ''system'' then
                resolved out (if n = 2 then NS_SYSTEM_DIR else NS_SYSTEM_NODE)
              else if streq (comps ! 1) ''dev'' then
                resolved out (if n = 2 then NS_DEV_DIR else NS_DEV_SHIM)
              else if streq (comps ! 1) ''user'' then resolved out NS_USER_STORE
              else unresolved out))"

section \<open>Introspection\<close>

fun kind_name :: "ns_kind \<Rightarrow> string" where
  "kind_name NS_ROOT = ''machine root''"
| "kind_name NS_STORAGE_DEVICE = ''storage device''"
| "kind_name NS_PARTITION = ''partition''"
| "kind_name NS_PARTITIONS_DIR = ''partition table''"
| "kind_name NS_MEMORY_RAM = ''system memory''"
| "kind_name NS_CPU = ''processor''"
| "kind_name NS_HWINFO = ''hardware information''"
| "kind_name NS_HARDWARE_DIR = ''hardware category''"
| "kind_name NS_SYSTEM_DIR = ''system category''"
| "kind_name NS_SYSTEM_NODE = ''system resource''"
| "kind_name NS_DEV_DIR = ''device shims''"
| "kind_name NS_DEV_SHIM = ''device''"
| "kind_name NS_USER_STORE = ''user storage''"
| "kind_name _ = ''unknown''"

text \<open>A description buffer is the text written so far; \<open>mx\<close> is the size of the caller's array.\<close>

definition dput :: "nat \<Rightarrow> string \<Rightarrow> string \<Rightarrow> string" where
  "dput mx s d = d @ take (mx - 1 - length d) (cstr s)"

text \<open>\<open>junk\<close> are the bytes from \<^verbatim>\<open>tmp[23]\<close> on, which the function never sets.\<close>

definition dput_dec :: "nat \<Rightarrow> string \<Rightarrow> u64 \<Rightarrow> string \<Rightarrow> string" where
  "dput_dec mx junk v d = (if v = 0 then dput mx ''0'' d else dput mx (put_dec v @ junk) d)"

fun alias_links :: "nat \<Rightarrow> string \<Rightarrow> (string \<times> string) list \<Rightarrow> string \<Rightarrow> string" where
  "alias_links mx name [] d = d"
| "alias_links mx name ((s, canonical) # as) d =
     (if streq name s then dput mx [NL] (dput mx canonical (dput mx ''canonical: '' d))
      else alias_links mx name as
             (if streq name canonical then dput mx [NL] (dput mx s (dput mx ''alias: '' d)) else d))"

definition describe_alias_link :: "nat \<Rightarrow> string \<Rightarrow> string \<Rightarrow> string" where
  "describe_alias_link mx name d = alias_links mx name ns_aliases d"

definition describe_storage_facts :: "nat \<Rightarrow> (nat \<Rightarrow> string) \<Rightarrow> 'd disk \<Rightarrow> string \<Rightarrow> string" where
  "describe_storage_facts mx junk st d =
     (if \<not> disk_is_ready st then dput mx (''backend: none attached'' @ [NL]) d
      else
        (let d = dput mx ''backend: ATA primary master, '' d;
             d = dput_dec mx (junk 1) (disk_get_size st div (1024 * 1024)) d;
             d = dput mx ('' MB'' @ [NL]) d
         in if part_ready st then
              (let count = (case part_list_partitions 16 st of Some ps \<Rightarrow> int (length ps) | None \<Rightarrow> -1);
                   d = dput_dec mx (junk 2) (of_int (if count > 0 then count else 0)) d
               in dput mx ('' partition(s) detected'' @ [NL]) d)
            else dput mx (''no GPT partition table'' @ [NL]) d))"

definition describe_partition :: "nat \<Rightarrow> (nat \<Rightarrow> string) \<Rightarrow> 'd disk \<Rightarrow> int \<Rightarrow> string \<Rightarrow> string" where
  "describe_partition mx junk st idx d =
     (let d = dput mx ''index: '' d;
          d = dput_dec mx (junk 1) (of_int idx) d;
          d = dput mx [NL] d
      in if part_ready st then
           (let list = (case part_list_partitions 16 st of Some ps \<Rightarrow> ps | None \<Rightarrow> [])
            in if idx \<le> int (length list) then
                 (let info = list ! nat (idx - 1);
                      d = dput mx ''start lba: '' d;
                      d = dput_dec mx (junk 2) (pi_start_lba info) d;
                      d = dput mx ([NL] @ ''size kb: '') d;
                      d = dput_dec mx (junk 3) (pi_size_sectors info div 2) d;
                      d = dput mx ([NL] @ ''label: '') d;
                      d = dput mx (if pi_label info \<noteq> [] then pi_label info else ''(none)'') d
                  in dput mx ([NL] @ ''backend: partition-relative block I/O'' @ [NL]) d)
               else dput mx (''state: not present on device'' @ [NL]) d)
         else dput mx (''backend: unavailable (no GPT)'' @ [NL]) d)"

definition ns_describe :: "'d disk \<Rightarrow> pmm \<Rightarrow> (nat \<Rightarrow> string) \<Rightarrow> string \<Rightarrow> nat \<Rightarrow> ns_resource \<Rightarrow> int \<times> string option" where
  "ns_describe st pm junk path mx r0 =
     (let (rc, r) = ns_resolve st path r0
      in if rc < 0 then (rc, None)
         else
           (let d = dput mx ''path: '' [];
                d = dput mx (r_canonical r) d;
                d = dput mx ([NL] @ ''kind: '') d;
                d = dput mx (kind_name (r_kind r)) d;
                d = dput mx ([NL] @ ''domain: '') d;
                d = dput_dec mx (junk 0) (of_int (r_domain r)) d;
                d = dput mx [NL] d;
                d = describe_alias_link mx (r_canonical r) d;
                d = (if r_kind r = NS_STORAGE_DEVICE \<or> r_kind r = NS_PARTITIONS_DIR
                     then describe_storage_facts mx junk st d
                     else if r_kind r = NS_PARTITION then describe_partition mx junk st (part_index r) d
                     else if r_kind r = NS_MEMORY_RAM then
                       (let d = dput mx ''total mb: '' d;
                            d = dput_dec mx (junk 1) (pmm_get_total pm div (1024 * 1024)) d;
                            d = dput mx ([NL] @ ''free mb: '') d;
                            d = dput_dec mx (junk 2) (pmm_get_free pm div (1024 * 1024)) d
                        in dput mx [NL] d)
                     else if r_kind r = NS_USER_STORE
                     then dput mx (''binding: boot policy (first available storage volume)'' @ [NL]) d
                     else d)
            in (0, Some d)))"

section \<open>Translation of shell arguments\<close>

abbreviation (input) NS_FS_OK :: int where "NS_FS_OK \<equiv> 0"
abbreviation (input) NS_FS_NOT_NS :: int where "NS_FS_NOT_NS \<equiv> 1"
abbreviation (input) NS_FS_EPARSE :: int where "NS_FS_EPARSE \<equiv> -1"
abbreviation (input) NS_FS_EUNKNOWN :: int where "NS_FS_EUNKNOWN \<equiv> -2"
abbreviation (input) NS_FS_EVOLUME :: int where "NS_FS_EVOLUME \<equiv> -3"
abbreviation (input) NS_FS_EKIND :: int where "NS_FS_EKIND \<equiv> -4"

fun skip_components :: "string \<Rightarrow> nat \<Rightarrow> string" where
  "skip_components s 0 = s"
| "skip_components s (Suc n) = skip_components (drop 1 (dropWhile (\<lambda>c. c \<noteq> SLASH) s)) n"

text \<open>The partition is mounted as the file system volume.\<close>

definition partition_mounted :: "'d disk \<Rightarrow> int \<Rightarrow> bool" where
  "partition_mounted st idx =
     (case part_list_partitions 16 st of
        None \<Rightarrow> False
      | Some list \<Rightarrow>
          \<not> idx > int (length list) \<and>
          \<not> (pi_start_lba (list ! nat (idx - 1)) \<noteq> volume_base_lba st \<or> volume_base_lba st = 0))"

definition put_fs_path :: "string \<Rightarrow> nat \<Rightarrow> int \<times> string option" where
  "put_fs_path tail mx = (if mx < k_strlen tail + 2 then (NS_FS_EPARSE, None) else (NS_FS_OK, Some (SLASH # tail)))"

definition ns_to_fs_path :: "'d disk \<Rightarrow> string \<Rightarrow> nat \<Rightarrow> ns_resource \<Rightarrow> int \<times> string option" where
  "ns_to_fs_path st input mx r0 =
     (if mx = 0 then (NS_FS_EPARSE, None)
      else if \<not> is_digit (cnth input 0) \<or> cnth input 1 \<noteq> SLASH then (NS_FS_NOT_NS, None)
      else
        (let (rc, r) = ns_resolve st input r0
         in if rc = -1 then (NS_FS_EPARSE, None)
            else if rc = -2 then (NS_FS_EUNKNOWN, None)
            else if r_kind r = NS_PARTITION then
              if \<not> partition_mounted st (part_index r) then (NS_FS_EVOLUME, None)
              else put_fs_path (skip_components (r_canonical r) 6) mx
            else if r_kind r = NS_USER_STORE then put_fs_path (skip_components (r_canonical r) 2) mx
            else if r_kind r \<in> {NS_SYSTEM_NODE, NS_DEV_SHIM, NS_HWINFO, NS_MEMORY_RAM, NS_CPU} then
              put_fs_path (r_canonical r) mx
            else (NS_FS_EKIND, None)))"

section \<open>The grammar\<close>

text \<open>A component and a path as the comment above \<^verbatim>\<open>ns_parse_valid\<close> defines them.\<close>

definition comp_ok :: "string \<Rightarrow> bool" where
  "comp_ok c \<longleftrightarrow> c \<noteq> [] \<and> list_all valid_char c \<and> list_ex (\<lambda>x. x \<noteq> CHR ''.'') c"

definition slashed :: "string list \<Rightarrow> string" where
  "slashed cs = concat (map (\<lambda>c. SLASH # c) cs)"

lemma slashed_simps [simp]: "slashed [] = []" "slashed (c # cs) = SLASH # c @ slashed cs"
  "slashed (cs @ ds) = slashed cs @ slashed ds"
  by (simp_all add: slashed_def)

lemma valid_char_simps [simp]: "\<not> valid_char SLASH" "\<not> valid_char NUL" "valid_char (CHR ''.'')"
  by (simp_all add: valid_char_def is_digit_def)

lemma digit_valid: "is_digit d \<Longrightarrow> valid_char d \<and> d \<noteq> CHR ''.'' \<and> d \<noteq> SLASH \<and> d \<noteq> NUL"
  by (auto simp: valid_char_def is_digit_def)

lemma comp_ok_chars:
  assumes "comp_ok c"
  shows "c \<noteq> []" "SLASH \<notin> set c" "NUL \<notin> set c" "\<And>x. x \<in> set c \<Longrightarrow> valid_char x"
  using assms by (auto simp: comp_ok_def list_all_iff)

text \<open>What is left to parse after \<open>n\<close> characters of a component: its end and further components.\<close>

definition comps_from :: "string \<Rightarrow> nat \<Rightarrow> nat \<Rightarrow> bool \<Rightarrow> bool" where
  "comps_from s depth n nondot \<longleftrightarrow>
     (\<exists>p cs. s = p @ slashed cs \<and> list_all valid_char p \<and> (n \<noteq> 0 \<or> p \<noteq> []) \<and>
        (nondot \<or> list_ex (\<lambda>x. x \<noteq> CHR ''.'') p) \<and> list_all comp_ok cs \<and> depth + 1 + length cs \<le> 16)"

lemma comps_fromI:
  "s = p @ slashed cs \<Longrightarrow> list_all valid_char p \<Longrightarrow> n \<noteq> 0 \<or> p \<noteq> [] \<Longrightarrow>
   nondot \<or> list_ex (\<lambda>x. x \<noteq> CHR ''.'') p \<Longrightarrow> list_all comp_ok cs \<Longrightarrow> depth + 1 + length cs \<le> 16 \<Longrightarrow>
   comps_from s depth n nondot"
  unfolding comps_from_def by blast

lemma comps_fromE:
  assumes "comps_from s depth n nondot"
  obtains p cs where "s = p @ slashed cs" "list_all valid_char p" "n \<noteq> 0 \<or> p \<noteq> []"
    "nondot \<or> list_ex (\<lambda>x. x \<noteq> CHR ''.'') p" "list_all comp_ok cs" "depth + 1 + length cs \<le> 16"
  using assms unfolding comps_from_def by blast

lemma comps_from_Nil: "comps_from [] depth n nondot \<longleftrightarrow> n \<noteq> 0 \<and> nondot \<and> depth + 1 \<le> 16"
proof
  assume "comps_from [] depth n nondot"
  then show "n \<noteq> 0 \<and> nondot \<and> depth + 1 \<le> 16" by (rule comps_fromE) auto
qed (auto intro: comps_fromI [of _ "[]" "[]"])

lemma comps_from_slash:
  "comps_from (SLASH # s) depth n nondot \<longleftrightarrow> n \<noteq> 0 \<and> nondot \<and> depth + 1 \<le> 16 \<and> comps_from s (depth + 1) 0 False"
proof
  assume "comps_from (SLASH # s) depth n nondot"
  then obtain p cs where pc: "SLASH # s = p @ slashed cs" "list_all valid_char p" "n \<noteq> 0 \<or> p \<noteq> []"
    "nondot \<or> list_ex (\<lambda>x. x \<noteq> CHR ''.'') p" "list_all comp_ok cs" "depth + 1 + length cs \<le> 16"
    by (rule comps_fromE)
  then have p: "p = []" by (cases p) auto
  with pc obtain q qs where cs: "cs = q # qs" by (cases cs) auto
  show "n \<noteq> 0 \<and> nondot \<and> depth + 1 \<le> 16 \<and> comps_from s (depth + 1) 0 False"
    using pc p cs by (auto simp: comp_ok_def intro: comps_fromI [of _ q qs])
next
  assume R: "n \<noteq> 0 \<and> nondot \<and> depth + 1 \<le> 16 \<and> comps_from s (depth + 1) 0 False"
  then have "comps_from s (depth + 1) 0 False" by blast
  then obtain p cs where "s = p @ slashed cs" "comp_ok p" "list_all comp_ok cs" "depth + 2 + length cs \<le> 16"
    by (rule comps_fromE) (auto simp: comp_ok_def)
  then show "comps_from (SLASH # s) depth n nondot"
    using R by (intro comps_fromI [of _ "[]" "p # cs"]) auto
qed

lemma comps_from_valid:
  assumes "valid_char c"
  shows "comps_from (c # s) depth n nondot \<longleftrightarrow> comps_from s depth (n + 1) (nondot \<or> c \<noteq> CHR ''.'')"
proof
  assume "comps_from (c # s) depth n nondot"
  then obtain p cs where pc: "c # s = p @ slashed cs" "list_all valid_char p"
    "nondot \<or> list_ex (\<lambda>x. x \<noteq> CHR ''.'') p" "list_all comp_ok cs" "depth + 1 + length cs \<le> 16"
    by (rule comps_fromE)
  then obtain p' where "p = c # p'" using assms by (cases p; cases cs) auto
  with pc show "comps_from s depth (n + 1) (nondot \<or> c \<noteq> CHR ''.'')"
    by (intro comps_fromI [of _ p' cs]) auto
next
  assume "comps_from s depth (n + 1) (nondot \<or> c \<noteq> CHR ''.'')"
  then obtain p cs where "s = p @ slashed cs" "list_all valid_char p"
    "(nondot \<or> c \<noteq> CHR ''.'') \<or> list_ex (\<lambda>x. x \<noteq> CHR ''.'') p" "list_all comp_ok cs" "depth + 1 + length cs \<le> 16"
    by (rule comps_fromE)
  then show "comps_from (c # s) depth n nondot"
    using assms by (intro comps_fromI [of _ "c # p" cs]) auto
qed

lemma comps_from_bad: "c \<noteq> SLASH \<Longrightarrow> \<not> valid_char c \<Longrightarrow> \<not> comps_from (c # s) depth n nondot"
proof
  assume "c \<noteq> SLASH" "\<not> valid_char c" "comps_from (c # s) depth n nondot"
  then show False
    by (elim comps_fromE) (case_tac p; case_tac cs; auto)
qed

lemma parse_comps_iff: "parse_comps s depth n nondot = comps_from s depth n nondot"
proof (induction s arbitrary: depth n nondot)
  case Nil
  then show ?case by (auto simp: comps_from_Nil)
next
  case (Cons c s)
  show ?case
    using comps_from_bad [of c s depth n nondot] comps_from_valid [of c s depth n nondot]
      comps_from_slash [of s depth n nondot]
    by (auto simp: Cons.IH)
qed

lemma ns_parse_valid_iff:
  "ns_parse_valid path \<longleftrightarrow>
     (\<exists>d cs. ns_normalize path = Some (d # slashed cs) \<and> is_digit d \<and> list_all comp_ok cs \<and> length cs \<le> 16)"
proof (cases "ns_normalize path")
  case None
  then show ?thesis by (simp add: ns_parse_valid_def)
next
  case (Some norm)
  show ?thesis
  proof (cases norm)
    case Nil
    then show ?thesis using Some by (simp add: ns_parse_valid_def)
  next
    case (Cons d rest)
    have "ns_parse_valid path \<longleftrightarrow> is_digit d \<and> (rest = [] \<or> (\<exists>s. rest = SLASH # s \<and> parse_comps s 0 0 False))"
      using Some Cons by (cases rest) (auto simp: ns_parse_valid_def)
    also have "\<dots> \<longleftrightarrow> is_digit d \<and> (\<exists>cs. rest = slashed cs \<and> list_all comp_ok cs \<and> length cs \<le> 16)"
      (is "_ \<and> ?L \<longleftrightarrow> _ \<and> ?R")
    proof -
      have "?L \<longleftrightarrow> ?R"
      proof
        assume ?L
        then show ?R
        proof
          assume "\<exists>s. rest = SLASH # s \<and> parse_comps s 0 0 False"
          then obtain p cs where "rest = slashed (p # cs)" "comp_ok p" "list_all comp_ok cs" "1 + length cs \<le> 16"
            by (auto simp: parse_comps_iff comp_ok_def elim!: comps_fromE)
          then show ?R by (intro exI [of _ "p # cs"]) simp
        qed (auto intro: exI [of _ "[]"])
      next
        assume ?R
        then obtain cs where cs: "rest = slashed cs" "list_all comp_ok cs" "length cs \<le> 16" by blast
        show ?L
        proof (cases cs)
          case (Cons p ps)
          then have "parse_comps (p @ slashed ps) 0 0 False"
            using cs unfolding parse_comps_iff by (intro comps_fromI [of _ p ps]) (auto simp: comp_ok_def)
          then show ?thesis using cs Cons by auto
        qed (use cs in simp)
      qed
      then show ?thesis by blast
    qed
    finally show ?thesis using Some Cons by auto
  qed
qed

lemma ns_lower_valid: "valid_char c \<Longrightarrow> ns_lower c = c"
  by (auto simp: ns_lower_def valid_char_def is_digit_def)

lemma set_slashed: "x \<in> set (slashed cs) \<Longrightarrow> x = SLASH \<or> (\<exists>c\<in>set cs. x \<in> set c)"
  by (induction cs) auto

lemma path_chars:
  assumes "is_digit d" "list_all comp_ok cs" "x \<in> set (d # slashed cs)"
  shows "x = SLASH \<or> valid_char x"
  using assms digit_valid set_slashed [of x cs] by (auto simp: list_all_iff dest: comp_ok_chars(4))

lemma path_no_nul:
  assumes "is_digit d" "list_all comp_ok cs"
  shows "NUL \<notin> set (d # slashed cs)" "cstr (d # slashed cs) = d # slashed cs"
proof -
  show "NUL \<notin> set (d # slashed cs)" using path_chars [OF assms, of NUL] by auto
  then show "cstr (d # slashed cs) = d # slashed cs" by (rule cstr_id)
qed

lemma strip_slashes_path:
  assumes "is_digit d" "list_all comp_ok cs"
  shows "strip_slashes (d # slashed cs) = d # slashed cs"
proof (cases cs rule: rev_cases)
  case Nil
  then show ?thesis using digit_valid [OF assms(1)] by (simp add: strip_slashes_def)
next
  case (snoc ds c)
  then have "comp_ok c" using assms(2) by simp
  then obtain c' x where c: "c = c' @ [x]" "x \<noteq> SLASH"
    using comp_ok_chars(1,2) [of c] by (cases c rule: rev_cases) auto
  then show ?thesis by (simp add: strip_slashes_def snoc)
qed

lemma ns_normalize_path:
  assumes "is_digit d" "list_all comp_ok cs" "length (d # slashed cs) < 256"
  shows "ns_normalize (d # slashed cs) = Some (d # slashed cs)"
proof -
  have "map ns_lower (d # slashed cs) = d # slashed cs"
  proof (rule map_idI)
    fix x
    assume "x \<in> set (d # slashed cs)"
    from path_chars [OF assms(1,2) this] show "ns_lower x = x"
      by (elim disjE) (simp_all add: ns_lower_valid, simp add: ns_lower_def)
  qed
  then show ?thesis
    using assms(3) strip_slashes_path [OF assms(1,2)] path_no_nul [OF assms(1,2)]
    by (simp add: ns_normalize_def)
qed

lemma ns_normalize_length: "ns_normalize p = Some s \<Longrightarrow> length s < 256"
  using length_dropWhile_le [of "\<lambda>c. c = SLASH" "rev (map ns_lower (cstr p))"]
  by (auto simp: ns_normalize_def strip_slashes_def Let_def split: if_splits)

section \<open>Aliases\<close>

text \<open>Alias expansion on the components.\<close>

definition alias_comps :: "char \<Rightarrow> string list \<Rightarrow> string list" where
  "alias_comps d cs =
     (case cs of
        [] \<Rightarrow> []
      | c # cs' \<Rightarrow>
          if d = CHR ''0'' \<and> c = ''hmr'' then [''hardware'', ''memory'', ''ram''] @ cs'
          else if d = CHR ''0'' \<and> c = ''hsh'' then [''hardware'', ''storage'', ''hdd''] @ cs'
          else if d = CHR ''0'' \<and> c = ''hss'' then [''hardware'', ''storage'', ''ssd''] @ cs'
          else cs)"

lemma first_comp:
  assumes cs: "list_all comp_ok cs" and a: "SLASH \<notin> set a" "a \<noteq> []"
  shows "take (Suc (length a)) (slashed cs) = SLASH # a \<and>
      (cnth (slashed cs) (Suc (length a)) = NUL \<or> cnth (slashed cs) (Suc (length a)) = SLASH) \<longleftrightarrow>
    (\<exists>cs'. cs = a # cs')" (is "?L \<longleftrightarrow> ?R")
proof
  assume L: ?L
  then obtain c cs' where c: "cs = c # cs'" using a by (cases cs) auto
  have ok: "SLASH \<notin> set c" "NUL \<notin> set c" using cs c comp_ok_chars by auto
  have tk: "take (length a) (c @ slashed cs') = a"
    and nx: "cnth (c @ slashed cs') (length a) = NUL \<or> cnth (c @ slashed cs') (length a) = SLASH"
    using L c by (auto simp: cnth_def)
  have "\<not> length c < length a"
  proof
    assume lt: "length c < length a"
    then have "length c < length (c @ slashed cs')"
      using arg_cong [OF tk, of length] by (cases "slashed cs'") auto
    then obtain q qs where "cs' = q # qs" by (cases cs') auto
    then have "a ! length c = SLASH" using lt tk by (metis append_Cons nth_append_length nth_take slashed_simps(2))
    then show False using a lt nth_mem [of "length c" a] by simp
  qed
  moreover have "\<not> length a < length c"
  proof
    assume "length a < length c"
    then have "cnth (c @ slashed cs') (length a) \<in> set c" by (simp add: cnth_def nth_append)
    then show False using nx ok by auto
  qed
  ultimately show ?R using tk c by auto
next
  assume ?R
  then obtain cs' where "cs = a # cs'" by blast
  then show ?L by (cases cs') (auto simp: cnth_def nth_append)
qed

lemma alias_match:
  assumes "is_digit d" "list_all comp_ok cs" "a \<in> {''hmr'', ''hsh'', ''hss''}"
  shows "k_strncmp (d # slashed cs) (CHR ''0'' # SLASH # a) (int (k_strlen (CHR ''0'' # SLASH # a))) = 0 \<and>
     (let next = cnth (d # slashed cs) (k_strlen (CHR ''0'' # SLASH # a)) in next = NUL \<or> next = SLASH) \<longleftrightarrow>
     d = CHR ''0'' \<and> (\<exists>cs'. cs = a # cs')"
proof -
  have a: "NUL \<notin> set a" "length a = 3" using assms(3) by auto
  have nn: "NUL \<notin> set (slashed cs)" "d \<noteq> NUL" using path_no_nul(1) [OF assms(1,2)] by auto
  have "k_strncmp (d # slashed cs) (CHR ''0'' # SLASH # a) (int (k_strlen (CHR ''0'' # SLASH # a))) = 0 \<longleftrightarrow>
      d = CHR ''0'' \<and> take 4 (slashed cs) = SLASH # a"
    using a nn by (simp add: k_strlen_eq cstr_id k_strncmp_0_iff numeral_eq_Suc del: k_strncmp.simps)
  moreover have "cnth (d # slashed cs) (k_strlen (CHR ''0'' # SLASH # a)) = cnth (slashed cs) 4"
    using a by (simp add: k_strlen_eq cstr_id cnth_def)
  moreover have "take 4 (slashed cs) = SLASH # a \<and> (cnth (slashed cs) 4 = NUL \<or> cnth (slashed cs) 4 = SLASH) \<longleftrightarrow>
      (\<exists>cs'. cs = a # cs')"
    using first_comp [OF assms(2), of a] assms(3) a(2) by auto
  ultimately show ?thesis by (auto simp: Let_def)
qed

lemma alias_of_path:
  assumes "is_digit d" "list_all comp_ok cs"
  shows "alias_of (d # slashed cs) =
    (if d = CHR ''0'' \<and> (\<exists>cs'. cs = ''hmr'' # cs') then Some (''0/hmr'', ''0/hardware/memory/ram'')
     else if d = CHR ''0'' \<and> (\<exists>cs'. cs = ''hsh'' # cs') then Some (''0/hsh'', ''0/hardware/storage/hdd'')
     else if d = CHR ''0'' \<and> (\<exists>cs'. cs = ''hss'' # cs') then Some (''0/hss'', ''0/hardware/storage/ssd'')
     else None)"
proof -
  have m: "''hmr'' \<in> {''hmr'', ''hsh'', ''hss''}" "''hsh'' \<in> {''hmr'', ''hsh'', ''hss''}" "''hss'' \<in> {''hmr'', ''hsh'', ''hss''}"
    by simp_all
  show ?thesis
    by (simp only: alias_of_def ns_aliases_def List.find.simps prod.case
        alias_match [OF assms m(1)] alias_match [OF assms m(2)] alias_match [OF assms m(3)])
qed

text \<open>An expanded path is the canonical spelling and has no further alias.\<close>

lemma expand_alias_step:
  assumes d: "is_digit d" and cs: "list_all comp_ok cs" and al: "alias_of (d # slashed cs) = Some (s, canonical)"
  shows "canonical @ drop (k_strlen s) (d # slashed cs) = d # slashed (alias_comps d cs)"
    "k_strlen canonical + k_strlen (drop (k_strlen s) (d # slashed cs)) = length (d # slashed (alias_comps d cs))"
    "alias_of (d # slashed (alias_comps d cs)) = None"
proof -
  have ok: "list_all comp_ok (alias_comps d cs)"
    using cs by (auto simp: alias_comps_def comp_ok_def valid_char_def is_digit_def split: list.splits)
  consider cs' where "d = CHR ''0''" "cs = ''hmr'' # cs'" "s = ''0/hmr''" "canonical = ''0/hardware/memory/ram''"
    | cs' where "d = CHR ''0''" "cs = ''hsh'' # cs'" "s = ''0/hsh''" "canonical = ''0/hardware/storage/hdd''"
    | cs' where "d = CHR ''0''" "cs = ''hss'' # cs'" "s = ''0/hss''" "canonical = ''0/hardware/storage/ssd''"
    using al unfolding alias_of_path [OF d cs] by (auto split: if_splits)
  then show "canonical @ drop (k_strlen s) (d # slashed cs) = d # slashed (alias_comps d cs)"
    "k_strlen canonical + k_strlen (drop (k_strlen s) (d # slashed cs)) = length (d # slashed (alias_comps d cs))"
    "alias_of (d # slashed (alias_comps d cs)) = None"
    using path_no_nul(2) [OF d cs] unfolding alias_of_path [OF d ok]
    by (cases; simp add: alias_comps_def k_strlen_eq)+
qed

lemma alias_comps_none:
  assumes "is_digit d" "list_all comp_ok cs" "alias_of (d # slashed cs) = None"
  shows "alias_comps d cs = cs"
  using assms(3) unfolding alias_of_path [OF assms(1,2)]
  by (auto simp: alias_comps_def split: list.splits if_splits)

lemma expand_aliases_path:
  assumes "is_digit d" "list_all comp_ok cs" "length (d # slashed cs) < 256"
  shows "expand_aliases 8 (d # slashed cs) =
    (if length (d # slashed (alias_comps d cs)) < 256 then Some (d # slashed (alias_comps d cs)) else None)"
proof (cases "alias_of (d # slashed cs)")
  case None
  then show ?thesis using assms alias_comps_none [OF assms(1,2)] by (simp add: numeral_eq_Suc)
next
  case (Some a)
  obtain s canonical where a: "a = (s, canonical)" by force
  note step = expand_alias_step [OF assms(1,2) Some [unfolded a]]
  have "expand_aliases (Suc (Suc n)) (d # slashed cs) =
    (if length (d # slashed (alias_comps d cs)) < 256 then Some (d # slashed (alias_comps d cs)) else None)" for n
    using Some a step by (simp only: expand_aliases.simps Let_def option.case prod.case step) auto
  from this [of 6] show ?thesis by (simp add: numeral_eq_Suc)
qed

lemma alias_comps_ok: "list_all comp_ok cs \<Longrightarrow> list_all comp_ok (alias_comps d cs)"
  by (auto simp: alias_comps_def comp_ok_def valid_char_def is_digit_def split: list.splits)

lemma ns_lower_code: "65 \<le> chr_code c \<Longrightarrow> chr_code c \<le> 90 \<Longrightarrow> chr_code (ns_lower c) = chr_code c + 32"
  by (simp add: ns_lower_def)

lemma ns_lower_idem [simp]: "ns_lower (ns_lower c) = ns_lower c"
  using ns_lower_code [of c] by (cases "65 \<le> chr_code c \<and> chr_code c \<le> 90") (auto simp: ns_lower_def)

lemma ns_lower_nul: "ns_lower c = NUL \<longleftrightarrow> c = NUL"
proof (cases "65 \<le> chr_code c \<and> chr_code c \<le> 90")
  case True
  then have "chr_code (ns_lower c) \<noteq> 0" "chr_code c \<noteq> 0" using ns_lower_code [of c] by linarith+
  then show ?thesis by auto
qed (auto simp: ns_lower_def)

lemma strip_slashes_idem [simp]: "strip_slashes (strip_slashes s) = strip_slashes s"
  by (simp add: strip_slashes_def)

lemma set_strip_slashes: "set (strip_slashes s) \<subseteq> set s"
  by (auto simp: strip_slashes_def dest: set_dropWhileD)

lemma ns_normalize_idem:
  assumes "ns_normalize path = Some w"
  shows "ns_normalize w = Some w"
proof -
  have w: "w = strip_slashes (map ns_lower (cstr path))"
    using assms by (simp add: ns_normalize_def Let_def split: if_splits)
  have "NUL \<notin> set (map ns_lower (cstr path))"
    using cstr_no_nul [of path] by (auto simp: ns_lower_nul dest: sym)
  then have "cstr w = w" using set_strip_slashes unfolding w by (intro cstr_id) blast
  moreover have "map ns_lower w = w"
  proof (rule map_idI)
    fix x
    assume "x \<in> set w"
    then have "x \<in> set (map ns_lower (cstr path))" using set_strip_slashes unfolding w by blast
    then show "ns_lower x = x" by auto
  qed
  ultimately show ?thesis
    using ns_normalize_length [OF assms] w by (simp add: ns_normalize_def)
qed

lemma ns_canonicalE:
  assumes "ns_canonical path mx = Some c"
  obtains d cs where "ns_normalize path = Some (d # slashed cs)" "is_digit d" "list_all comp_ok cs" "length cs \<le> 16"
    "c = d # slashed (alias_comps d cs)" "length c < 256" "length c < mx"
proof -
  obtain w where w: "ns_normalize path = Some w" "ns_parse_valid w" and ex: "expand_aliases 8 w = Some c" and mx: "k_strlen c < mx"
    using assms by (auto simp: ns_canonical_def bind_eq_Some_conv split: if_splits)
  obtain d cs where n: "ns_normalize w = Some (d # slashed cs)" and ok: "is_digit d" "list_all comp_ok cs" "length cs \<le> 16"
    using w(2) unfolding ns_parse_valid_iff by blast
  have wd: "w = d # slashed cs" using n ns_normalize_idem [OF w(1)] by simp
  have c: "c = d # slashed (alias_comps d cs)" "length c < 256"
    using ex expand_aliases_path [OF ok(1,2)] ns_normalize_length [OF w(1)] unfolding wd by (auto split: if_splits)
  have "k_strlen c = length c"
    using path_no_nul(2) [OF ok(1) alias_comps_ok [OF ok(2)]] unfolding c by (simp add: k_strlen_eq)
  then show thesis using that w(1) wd ok c mx by auto
qed

lemma alias_comps_idem:
  assumes "list_all comp_ok cs"
  shows "alias_comps d (alias_comps d cs) = alias_comps d cs"
  by (auto simp: alias_comps_def split: list.splits)


text \<open>
  C32. One resource under both spellings. A canonical path is its own canonical path, so the
  resolver gives both spellings the same result - but only while the expanded path still
  passes the depth limit, which is checked before expansion: otherwise the canonical spelling
  of a path that was accepted is itself rejected.
\<close>

theorem ns_canonical_idem:
  assumes "ns_canonical path mx = Some c"
  shows "ns_canonical c mx = (if ns_parse_valid c then Some c else None) \<and>
    (ns_parse_valid c \<longrightarrow> mx = 256 \<longrightarrow> ns_resolve st c out = ns_resolve st path out)"
proof -
  obtain d cs where ok: "is_digit d" "list_all comp_ok cs" and c: "c = d # slashed (alias_comps d cs)"
      and len: "length c < 256" "length c < mx"
    using assms by (rule ns_canonicalE)
  note ok' = alias_comps_ok [OF ok(2), of d]
  have n: "ns_normalize c = Some c" unfolding c by (rule ns_normalize_path [OF ok(1) ok']) (use len c in simp)
  have ex: "expand_aliases 8 c = Some c"
    using expand_aliases_path [OF ok(1) ok'] alias_comps_idem [OF ok(2)] len c by simp
  have "k_strlen c = length c" using path_no_nul(2) [OF ok(1) ok'] unfolding c by (simp add: k_strlen_eq)
  then have "ns_canonical c mx = (if ns_parse_valid c then Some c else None)"
    using n ex len by (simp add: ns_canonical_def)
  then show ?thesis using assms by (auto simp: ns_resolve_def)
qed

lemma index_loop_bounds: "index_loop s v = Some k \<Longrightarrow> v \<le> 1000000 \<Longrightarrow> 1 \<le> k \<and> k \<le> 1000000"
  by (induction s v rule: index_loop.induct) (auto simp: Let_def split: if_splits)

lemma parse_index_bounds: "parse_index s = Some k \<Longrightarrow> 1 \<le> k \<and> k \<le> 1000000"
  by (auto simp: parse_index_def split: if_splits dest: index_loop_bounds)

definition storage_kinds :: "ns_kind set" where
  "storage_kinds = {NS_STORAGE_DEVICE, NS_PARTITIONS_DIR, NS_PARTITION}"

text \<open>What a resource must look like when it was classified from \<open>out\<close>.\<close>

definition resource_ok :: "'d disk \<Rightarrow> ns_resource \<Rightarrow> ns_resource \<Rightarrow> bool" where
  "resource_ok st out r \<longleftrightarrow>
     r_kind r \<notin> {NS_RESOURCE_NONE, NS_UNRESOLVED} \<and> r_domain r = r_domain out \<and> r_canonical r = r_canonical out \<and>
     (if r_kind r = NS_PARTITION then 1 \<le> part_index r \<and> part_index r \<le> 1000000 else part_index r = -1) \<and>
     (if r_kind r \<in> storage_kinds then r_device r = part_storage_device st \<and> r_device r \<noteq> None else r_device r = None)"

lemma resolved_ok:
  "resolved out k = (0, r) \<Longrightarrow> k \<notin> storage_kinds \<union> {NS_RESOURCE_NONE, NS_UNRESOLVED} \<Longrightarrow> resource_ok st out r"
  by (auto simp: resolved_def set_resource_def resource_ok_def storage_kinds_def)

lemma unresolved_not_0 [simp]: "unresolved out \<noteq> (0, r)"
  by (simp add: unresolved_def)

lemma resolve_storage_ok:
  assumes "resolve_storage st comps out = (0, r)"
  shows "resource_ok st out r"
proof (cases "length comps = 3")
  case True
  then show ?thesis
    using assms by (auto simp: resolve_storage_def storage_kinds_def intro!: resolved_ok)
next
  case False
  obtain x y where xy: "part_storage_device st = Some y" "x \<in> {''hdd'', ''ssd''}" "streq x y"
      and r: "r = set_resource out NS_STORAGE_DEVICE (r_domain out) (-1) (Some x) \<or>
        r = set_resource out NS_PARTITIONS_DIR (r_domain out) (-1) (Some x) \<or>
        (\<exists>idx. parse_index (comps ! 5) = Some idx \<and> r = set_resource out NS_PARTITION (r_domain out) idx (Some x))"
    using assms False by (auto simp: resolve_storage_def Let_def split: if_splits option.splits)
  have "x = y"
    using xy by (auto simp: streq_def k_strcmp_0_iff part_storage_device_def split: if_splits)
  then show ?thesis
    using xy r by (auto simp: resource_ok_def set_resource_def storage_kinds_def dest: parse_index_bounds)
qed

lemma resolve_hardware_ok:
  assumes "resolve_hardware st comps out = (0, r)"
  shows "resource_ok st out r"
  using assms
  by (auto simp: resolve_hardware_def Let_def storage_kinds_def split: if_splits
      intro: resolve_storage_ok resolved_ok)

lemma split_first:
  assumes "is_digit d"
  shows "ns_split (d # slashed cs) 16 ! 0 = [d]"
  using digit_valid [OF assms] by (cases cs) (simp_all add: numeral_eq_Suc)

text \<open>
  C33. A resolved resource is well typed: its kind is a real one, its domain is a digit, it
  carries a partition number, at least 1, exactly when it is a partition, and the name of the
  attached device exactly when it is a storage resource; its canonical path fits the buffer.
\<close>

theorem ns_resolve_typed:
  assumes "ns_resolve st path out = (0, r)"
  shows "r_kind r \<noteq> NS_RESOURCE_NONE \<and> r_kind r \<noteq> NS_UNRESOLVED \<and> 0 \<le> r_domain r \<and> r_domain r \<le> 9 \<and>
    (if r_kind r = NS_PARTITION then 1 \<le> part_index r \<and> part_index r \<le> 1000000 else part_index r = -1) \<and>
    r_device r = (if r_kind r \<in> storage_kinds then part_storage_device st else None) \<and>
    (r_kind r \<in> storage_kinds \<longrightarrow> r_device r \<noteq> None) \<and>
    ns_canonical path 256 = Some (r_canonical r) \<and> length (r_canonical r) < 256"
proof -
  obtain c where c: "ns_canonical path 256 = Some c" using assms by (cases "ns_canonical path 256") (auto simp: ns_resolve_def)
  then obtain d cs where d: "is_digit d" and cd: "c = d # slashed cs" and len: "length c < 256"
    by (rule ns_canonicalE) blast
  define out' where "out' = out\<lparr>r_canonical := c, r_domain := chr_code d - 48, part_index := -1, r_device := None\<rparr>"
  have "resource_ok st out' r"
    using assms c split_first [OF d, of cs]
    by (auto simp: ns_resolve_def Let_def cd [symmetric] out'_def [symmetric] storage_kinds_def split: if_splits
        intro: resolve_hardware_ok resolved_ok)
  then show ?thesis
    using d c len by (cases "part_storage_device st") (auto simp: resource_ok_def out'_def is_digit_def storage_kinds_def split: if_splits)
qed

lemma canonical_kept:
  "r_canonical (snd (resolved out k)) = r_canonical out" "r_canonical (snd (unresolved out)) = r_canonical out"
  "r_canonical (snd (resolve_storage st comps out)) = r_canonical out"
  "r_canonical (snd (resolve_hardware st comps out)) = r_canonical out"
proof -
  show r: "r_canonical (snd (resolved out k)) = r_canonical out" for k by (simp add: resolved_def set_resource_def)
  show u: "r_canonical (snd (unresolved out)) = r_canonical out" by (simp add: unresolved_def)
  show s: "r_canonical (snd (resolve_storage st comps out)) = r_canonical out"
    by (simp add: resolve_storage_def Let_def r u set_resource_def split: option.split)
  show "r_canonical (snd (resolve_hardware st comps out)) = r_canonical out"
    by (simp add: resolve_hardware_def Let_def r u s)
qed

lemma ns_resolve_canonical:
  "ns_canonical path 256 = Some c \<Longrightarrow> r_canonical (snd (ns_resolve st path out)) = c"
  by (simp add: ns_resolve_def Let_def canonical_kept)

lemma takeWhile_slash: "SLASH \<notin> set s \<Longrightarrow> dropWhile (\<lambda>c. c \<noteq> SLASH) (s @ slashed cs) = slashed cs"
  by (induction s) (auto, cases cs, auto)

text \<open>What is left of a path after its first components.\<close>

lemma skip_slashed:
  assumes "SLASH \<notin> set s" "list_all comp_ok cs"
  shows "SLASH # skip_components (s @ slashed cs) (Suc n) = (if drop n cs = [] then ''/'' else slashed (drop n cs))"
  using assms
proof (induction n arbitrary: s cs)
  case 0
  have "skip_components (s @ slashed cs) (Suc 0) = drop 1 (slashed cs)"
    by (simp only: skip_components.simps takeWhile_slash [OF 0(1)])
  then show ?case by (cases cs) simp_all
next
  case (Suc n)
  have "skip_components (s @ slashed cs) (Suc (Suc n)) = skip_components (drop 1 (slashed cs)) (Suc n)"
    by (simp only: skip_components.simps takeWhile_slash [OF Suc.prems(1)])
  moreover have "skip_components [] k = []" for k by (induction k) simp_all
  ultimately show ?case
    using Suc.IH [of "hd cs" "tl cs"] Suc.prems(2) comp_ok_chars(2) [of "hd cs"] by (cases cs) simp_all
qed

text \<open>
  C34. Confinement. Whatever file system path \<open>ns_to_fs_path\<close> produces is absolute, fits the
  buffer of the caller and has only components of the grammar: no empty one and no \<^verbatim>\<open>.\<close> or \<^verbatim>\<open>..\<close>
  that could climb out of the volume.
\<close>

theorem ns_to_fs_path_confined:
  assumes "ns_to_fs_path st input mx r0 = (NS_FS_OK, Some out)"
  shows "length out < mx \<and> (out = ''/'' \<or>
    (\<exists>cs. out = concat (map (\<lambda>c. SLASH # c) cs) \<and>
       list_all (\<lambda>c. c \<noteq> [] \<and> list_all valid_char c \<and> list_ex (\<lambda>x. x \<noteq> CHR ''.'') c) cs))"
proof -
  obtain rc r where res: "ns_resolve st input r0 = (rc, r)" by force
  have rc: "rc \<noteq> -1" using assms res by (auto simp: ns_to_fs_path_def split: if_splits)
  then obtain c where c: "ns_canonical input 256 = Some c" using res
    by (cases "ns_canonical input 256") (auto simp: ns_resolve_def)
  then obtain d cs where d: "is_digit d" and cs: "list_all comp_ok cs" and cd: "c = d # slashed cs"
    by (rule ns_canonicalE) (blast intro: alias_comps_ok)
  have rcan: "r_canonical r = [d] @ slashed cs" using ns_resolve_canonical [OF c, of st r0] res cd by simp
  have "put_fs_path (r_canonical r) mx = (NS_FS_OK, Some out) \<or>
      put_fs_path (skip_components (r_canonical r) (Suc 5)) mx = (NS_FS_OK, Some out) \<or>
      put_fs_path (skip_components (r_canonical r) (Suc 1)) mx = (NS_FS_OK, Some out)"
    using assms res by (auto simp: ns_to_fs_path_def numeral_eq_Suc split: if_splits)
  then obtain tail where tail: "put_fs_path tail mx = (NS_FS_OK, Some out)"
      and alt: "tail = [d] @ slashed cs \<or> (\<exists>n. tail = skip_components ([d] @ slashed cs) (Suc n))"
    unfolding rcan by blast
  have "SLASH # skip_components ([d] @ slashed cs) (Suc n) = (if drop n cs = [] then ''/'' else slashed (drop n cs))" for n
    by (rule skip_slashed) (use digit_valid [OF d] cs in auto)
  then have "SLASH # tail = slashed ([d] # cs) \<or> (\<exists>n. SLASH # tail = (if drop n cs = [] then ''/'' else slashed (drop n cs)))"
    using alt by (metis slashed_simps(2))
  moreover have "list_all comp_ok ([d] # cs)" "list_all comp_ok (drop n cs)" for n
    using cs digit_valid [OF d] by (auto simp: comp_ok_def list_all_iff dest: in_set_dropD)
  ultimately have out: "SLASH # tail = ''/'' \<or> (\<exists>cs. SLASH # tail = slashed cs \<and> list_all comp_ok cs)"
    by (metis (full_types))
  have "NUL \<notin> set (slashed cs)" if "list_all comp_ok cs" for cs
    using that set_slashed [of NUL cs] by (auto simp: list_all_iff dest: comp_ok_chars(3))
  moreover have "NUL \<notin> set ''/''" by simp
  ultimately have "NUL \<notin> set (SLASH # tail)" using out by metis
  then have "out = SLASH # tail" "length out < mx"
    using tail by (auto simp: put_fs_path_def k_strlen_eq cstr_id split: if_splits)
  then show ?thesis using out unfolding slashed_def comp_ok_def [abs_def] by metis
qed

section \<open>Examples\<close>

definition deep_alias :: string where
  "deep_alias = ''0/hss/partitions/1/a/a/a/a/a/a/a/a/a/a/a/a/a''"

lemma deep_alias_canonical:
  "ns_canonical deep_alias 256 = Some ''0/hardware/storage/ssd/partitions/1/a/a/a/a/a/a/a/a/a/a/a/a/a''"
  "\<not> ns_parse_valid ''0/hardware/storage/ssd/partitions/1/a/a/a/a/a/a/a/a/a/a/a/a/a''"
  by code_simp+

theorem ns_canonical_idem_witness:
  "ns_canonical ''0/HMR/'' 256 = Some ''0/hardware/memory/ram'' \<and>
   ns_canonical ''0/hardware/memory/ram'' 256 = Some ''0/hardware/memory/ram'' \<and>
   ns_canonical deep_alias 256 \<noteq> None \<and> ns_canonical (the (ns_canonical deep_alias 256)) 256 = None"
proof -
  have ram: "ns_canonical ''0/HMR/'' 256 = Some ''0/hardware/memory/ram''" "ns_parse_valid ''0/hardware/memory/ram''"
    by code_simp+
  then have "ns_canonical ''0/hardware/memory/ram'' 256 = Some ''0/hardware/memory/ram''"
    using ns_canonical_idem [OF ram(1)] by auto
  moreover have "ns_canonical (the (ns_canonical deep_alias 256)) 256 = None"
    using ns_canonical_idem [OF deep_alias_canonical(1)] deep_alias_canonical by auto
  ultimately show ?thesis using ram deep_alias_canonical(1) by simp
qed

definition ssd_disk :: "unit disk" where
  "ssd_disk = one_entry_disk\<lparr>part_ready := True, disk_is_ssd_cached := True\<rparr>"

definition blank_resource :: ns_resource where
  "blank_resource = \<lparr>r_kind = NS_RESOURCE_NONE, r_domain = 0, part_index = 0, r_device = None, r_canonical = []\<rparr>"

lemma ssd_disk_device: "part_storage_device ssd_disk = Some ''ssd''"
  by (simp add: ssd_disk_def one_entry_disk_def part_storage_device_def disk_is_ready_def disk_is_ssd_def)

lemma ssd_partition_comps:
  "ns_canonical ''0/hss/partitions/3'' 256 = Some ''0/hardware/storage/ssd/partitions/3''"
  "ns_split ''0/hardware/storage/ssd/partitions/3'' 16 = [''0'', ''hardware'', ''storage'', ''ssd'', ''partitions'', ''3'']"
  "parse_index ''3'' = Some 3"
  by code_simp+

lemma ssd_partition_resolved:
  "ns_resolve ssd_disk ''0/hss/partitions/3'' blank_resource =
     (0, \<lparr>r_kind = NS_PARTITION, r_domain = 0, part_index = 3, r_device = Some ''ssd'',
          r_canonical = ''0/hardware/storage/ssd/partitions/3''\<rparr>)"
  by (simp add: ns_resolve_def ssd_partition_comps resolve_hardware_def resolve_storage_def ssd_disk_device
      streq_def set_resource_def blank_resource_def)

theorem ns_resolve_typed_witness:
  "\<exists>r. ns_resolve ssd_disk ''0/hss/partitions/3'' blank_resource = (0, r) \<and> r_kind r = NS_PARTITION \<and>
     r_device r = part_storage_device ssd_disk \<and> 1 \<le> part_index r"
  using ns_resolve_typed [OF ssd_partition_resolved] ssd_partition_resolved by (auto simp: storage_kinds_def)

lemma user_path_comps:
  "ns_canonical ''0/user/docs/a.txt'' 256 = Some ''0/user/docs/a.txt''"
  "ns_split ''0/user/docs/a.txt'' 16 = [''0'', ''user'', ''docs'', ''a.txt'']"
  "skip_components ''0/user/docs/a.txt'' 2 = ''docs/a.txt''"
  by code_simp+

lemma user_path_translated:
  "ns_to_fs_path ssd_disk ''0/user/docs/a.txt'' 64 blank_resource = (0, Some ''/docs/a.txt'')"
  by (simp add: ns_to_fs_path_def ns_resolve_def user_path_comps resolved_def set_resource_def streq_def
      put_fs_path_def is_digit_def cnth_def)

theorem ns_to_fs_path_confined_witness:
  "ns_to_fs_path ssd_disk ''0/user/docs/a.txt'' 64 blank_resource = (0, Some ''/docs/a.txt'') \<and>
   (\<exists>cs. ''/docs/a.txt'' = concat (map (\<lambda>c. SLASH # c) cs) \<and>
      list_all (\<lambda>c. c \<noteq> [] \<and> list_all valid_char c \<and> list_ex (\<lambda>x. x \<noteq> CHR ''.'') c) cs)"
  using ns_to_fs_path_confined [OF user_path_translated] user_path_translated by auto

end
