(* ===== verification/Vm.thy ===== *)
theory Vm
  imports Paging Kheap
begin

text \<open>
  \<^verbatim>\<open>src/process/vm.c\<close>: user address spaces. A space is the root of a tree of page tables in the
  physical memory of \<open>Paging\<close>; the structure that describes it is a block of the kernel heap,
  modelled by its address and its contents. \<^verbatim>\<open>fork\<close> shares the writable pages of a space and
  marks them copy-on-write; the page fault handler separates them again.

  A pointer to a page table entry is an address, 0 when it is null. \<^verbatim>\<open>invlpg\<close> has no effect on this
  state. The page fault handler reads and writes the faulting page through its user address,
  that is through the translation of the tables of the space.
\<close>

section \<open>Operations\<close>

abbreviation (input) VM_FLAG_PRESENT :: u64 where "VM_FLAG_PRESENT \<equiv> 0x01"
abbreviation (input) VM_FLAG_WRITABLE :: u64 where "VM_FLAG_WRITABLE \<equiv> 0x02"
abbreviation (input) VM_FLAG_USER :: u64 where "VM_FLAG_USER \<equiv> 0x04"
abbreviation (input) VM_FLAG_COW :: u64 where "VM_FLAG_COW \<equiv> 0x200"

record vm_space =
  vs_pml4 :: u64
  code_start :: u64
  code_end :: u64
  data_start :: u64
  data_end :: u64
  heap_start :: u64
  heap_end :: u64
  stack_top :: u64
  stack_bottom :: u64

record vms =
  vm_pg :: paging
  vm_heap :: kheap
  kernel_pml4 :: u64

text \<open>One level of \<^verbatim>\<open>get_pte\<close>: the table an entry refers to. The new table is not checked for null.\<close>

definition next_table :: "u64 \<Rightarrow> u64 \<Rightarrow> bool \<Rightarrow> paging \<Rightarrow> u64 option \<times> paging" where
  "next_table table index create s =
     (if pte_get (pg_mem s) table index AND 1 \<noteq> 0
      then (Some (pte_get (pg_mem s) table index AND PTE_ADDR), s)
      else if \<not> create then (None, s)
      else
        (let (new_table, pm) = pmm_alloc_page (pg_pmm s);
             m = zero_table new_table (pg_mem s);
             m = pte_set m table index (new_table OR VM_FLAG_PRESENT OR VM_FLAG_WRITABLE OR VM_FLAG_USER)
         in (Some (pte_get m table index AND PTE_ADDR), s\<lparr>pg_pmm := pm, pg_mem := m\<rparr>)))"

definition get_pte :: "u64 \<Rightarrow> u64 \<Rightarrow> bool \<Rightarrow> paging \<Rightarrow> u64 \<times> paging" where
  "get_pte pml4 virt create s =
     (case next_table pml4 (PML4_INDEX virt) create s of
        (None, s) \<Rightarrow> (0, s)
      | (Some pdpt, s) \<Rightarrow>
          (case next_table pdpt (PDPT_INDEX virt) create s of
             (None, s) \<Rightarrow> (0, s)
           | (Some pd, s) \<Rightarrow>
               (case next_table pd (PD_INDEX virt) create s of
                  (None, s) \<Rightarrow> (0, s)
                | (Some pt, s) \<Rightarrow> (pt + 8 * PT_INDEX virt, s))))"

definition fresh_space :: "u64 \<Rightarrow> vm_space" where
  "fresh_space pml4 =
     \<lparr>vs_pml4 = pml4, code_start = 0x400000, code_end = 0x400000, data_start = 0x800000, data_end = 0x800000,
      heap_start = 0x10000000, heap_end = 0x10000000, stack_top = 0x7FFFFFFFFFFF, stack_bottom = 0x7FFFFFFFFFFF\<rparr>"

text \<open>The address of the structure and its contents, \<open>(0, _)\<close> for null.\<close>

definition vm_create_space :: "vms \<Rightarrow> ((u64 \<times> vm_space) \<times> vms) option" where
  "vm_create_space s =
     Option.bind (kmalloc 72 (vm_heap s)) (\<lambda>(space, h).
       let s = s\<lparr>vm_heap := h\<rparr>
       in if space = 0 then Some ((0, fresh_space 0), s)
          else
            (let (pml4, pm) = pmm_alloc_page (pg_pmm (vm_pg s));
                 s = s\<lparr>vm_pg := (vm_pg s)\<lparr>pg_pmm := pm\<rparr>\<rparr>
             in if pml4 = 0
                then Option.bind (kfree space (vm_heap s)) (\<lambda>h. Some ((0, fresh_space 0), s\<lparr>vm_heap := h\<rparr>))
                else
                  (let m = zero_table pml4 (pg_mem (vm_pg s));
                       m = fold (\<lambda>i m. pte_set m pml4 (of_nat i) (pte_get m (kernel_pml4 s) (of_nat i))) [256..<512] m
                   in Some ((space, fresh_space pml4), s\<lparr>vm_pg := (vm_pg s)\<lparr>pg_mem := m\<rparr>\<rparr>))))"

text \<open>One entry of a page table in \<^verbatim>\<open>vm_clone_space\<close>.\<close>

definition clone_entry :: "u64 \<Rightarrow> u64 \<Rightarrow> u64 \<Rightarrow> paging \<Rightarrow> paging" where
  "clone_entry src_pt dst_pt l s =
     (let pte = pte_get (pg_mem s) src_pt l
      in if pte AND 1 = 0 then s
         else
           (let phys = pte AND PTE_ADDR
            in if pte AND (VM_FLAG_WRITABLE OR VM_FLAG_USER) = VM_FLAG_WRITABLE OR VM_FLAG_USER then
                 (let pm = (if pmm_ref_count phys (pg_pmm s) = 1 then pmm_ref_inc phys (pg_pmm s) else pg_pmm s);
                      pm = pmm_ref_inc phys pm;
                      pte = (pte AND NOT VM_FLAG_WRITABLE) OR VM_FLAG_COW;
                      m = pte_set (pg_mem s) src_pt l pte
                  in s\<lparr>pg_pmm := pm, pg_mem := pte_set m dst_pt l pte\<rparr>)
               else s\<lparr>pg_mem := pte_set (pg_mem s) dst_pt l pte\<rparr>))"

definition clone_pt :: "u64 \<Rightarrow> u64 \<Rightarrow> paging \<Rightarrow> bool \<times> paging" where
  "clone_pt src_pt dst_pt s = (True, fold (\<lambda>l. clone_entry src_pt dst_pt (of_nat l)) [0..<512] s)"

text \<open>The loop over the present entries of an upper table; false when a page ran out (\<^verbatim>\<open>goto fail\<close>).\<close>

fun clone_level :: "(u64 \<Rightarrow> u64 \<Rightarrow> paging \<Rightarrow> bool \<times> paging) \<Rightarrow> u64 \<Rightarrow> u64 \<Rightarrow> nat list \<Rightarrow> paging \<Rightarrow> bool \<times> paging" where
  "clone_level below src dst [] s = (True, s)"
| "clone_level below src dst (i # is) s =
     (if pte_get (pg_mem s) src (of_nat i) AND 1 = 0 then clone_level below src dst is s
      else
        (let sub = pte_get (pg_mem s) src (of_nat i) AND PTE_ADDR;
             (new, pm) = pmm_alloc_page (pg_pmm s);
             s = s\<lparr>pg_pmm := pm\<rparr>
         in if new = 0 then (False, s)
            else
              (case below sub new (s\<lparr>pg_mem := zero_table new (pg_mem s)\<rparr>) of
                 (False, s) \<Rightarrow> (False, s)
               | (True, s) \<Rightarrow>
                   clone_level below src dst is
                     (s\<lparr>pg_mem := pte_set (pg_mem s) dst (of_nat i)
                                    (new OR VM_FLAG_PRESENT OR VM_FLAG_WRITABLE OR VM_FLAG_USER)\<rparr>))))"

definition clone_pd :: "u64 \<Rightarrow> u64 \<Rightarrow> paging \<Rightarrow> bool \<times> paging" where
  "clone_pd src_pd dst_pd s = clone_level clone_pt src_pd dst_pd [0..<512] s"

definition clone_pdpt :: "u64 \<Rightarrow> u64 \<Rightarrow> paging \<Rightarrow> bool \<times> paging" where
  "clone_pdpt src_pdpt dst_pdpt s = clone_level clone_pd src_pdpt dst_pdpt [0..<512] s"

definition clone_pml4 :: "u64 \<Rightarrow> u64 \<Rightarrow> paging \<Rightarrow> bool \<times> paging" where
  "clone_pml4 src_pml4 dst_pml4 s = clone_level clone_pdpt src_pml4 dst_pml4 [0..<256] s"

definition destroy_pt :: "u64 \<Rightarrow> paging \<Rightarrow> paging" where
  "destroy_pt pt s =
     fold (\<lambda>l s.
       let pte = pte_get (pg_mem s) pt (of_nat l)
       in if pte AND 1 \<noteq> 0 then
            (let phys = pte AND PTE_ADDR; (refs, pm) = pmm_ref_dec phys (pg_pmm s)
             in s\<lparr>pg_pmm := (if refs = 0 then pmm_free_page phys pm else pm)\<rparr>)
          else s) [0..<512] s"

definition destroy_level :: "(u64 \<Rightarrow> paging \<Rightarrow> paging) \<Rightarrow> nat \<Rightarrow> u64 \<Rightarrow> paging \<Rightarrow> paging" where
  "destroy_level below n table s =
     fold (\<lambda>i s.
       let e = pte_get (pg_mem s) table (of_nat i)
       in if e AND 1 = 0 then s
          else
            (let sub = e AND PTE_ADDR; s = below sub s
             in s\<lparr>pg_pmm := pmm_free_page sub (pg_pmm s)\<rparr>)) [0..<n] s"

definition destroy_tables :: "u64 \<Rightarrow> paging \<Rightarrow> paging" where
  "destroy_tables pml4 s =
     (let s = destroy_level (destroy_level (destroy_level destroy_pt 512) 512) 256 pml4 s
      in s\<lparr>pg_pmm := pmm_free_page pml4 (pg_pmm s)\<rparr>)"

definition vm_destroy_space :: "u64 \<Rightarrow> vm_space \<Rightarrow> vms \<Rightarrow> vms option" where
  "vm_destroy_space ptr space s =
     (if ptr = 0 then Some s
      else
        (let s = s\<lparr>vm_pg := destroy_tables (vs_pml4 space) (vm_pg s)\<rparr>
         in map_option (\<lambda>h. s\<lparr>vm_heap := h\<rparr>) (kfree ptr (vm_heap s))))"

definition vm_clone_space :: "vm_space \<Rightarrow> vms \<Rightarrow> ((u64 \<times> vm_space) \<times> vms) option" where
  "vm_clone_space src s =
     Option.bind (vm_create_space s) (\<lambda>((ptr, dst), s).
       if ptr = 0 then Some ((0, dst), s)
       else
         (let (ok, pg) = clone_pml4 (vs_pml4 src) (vs_pml4 dst) (vm_pg s);
              s = s\<lparr>vm_pg := pg\<rparr>
          in if ok then Some ((ptr, src\<lparr>vs_pml4 := vs_pml4 dst\<rparr>), s)
             else map_option (\<lambda>s. ((0, dst), s)) (vm_destroy_space ptr dst s)))"

definition vm_map_page :: "vm_space \<Rightarrow> u64 \<Rightarrow> u64 \<Rightarrow> u64 \<Rightarrow> paging \<Rightarrow> int \<times> paging" where
  "vm_map_page space virt phys flags s =
     (let (pte, s) = get_pte (vs_pml4 space) virt True s
      in if pte = 0 then (-1, s)
         else (0, s\<lparr>pg_mem := wr64 (pg_mem s) pte ((phys AND PTE_ADDR) OR flags OR VM_FLAG_PRESENT)\<rparr>))"

definition vm_unmap_page :: "vm_space \<Rightarrow> u64 \<Rightarrow> paging \<Rightarrow> int \<times> paging" where
  "vm_unmap_page space virt s =
     (let (pte, s) = get_pte (vs_pml4 space) virt False s
      in if pte = 0 \<or> rd64 (pg_mem s) pte AND 1 = 0 then (-1, s)
         else (0, s\<lparr>pg_mem := wr64 (pg_mem s) pte 0\<rparr>))"

definition vm_get_physical :: "vm_space \<Rightarrow> u64 \<Rightarrow> paging \<Rightarrow> u64" where
  "vm_get_physical space virt s =
     (let (pte, s) = get_pte (vs_pml4 space) virt False s
      in if pte = 0 \<or> rd64 (pg_mem s) pte AND 1 = 0 then 0 else rd64 (pg_mem s) pte AND PTE_ADDR)"

fun alloc_pages_loop :: "vm_space \<Rightarrow> u64 \<Rightarrow> u64 \<Rightarrow> nat \<Rightarrow> paging \<Rightarrow> bool \<times> paging" where
  "alloc_pages_loop space virt flags 0 s = (True, s)"
| "alloc_pages_loop space virt flags (Suc n) s =
     (let (phys, pm) = pmm_alloc_page (pg_pmm s);
          s = s\<lparr>pg_pmm := pm\<rparr>
      in if phys = 0 then (False, s)
         else
           (let (r, s) = vm_map_page space virt phys flags s
            in if r < 0 then (False, s\<lparr>pg_pmm := pmm_free_page phys (pg_pmm s)\<rparr>)
               else alloc_pages_loop space (virt + 0x1000) flags n s))"

definition vm_alloc_pages :: "vm_space \<Rightarrow> u64 \<Rightarrow> u64 \<Rightarrow> paging \<Rightarrow> u64 \<times> vm_space \<times> paging" where
  "vm_alloc_pages space count flags s =
     (let start = heap_end space;
          sz = count * 0x1000;
          (ok, s) = alloc_pages_loop space start flags (unat count) s
      in if \<not> ok then (0, space, s) else (start, space\<lparr>heap_end := heap_end space + sz\<rparr>, s))"

fun free_pages_loop :: "vm_space \<Rightarrow> u64 \<Rightarrow> nat \<Rightarrow> paging \<Rightarrow> paging" where
  "free_pages_loop space virt 0 s = s"
| "free_pages_loop space virt (Suc n) s =
     (let phys = vm_get_physical space virt s;
          s = snd (vm_unmap_page space virt s);
          s = (if phys \<noteq> 0 then s\<lparr>pg_pmm := pmm_free_page phys (pg_pmm s)\<rparr> else s)
      in free_pages_loop space (virt + 0x1000) n s)"

definition vm_free_pages :: "vm_space \<Rightarrow> u64 \<Rightarrow> u64 \<Rightarrow> paging \<Rightarrow> paging" where
  "vm_free_pages space virt count s = free_pages_loop space virt (unat count) s"

definition vm_switch_space :: "vm_space \<Rightarrow> paging \<Rightarrow> paging" where
  "vm_switch_space space s = s\<lparr>pg_cr3 := vs_pml4 space\<rparr>"

definition vm_init :: "vms \<Rightarrow> vms" where
  "vm_init s = s\<lparr>kernel_pml4 := pg_cr3 (vm_pg s)\<rparr>"

text \<open>The state as the processor sees it while the tables of \<open>pml4\<close> are loaded.\<close>

definition as_space :: "u64 \<Rightarrow> paging \<Rightarrow> paging" where
  "as_space pml4 s = s\<lparr>pg_pml4 := pml4\<rparr>"

text \<open>The second half of \<^verbatim>\<open>vm_handle_cow_fault\<close>: the page is copied to the new frame.\<close>

definition cow_copy :: "vm_space \<Rightarrow> u64 \<Rightarrow> u64 \<Rightarrow> u64 \<Rightarrow> u64 \<Rightarrow> paging \<Rightarrow> paging" where
  "cow_copy space aligned_addr pte old_phys new_phys s =
     (let old_cr3 = pg_cr3 s;
          need_switch = (old_cr3 \<noteq> vs_pml4 space);
          s = (if need_switch then vm_switch_space space s else s);
          tmp = rd_bytes (pg_mem s) (paging_get_physical (as_space (pg_cr3 s) s) aligned_addr) 4096;
          s = s\<lparr>pg_mem := wr64 (pg_mem s) pte
                 ((new_phys AND PTE_ADDR) OR VM_FLAG_PRESENT OR VM_FLAG_USER OR VM_FLAG_WRITABLE)\<rparr>;
          s = s\<lparr>pg_mem := wr_bytes (pg_mem s) (paging_get_physical (as_space (pg_cr3 s) s) aligned_addr) tmp\<rparr>;
          s = s\<lparr>pg_pmm := snd (pmm_ref_dec old_phys (pg_pmm s))\<rparr>
      in if need_switch then s\<lparr>pg_cr3 := old_cr3\<rparr> else s)"

text \<open>\<open>space\<close> is the space of the current process, \<open>None\<close> when there is no process or it has none.\<close>

definition vm_handle_cow_fault :: "vm_space option \<Rightarrow> u64 \<Rightarrow> u64 \<Rightarrow> paging \<Rightarrow> int \<times> paging" where
  "vm_handle_cow_fault space fault_addr err_code s =
     (if err_code AND 3 \<noteq> 3 then (-1, s)
      else case space of
        None \<Rightarrow> (-1, s)
      | Some space \<Rightarrow>
          (let aligned_addr = fault_addr AND NOT 0xFFF;
               (pte, s) = get_pte (vs_pml4 space) aligned_addr False s;
               e = rd64 (pg_mem s) pte
           in if pte = 0 \<or> e AND 1 = 0 then (-1, s)
              else if e AND VM_FLAG_COW = 0 then (-1, s)
              else
                (let old_phys = e AND PTE_ADDR;
                     refs = pmm_ref_count old_phys (pg_pmm s)
                 in if refs \<le> 1
                    then (0, s\<lparr>pg_mem := wr64 (pg_mem s) pte ((e AND NOT VM_FLAG_COW) OR VM_FLAG_WRITABLE)\<rparr>)
                    else
                      (let (new_phys, pm) = pmm_alloc_page (pg_pmm s);
                           s = s\<lparr>pg_pmm := pm\<rparr>
                       in if new_phys = 0 then (-1, s)
                          else (0, cow_copy space aligned_addr pte old_phys new_phys s)))))"

section \<open>Walking to a page table entry\<close>

lemma next_table_present:
  "bit (pte_get (pg_mem s) t i) 0 \<Longrightarrow> next_table t i c s = (Some (pte_get (pg_mem s) t i AND PTE_ADDR), s)"
  by (simp add: next_table_def present_iff del: bit_0)

lemma next_table_absent:
  "\<not> bit (pte_get (pg_mem s) t i) 0 \<Longrightarrow> next_table t i False s = (None, s)"
  by (simp add: next_table_def present_iff del: bit_0)

text \<open>While pages are left, a missing table is created exactly as in \<^verbatim>\<open>paging.c\<close>.\<close>

lemma next_table_create:
  assumes "get_or_create_table t i 7 s = (r, s')" "r \<noteq> 0" "pte_get (pg_mem s') t i AND PTE_ADDR = r"
  shows "next_table t i True s = (Some r, s')"
proof (cases "pte_get (pg_mem s) t i AND PAGE_PRESENT = 0")
  case True
  obtain page pm where a: "pmm_alloc_page (pg_pmm s) = (page, pm)" by force
  have "page = r" "s' = s\<lparr>pg_pmm := pm, pg_mem := pte_set (zero_table page (pg_mem s)) t i (page OR 7)\<rparr>"
    using assms(1,2) True a by (auto simp: get_or_create_table_def Let_def split: if_splits)
  then show ?thesis using assms(3) True a by (simp add: next_table_def)
next
  case False
  then show ?thesis using assms(1) by (auto simp: next_table_def get_or_create_table_def)
qed

lemma get_pte_path:
  assumes "path_ok L s 1 P v" "pg_pml4 s = pml4"
  shows "get_pte pml4 v c s = (P 1 + 8 * PT_INDEX v, s)"
proof -
  have P4: "P 4 = pml4" using assms by (simp add: path_ok_def)
  have e: "bit (pte_get (pg_mem s) (P (Suc k)) (level_index (Suc k) v)) 0 \<and>
      pte_get (pg_mem s) (P (Suc k)) (level_index (Suc k) v) AND PTE_ADDR = P k" if "1 \<le> k" "k < 4" for k
    using assms(1) that by (simp add: path_ok_def Let_def)
  have "next_table pml4 (PML4_INDEX v) c s = (Some (P 3), s)" "next_table (P 3) (PDPT_INDEX v) c s = (Some (P 2), s)"
    "next_table (P 2) (PD_INDEX v) c s = (Some (P 1), s)"
    using e [of 3] e [of 2] e [of 1] P4 by (simp_all add: next_table_present numeral_eq_Suc level_index_def)
  then show ?thesis by (simp add: get_pte_def)
qed

lemma path_table:
  assumes "path_ok L s 1 P v"
  shows "L (P 1) = Some (1, P 2, PD_INDEX v)"
  using assms by (simp add: path_ok_def numeral_2_eq_2)

lemma pte_not_null:
  assumes "tables_ok L s" "L t = Some x" "unat i < 512"
  shows "t + 8 * i \<noteq> 0"
proof -
  obtain n p q where "x = (n, p, q)" by (cases x)
  then have t: "table_page t" using tables_okD(4) [OF assms(1)] assms(2) by blast
  then have "0 < unat t" by (simp add: table_page_def unat_gt_0)
  then have "0 < unat (t + 8 * i)" using entry_addr(1) [OF table_page_align [OF t] assms(3)] by simp
  then show ?thesis by (metis unat_0 less_irrefl)
qed

lemma next_upper_tables:
  assumes ok: "tables_ok L s" and u: "upper_tables v 7 s = (t2, s2)" and t2: "t2 \<noteq> 0"
  obtains t3 s3 where "next_table (pg_pml4 s) (PML4_INDEX v) True s = (Some t3, s3)"
    "next_table t3 (PDPT_INDEX v) True s3 = (Some t2, s2)"
proof -
  have fl: "flags_ok 7" by (simp add: flags_ok_def)
  obtain t3 s3 L3 where g3: "get_or_create_table (pg_pml4 s) (PML4_INDEX v) 7 s = (t3, s3)" and x3: "extends L s L3 s3"
    and l3: "t3 \<noteq> 0 \<Longrightarrow> L3 t3 = Some (3, pg_pml4 s, PML4_INDEX v)"
    and e3: "t3 \<noteq> 0 \<Longrightarrow> pte_get (pg_mem s3) (pg_pml4 s) (PML4_INDEX v) AND PTE_ADDR = t3"
    by (rule get_or_create_spec [where i = "PML4_INDEX v", OF ok tables_okD(2) [OF ok] _ _ fl]) auto
  have t3: "t3 \<noteq> 0" and g2: "get_or_create_table t3 (PDPT_INDEX v) 7 s3 = (t2, s2)"
    using u t2 g3 by (auto simp: upper_tables_def split: if_splits)
  have ok3: "tables_ok L3 s3" using x3 by (simp add: extends_def)
  obtain r s' where g: "get_or_create_table t3 (PDPT_INDEX v) 7 s3 = (r, s')"
    and e: "r \<noteq> 0 \<Longrightarrow> pte_get (pg_mem s') t3 (PDPT_INDEX v) AND PTE_ADDR = r"
    by (rule get_or_create_spec [where i = "PDPT_INDEX v", OF ok3 l3 [OF t3] _ _ fl]) auto
  show thesis
    using that next_table_create [OF g3 t3 e3 [OF t3]] next_table_create [OF g2 t2] g g2 e t2 by auto
qed

text \<open>With three pages left, \<^verbatim>\<open>get_pte\<close> finds or builds the path of the address.\<close>

lemma get_pte_create:
  assumes ok: "tables_ok L s" and nh: "\<not> in_huge_page s v" and av: "3 \<le> card (avail_pages (pg_pmm s))"
    and pml4: "pg_pml4 s = pml4"
  obtains P L' s1 where "get_pte pml4 v True s = (P 1 + 8 * PT_INDEX v, s1)" "extends L s L' s1" "path_ok L' s1 1 P v"
proof -
  have fl: "flags_ok 7" by (simp add: flags_ok_def)
  obtain t2 s2 L2 where u: "upper_tables v 7 s = (t2, s2)" and x2: "extends L s L2 s2"
    and o2: "t2 = 0 \<Longrightarrow> avail_pages (pg_pmm s2) = {}"
    and p2: "t2 \<noteq> 0 \<Longrightarrow> \<exists>P. path_ok L2 s2 2 P v \<and> P 2 = t2"
    and h2: "t2 \<noteq> 0 \<Longrightarrow> \<not> bit (pte_get (pg_mem s2) t2 (PD_INDEX v)) 7"
    and c2: "card (avail_pages (pg_pmm s)) \<le> card (avail_pages (pg_pmm s2)) + (if t2 = 0 then 1 else 2)"
    by (rule upper_tables_spec [OF ok fl, of v]) (use nh in blast)
  have t2: "t2 \<noteq> 0" using o2 c2 av by auto
  obtain P where P: "path_ok L2 s2 2 P v" "P 2 = t2" using p2 [OF t2] by blast
  have ok2: "tables_ok L2 s2" using x2 by (simp add: extends_def)
  have l2: "L2 t2 = Some (2, P 3, PDPT_INDEX v)"
    using P by (auto simp: path_ok_def numeral_3_eq_3 dest: spec [of _ 2])
  obtain t1 s1 L1 where g: "get_or_create_table t2 (PD_INDEX v) 7 s2 = (t1, s1)"
    and a1: "avail_pages (pg_pmm s1) = avail_pages (pg_pmm s2) - {t1}"
    and x1: "extends L2 s2 L1 s1" and o1: "t1 = 0 \<Longrightarrow> avail_pages (pg_pmm s1) = {}"
    and l1: "t1 \<noteq> 0 \<Longrightarrow> L1 t1 = Some (1, t2, PD_INDEX v)"
    and e2: "t1 \<noteq> 0 \<Longrightarrow> pte_get (pg_mem s1) t2 (PD_INDEX v) AND PTE_ADDR = t1 \<and>
        bit (pte_get (pg_mem s1) t2 (PD_INDEX v)) 0 \<and> \<not> bit (pte_get (pg_mem s1) t2 (PD_INDEX v)) 7"
    by (rule get_or_create_spec [where i = "PD_INDEX v", OF ok2 l2 _ _ fl]) (use h2 [OF t2] in auto)
  have t1: "t1 \<noteq> 0"
  proof
    assume "t1 = 0"
    then have "avail_pages (pg_pmm s2) = {}" using o1 a1 avail_no_zero [OF ok2] by simp
    then show False using c2 av t2 by simp
  qed
  have path: "path_ok L1 s1 1 (P(1 := t1)) v"
    using path_ok_extend [OF path_ok_extends [OF P(1) ok2 _ x1]] P(2) l1 [OF t1] e2 [OF t1] by simp
  have "next_table t2 (PD_INDEX v) True s2 = (Some t1, s1)"
    by (rule next_table_create [OF g t1]) (use e2 [OF t1] in blast)
  moreover have "\<exists>t3 s3. next_table pml4 (PML4_INDEX v) True s = (Some t3, s3) \<and> next_table t3 (PDPT_INDEX v) True s3 = (Some t2, s2)"
    using next_upper_tables [OF ok u t2] pml4 by metis
  ultimately have "get_pte pml4 v True s = (t1 + 8 * PT_INDEX v, s1)" by (auto simp: get_pte_def)
  then show thesis using that [of "P(1 := t1)" s1 L1] extends_trans [OF x2 x1] path by simp
qed


section \<open>The tables of a space\<close>

lemma as_space_simps [simp]:
  "pg_mem (as_space r s) = pg_mem s" "pg_pmm (as_space r s) = pg_pmm s" "pg_pml4 (as_space r s) = r"
  "pg_cr3 (as_space r s) = pg_cr3 s" "as_space r (s\<lparr>pg_mem := m\<rparr>) = (as_space r s)\<lparr>pg_mem := m\<rparr>"
  "as_space r (s\<lparr>pg_pmm := pm\<rparr>) = (as_space r s)\<lparr>pg_pmm := pm\<rparr>" "as_space (pg_pml4 s) s = s"
  "as_space r (as_space r' s) = as_space r s"
  by (simp_all add: as_space_def)

lemma next_table_as_space:
  "next_table t i c (as_space r s) = (let (x, s') = next_table t i c s in (x, as_space r s'))"
  by (simp add: next_table_def Let_def split_beta)

lemma get_pte_as_space:
  "get_pte pml4 v c (as_space r s) = (let (x, s') = get_pte pml4 v c s in (x, as_space r s'))"
  by (simp add: get_pte_def next_table_as_space Let_def split: prod.split option.split)

lemma get_pte_False_same: "snd (get_pte pml4 v False s) = s"
  by (simp add: get_pte_def next_table_def split: option.split prod.split)

lemma flag_entry_bits:
  assumes "flags AND PTE_ADDR = 0"
  shows "bit ((phys AND PTE_ADDR) OR flags OR VM_FLAG_PRESENT) 0"
    "((phys AND PTE_ADDR) OR flags OR VM_FLAG_PRESENT) AND PTE_ADDR = phys AND PTE_ADDR"
proof -
  show "bit ((phys AND PTE_ADDR) OR flags OR VM_FLAG_PRESENT) 0" by (simp add: bit_or_iff)
  have "flags AND PTE_ADDR = 0" by (rule assms)
  then show "((phys AND PTE_ADDR) OR flags OR VM_FLAG_PRESENT) AND PTE_ADDR = phys AND PTE_ADDR"
    by (simp add: bit.conj_disj_distrib2 and.assoc)
qed

lemma leaf_set_effect:
  assumes ok: "tables_ok L s" and path: "path_ok L s 1 P v"
    and x: "bit x 0"
  defines "s' \<equiv> s\<lparr>pg_mem := wr64 (pg_mem s) (P 1 + 8 * PT_INDEX v) x\<rparr>"
  shows "tables_ok L s'" "path_ok L s' 1 P v" "rd64 (pg_mem s') (P 1 + 8 * PT_INDEX v) = x"
    "paging_get_physical s' w = (if same_page w v then (x AND PTE_ADDR) + (w AND 0xFFF) else paging_get_physical s w)"
proof -
  have s': "s' = s\<lparr>pg_mem := pte_set (pg_mem s) (P 1) (level_index 1 v) x\<rparr>"
    by (simp add: s'_def pte_set_def)
  note l1 = path_table [OF path]
  show "tables_ok L s'" unfolding s' by (rule tables_ok_leaf [OF ok]) (use l1 in auto)
  show "rd64 (pg_mem s') (P 1 + 8 * PT_INDEX v) = x" by (simp add: s'_def)
  have leaf: "walk (pg_mem s') w 1 (P 1) = (x AND PTE_ADDR) + (w AND 0xFFF)" if "PT_INDEX w = PT_INDEX v"
    using that x by (simp add: s' pte_get_def pte_set_def del: bit_0)
  show "paging_get_physical s' w = (if same_page w v then (x AND PTE_ADDR) + (w AND 0xFFF) else paging_get_physical s w)"
    using leaf_translation [OF ok path, of w x] leaf unfolding s' by (auto simp: same_page_iff)
  have ent: "pte_get (pg_mem s') (P (Suc k)) (level_index (Suc k) v) = pte_get (pg_mem s) (P (Suc k)) (level_index (Suc k) v)"
    if k: "1 \<le> k" "k < 4" for k
  proof -
    have "\<exists>p q. L (P (Suc k)) = Some (Suc k, p, q)"
      using path k tables_okD(2) [OF ok] by (cases "k = 3") (auto simp: path_ok_def)
    then show ?thesis
      using l1 k tables_okD(4) [OF ok] unfolding s' by (auto simp: pte_get_set table_page_align)
  qed
  show "path_ok L s' 1 P v"
    using path ent by (simp add: path_ok_def Let_def s'_def)
qed

text \<open>An entry that \<^verbatim>\<open>get_pte\<close> finds lies at the end of the path of its address.\<close>

lemma get_pte_found:
  assumes ok: "tables_ok L s" and nh: "\<not> in_huge_page s v" and g: "get_pte (pg_pml4 s) v False s = (a, s')" and a: "a \<noteq> 0"
  obtains P where "path_ok L s 1 P v" "a = P 1 + 8 * PT_INDEX v"
proof -
  let ?e4 = "pte_get (pg_mem s) (pg_pml4 s) (PML4_INDEX v)"
  let ?e3 = "pte_get (pg_mem s) (?e4 AND PTE_ADDR) (PDPT_INDEX v)"
  let ?e2 = "pte_get (pg_mem s) (?e3 AND PTE_ADDR) (PD_INDEX v)"
  have b4: "bit ?e4 0" using g a next_table_absent by (fastforce simp: get_pte_def simp del: bit_0)
  have b3: "bit ?e3 0"
    using g a next_table_absent by (fastforce simp: get_pte_def next_table_present [OF b4] simp del: bit_0)
  have b2: "bit ?e2 0"
    using g a next_table_absent
    by (fastforce simp: get_pte_def next_table_present [OF b4] next_table_present [OF b3] simp del: bit_0)
  have aeq: "a = (?e2 AND PTE_ADDR) + 8 * PT_INDEX v"
    using g by (auto simp: get_pte_def next_table_present [OF b4] next_table_present [OF b3] next_table_present [OF b2])
  have n7: "\<not> bit ?e2 7" using nh b4 b3 by (simp add: in_huge_page_def Let_def)
  have l3: "L (?e4 AND PTE_ADDR) = Some (3, pg_pml4 s, PML4_INDEX v)"
    using tables_okD(7) [OF ok tables_okD(2) [OF ok], of "PML4_INDEX v"] b4 by simp
  have l2: "L (?e3 AND PTE_ADDR) = Some (2, ?e4 AND PTE_ADDR, PDPT_INDEX v)"
    using tables_okD(7) [OF ok l3, of "PDPT_INDEX v"] b3 by simp
  have l1: "L (?e2 AND PTE_ADDR) = Some (1, ?e3 AND PTE_ADDR, PD_INDEX v)"
    using tables_okD(7) [OF ok l2, of "PD_INDEX v"] b2 n7 by simp
  define P where "P k = (if k = 4 then pg_pml4 s else if k = 3 then ?e4 AND PTE_ADDR
    else if k = 2 then ?e3 AND PTE_ADDR else ?e2 AND PTE_ADDR)" for k :: nat
  have "1 \<le> k \<Longrightarrow> k < 4 \<Longrightarrow> k = 1 \<or> k = 2 \<or> k = 3" for k :: nat by auto
  then have "path_ok L s 1 P v"
    using l3 l2 l1 b4 b3 b2 n7
    by (fastforce simp: path_ok_def Let_def P_def numeral_2_eq_2 level_index_def simp del: bit_0)
  then show thesis using that [of P] aeq by (simp add: P_def)
qed

lemma path_translate:
  assumes path: "path_ok L s 1 P v" and e: "bit (rd64 (pg_mem s) (P 1 + 8 * PT_INDEX v)) 0" and w: "same_page w v"
  shows "paging_get_physical s w = (rd64 (pg_mem s) (P 1 + 8 * PT_INDEX v) AND PTE_ADDR) + (w AND 0xFFF)"
proof -
  have P4: "P 4 = pg_pml4 s" using path by (simp add: path_ok_def)
  have "walk (pg_mem s) w 4 (P 4) = walk (pg_mem s) w 1 (P 1)"
  proof (rule walk_on_path)
    fix j :: nat
    assume j: "1 < j" "j \<le> 4"
    then obtain k where k: "j = Suc k" "1 \<le> k" "k < 4" by (cases j) auto
    have "level_index j w = level_index j v" using w j by (simp add: same_page_iff)
    then show "let e = pte_get (pg_mem s) (P j) (level_index j w) in
       bit e 0 \<and> (j = 2 \<longrightarrow> \<not> bit e 7) \<and> e AND PTE_ADDR = P (j - 1)"
      using path k by (auto simp: path_ok_def Let_def)
  qed simp_all
  moreover have "PT_INDEX w = PT_INDEX v" using w by (simp add: same_page_def)
  ultimately show ?thesis using e by (simp add: paging_get_physical_walk P4 pte_get_def del: bit_0)
qed

lemma walk_same_tables:
  assumes ok: "tables_ok L s" and same: "\<And>t j. L t \<noteq> None \<Longrightarrow> unat j < 512 \<Longrightarrow> pte_get m' t j = pte_get (pg_mem s) t j"
  shows "L t = Some (k, p, q) \<Longrightarrow> walk m' v k t = walk (pg_mem s) v k t"
proof (induction k arbitrary: t p q)
  case (Suc k)
  show ?case
    using Suc.IH same [of t "level_index (Suc k) v"] Suc.prems tables_okD(7) [OF ok Suc.prems, of "level_index (Suc k) v"]
    by (intro walk_step_cong [OF refl]) auto
qed simp

lemma translation_same_tables:
  assumes ok: "tables_ok L s" and "\<And>t j. L t \<noteq> None \<Longrightarrow> unat j < 512 \<Longrightarrow> pte_get m' t j = pte_get (pg_mem s) t j"
  shows "paging_get_physical (s\<lparr>pg_mem := m'\<rparr>) v = paging_get_physical s v"
  using walk_same_tables [OF assms tables_okD(2) [OF ok]] by (simp add: paging_get_physical_walk)

lemma pages_apart:
  fixes a b :: u64
  assumes "unat a mod 4096 = 0" "unat b mod 4096 = 0" "a \<noteq> b"
  shows "unat a + 4096 \<le> unat b \<or> unat b + 4096 \<le> unat a"
proof -
  obtain k l where kl: "unat a = 4096 * k" "unat b = 4096 * l" using assms by (auto elim!: dvdE)
  have "k \<noteq> l" using assms(3) kl by (auto simp: word_unat_eq_iff)
  then have "k + 1 \<le> l \<or> l + 1 \<le> k" by linarith
  then show ?thesis using kl by linarith
qed

lemma pages_disjoint:
  fixes a b :: u64
  assumes "unat a mod 4096 = 0" "unat b mod 4096 = 0" "a \<noteq> b"
  shows "disjoint_ranges a 4096 b 4096"
  using pages_apart [OF assms] page_end [OF assms(1)] page_end [OF assms(2)] by (intro disjoint_ranges_nat) simp_all

lemma entry_page_disjoint:
  fixes t p j :: u64
  assumes "unat t mod 4096 = 0" "unat p mod 4096 = 0" "t \<noteq> p" "unat j < 512"
  shows "disjoint_ranges (t + 8 * j) 8 p 4096" "disjoint_ranges p 4096 (t + 8 * j) 8"
proof -
  note ea = entry_addr(1) [OF assms(1,4)]
  have b: "unat (t + 8 * j) + 8 \<le> unat t + 4096" "unat t \<le> unat (t + 8 * j)" using ea assms(4) by simp_all
  have "unat (t + 8 * j) + 8 \<le> unat p \<or> unat p + 4096 \<le> unat (t + 8 * j)"
    using pages_apart [OF assms(1-3)] b by linarith
  then show "disjoint_ranges (t + 8 * j) 8 p 4096" "disjoint_ranges p 4096 (t + 8 * j) 8"
    using page_end [OF assms(1)] page_end [OF assms(2)] b by (auto intro!: disjoint_ranges_nat)
qed

lemma page_write_table:
  assumes "unat t mod 4096 = 0" "unat p mod 4096 = 0" "t \<noteq> p" "unat j < 512" "length bs = 4096"
  shows "pte_get (wr_bytes m p bs) t j = pte_get m t j"
  using entry_page_disjoint(1) [OF assms(1-4)] assms(5) by (simp add: pte_get_def rd64_wr_bytes_disjoint)

lemma entry_write_page:
  assumes "unat t mod 4096 = 0" "unat p mod 4096 = 0" "t \<noteq> p" "unat j < 512"
  shows "rd_bytes (wr64 m (t + 8 * j) x) p 4096 = rd_bytes m p 4096"
  using entry_page_disjoint(2) [OF assms] by (simp add: wr64_def rd_wr_disjoint)

lemma tables_ok_alloc:
  assumes "tables_ok L s"
  shows "tables_ok L (s\<lparr>pg_pmm := snd (pmm_alloc_page (pg_pmm s))\<rparr>)"
  using assms pmm_pages.alloc_avail [of "pg_pmm s"] pmm_pages.alloc_ok [of "pg_pmm s"]
  unfolding tables_ok_def by auto

lemma cow_copy_eq:
  "cow_copy space al a old new s =
     (let x = (new AND PTE_ADDR) OR 7;
          tmp = rd_bytes (pg_mem s) (paging_get_physical (as_space (vs_pml4 space) s) al) 4096;
          m = wr64 (pg_mem s) a x
      in s\<lparr>pg_mem := wr_bytes m (paging_get_physical (as_space (vs_pml4 space) s\<lparr>pg_mem := m\<rparr>) al) tmp,
           pg_pmm := snd (pmm_ref_dec old (pg_pmm s))\<rparr>)"
  by (simp add: cow_copy_def vm_switch_space_def Let_def paging_get_physical_walk as_space_def)

lemma vm_get_physical_as_space: "vm_get_physical space v (as_space r s) = vm_get_physical space v s"
  by (simp add: vm_get_physical_def get_pte_as_space Let_def split: prod.split)

text \<open>
  C35. Mapping a user page. While three pages are free for tables, \<open>vm_map_page\<close> succeeds, the
  page of \<open>virt\<close> translates to the given frame in the tables of the space, \<open>vm_get_physical\<close>
  reports it, every other address translates as before and the tables form a tree again.
\<close>

theorem vm_map_page_translation:
  assumes ok: "tables_ok L (as_space (vs_pml4 space) s)" and flags: "flags AND PTE_ADDR = 0"
    and nh: "\<not> in_huge_page (as_space (vs_pml4 space) s) virt" and free: "3 \<le> unat (pmm_free_pages_count (pg_pmm s))"
  shows "\<exists>s'. vm_map_page space virt phys flags s = (0, s') \<and> (\<exists>L'. tables_ok L' (as_space (vs_pml4 space) s')) \<and>
     vm_get_physical space virt s' = phys AND PTE_ADDR \<and>
     (\<forall>v. paging_get_physical (as_space (vs_pml4 space) s') v =
        (if same_page v virt then (phys AND PTE_ADDR) + (v AND 0xFFF)
         else paging_get_physical (as_space (vs_pml4 space) s) v))"
proof -
  let ?r = "vs_pml4 space" and ?x = "(phys AND PTE_ADDR) OR flags OR 1"
  have "pmm_inv (pg_pmm s)" using tables_okD(1) [OF ok] by (simp add: pmm_ok_def)
  then have "3 \<le> card (avail_pages (pg_pmm (as_space ?r s)))" using free by (simp add: card_avail_pages)
  then obtain P L' s1 where g: "get_pte ?r virt True (as_space ?r s) = (P 1 + 8 * PT_INDEX virt, s1)"
      and ext: "extends L (as_space ?r s) L' s1" and path: "path_ok L' s1 1 P virt"
    using get_pte_create [OF ok nh _ as_space_simps(3)] by metis
  obtain t where t: "get_pte ?r virt True s = (P 1 + 8 * PT_INDEX virt, t)" and s1: "s1 = as_space ?r t"
    using g by (auto simp: get_pte_as_space Let_def split: prod.splits)
  have ok1: "tables_ok L' s1" using ext by (simp add: extends_def)
  define s' where "s' = t\<lparr>pg_mem := wr64 (pg_mem t) (P 1 + 8 * PT_INDEX virt) ?x\<rparr>"
  have "vm_map_page space virt phys flags s = (0, s')"
    using t pte_not_null [OF ok1 path_table [OF path], of "PT_INDEX virt"] by (simp add: vm_map_page_def s'_def)
  moreover note eff = leaf_set_effect [OF ok1 path flag_entry_bits(1) [OF flags], of phys]
  have as: "as_space ?r s' = s1\<lparr>pg_mem := wr64 (pg_mem s1) (P 1 + 8 * PT_INDEX virt) ?x\<rparr>"
    by (simp add: s'_def s1)
  have "vm_get_physical space virt (as_space ?r s') = phys AND PTE_ADDR"
    using get_pte_path [OF eff(2)] pte_not_null [OF ok1 path_table [OF path], of "PT_INDEX virt"] eff(3)
      flag_entry_bits [OF flags, of phys]
    unfolding as by (simp add: vm_get_physical_def s1 present_iff del: bit_0)
  moreover have "paging_get_physical s1 v = paging_get_physical (as_space ?r s) v" for v
    using ext by (simp add: extends_def)
  ultimately show ?thesis
    using eff(1,4) unfolding as [symmetric] by (auto simp: vm_get_physical_as_space flag_entry_bits(2) [OF flags])
qed

lemma get_pte_aligned: "get_pte r (v AND NOT 0xFFF) c s = get_pte r v c s"
proof -
  have "(NOT 0xFFF :: u64) = 0xFFFFFFFFFFFFF000" by simp
  then show ?thesis by (simp only: get_pte_def index_align)
qed

lemma aligned_offset: "(v AND NOT 0xFFF) AND 0xFFF = (0 :: u64)"
  by (simp add: and.assoc)

lemma same_page_aligned: "same_page (v AND NOT 0xFFF) v" "same_page w (v AND NOT 0xFFF) = same_page w v"
proof -
  have n: "(NOT 0xFFF :: u64) = 0xFFFFFFFFFFFFF000" by simp
  show "same_page (v AND NOT 0xFFF) v" "same_page w (v AND NOT 0xFFF) = same_page w v"
    unfolding n by (simp_all only: same_page_def index_align)
qed

lemma avail_ref_dec [simp]: "avail_pages (snd (pmm_ref_dec a pm)) = avail_pages pm"
  by (simp add: avail_pages_def page_free_def page_bit_def pmm_ref_dec_def Let_def)

lemma ref_dec_count:
  assumes "1 < pmm_ref_count a pm" "pmm_inv pm"
  shows "pmm_ref_count a (snd (pmm_ref_dec a pm)) = pmm_ref_count a pm - 1"
proof -
  let ?p = "a div 4096"
  have p: "?p < pmm_total_pages_count pm" using assms(1) by (auto simp: pmm_ref_count_def Let_def split: if_splits)
  then have "unat ?p < length (pmm_ref_counts pm)" using assms(2) by (simp add: pmm_inv_def word_less_nat_alt)
  moreover have c: "1 < sint (pmm_ref_counts pm ! unat ?p)" using assms(1) by (auto simp: pmm_ref_count_def Let_def split: if_splits)
  moreover have "0 < pmm_ref_counts pm ! unat ?p" using c by (cases "pmm_ref_counts pm ! unat ?p = 0") (auto simp: word_neq_0_conv)
  moreover have "sint (w - 1) = sint w - 1" if "1 < sint w" for w :: u32
    using that sint_greater_eq [of w] sint_lt [of w] by (simp add: sint_word_ariths signed_take_bit_int_eq_self)
  ultimately show ?thesis using p by (simp add: pmm_ref_count_def pmm_ref_dec_def Let_def not_le)
qed

lemma ref_alloc_count: "pmm_inv pm \<Longrightarrow> pmm_ref_count a (snd (pmm_alloc_page pm)) = pmm_ref_count a pm"
  by (cases "lowest_free pm") (simp_all add: pmm_alloc_lowest pmm_ref_count_def bitmap_set_def Let_def)

text \<open>The state after the copy, for a page whose entry is at the end of its path.\<close>

lemma cow_copy_effect:
  assumes ok: "tables_ok L (as_space r s)" and path: "path_ok L (as_space r s) 1 P v" and r: "r = vs_pml4 space"
    and e: "bit (rd64 (pg_mem s) (P 1 + 8 * PT_INDEX v)) 0" "rd64 (pg_mem s) (P 1 + 8 * PT_INDEX v) AND PTE_ADDR = old"
    and old: "unat old mod 4096 = 0" "L old = None" and new: "table_page new" "L new = None" "new \<noteq> old"
  defines "s' \<equiv> cow_copy space (v AND NOT 0xFFF) (P 1 + 8 * PT_INDEX v) old new s"
  shows "pg_pmm s' = snd (pmm_ref_dec old (pg_pmm s))" "pg_cr3 s' = pg_cr3 s"
    "rd_bytes (pg_mem s') new 4096 = rd_bytes (pg_mem s) old 4096"
    "rd_bytes (pg_mem s') old 4096 = rd_bytes (pg_mem s) old 4096"
    "rd64 (pg_mem s') (P 1 + 8 * PT_INDEX v) = new OR 7"
    "paging_get_physical (as_space r s') w =
       (if same_page w v then new + (w AND 0xFFF) else paging_get_physical (as_space r s) w)"
proof -
  define al where "al = v AND NOT 0xFFF"
  have off: "al AND 0xFFF = 0" "same_page al v"
    unfolding al_def by (rule aligned_offset, rule same_page_aligned(1))
  let ?a = "P 1 + 8 * PT_INDEX v" and ?sp = "as_space r s"
  let ?m = "wr64 (pg_mem s) ?a (new OR 7)" and ?tmp = "rd_bytes (pg_mem s) old 4096"
  have na: "new AND PTE_ADDR = new" using new(1) by (simp add: table_page_def)
  note pt = path_table [OF path]
  have al1: "unat (P 1) mod 4096 = 0" using tables_okD(4) [OF ok pt] by (rule table_page_align)
  have aln: "unat new mod 4096 = 0" using new(1) by (rule table_page_align)
  have fb: "bit (new OR 7) 0" "(new OR 7) AND PTE_ADDR = new"
    using flag_entry_bits [of 6 new] na by simp_all
  have f1: "paging_get_physical ?sp al = old"
    using path_translate [OF path, of al] e off by simp
  note eff = leaf_set_effect [OF ok path fb(1)]
  have f2: "paging_get_physical (?sp\<lparr>pg_mem := ?m\<rparr>) al = new"
    using eff(4) [of al] fb(2) off by simp
  have s': "s' = s\<lparr>pg_mem := wr_bytes ?m new ?tmp, pg_pmm := snd (pmm_ref_dec old (pg_pmm s))\<rparr>"
    using f1 f2 na r unfolding s'_def al_def [symmetric] by (simp add: cow_copy_eq Let_def)
  have mo: "rd_bytes ?m old 4096 = ?tmp" by (rule entry_write_page [OF al1 old(1)]) (use pt old(2) in auto)
  show "pg_pmm s' = snd (pmm_ref_dec old (pg_pmm s))" "pg_cr3 s' = pg_cr3 s" by (simp_all add: s')
  show "rd_bytes (pg_mem s') new 4096 = ?tmp" using rd_wr_same [of ?tmp ?m new] by (simp add: s')
  show "rd_bytes (pg_mem s') old 4096 = ?tmp"
    using mo pages_disjoint [OF old(1) aln] new(3) by (simp add: s' rd_wr_disjoint)
  have tab: "pte_get (pg_mem s') t j = pte_get ?m t j" if "L t \<noteq> None" "unat j < 512" for t j
  proof -
    have "unat t mod 4096 = 0" using that(1) tables_okD(4) [OF ok] by (auto intro: table_page_align)
    then show ?thesis using that new(2) by (auto simp: s' intro!: page_write_table [OF _ aln])
  qed
  show "rd64 (pg_mem s') ?a = new OR 7" using tab [of "P 1" "PT_INDEX v"] pt by (simp add: pte_get_def)
  have "paging_get_physical (as_space r s') w = paging_get_physical (?sp\<lparr>pg_mem := ?m\<rparr>) w"
    using translation_same_tables [OF eff(1), of "pg_mem s'" w] tab by (simp add: s' paging_get_physical_walk)
  then show "paging_get_physical (as_space r s') w =
       (if same_page w v then new + (w AND 0xFFF) else paging_get_physical ?sp w)"
    using eff(4) [of w] fb(2) by simp
qed


lemma pte_addr_aligned: "unat (x AND PTE_ADDR) mod 4096 = 0"
proof -
  have "take_bit 12 (x AND PTE_ADDR) = 0"
    by (rule bit_word_eqI, unfold bit_take_bit_iff bit_and_iff bit_PTE_ADDR) simp
  then have "(x AND PTE_ADDR) mod 4096 = 0" by (simp add: take_bit_eq_mod)
  then show ?thesis by (simp add: word_unat_eq_iff unat_mod)
qed

text \<open>The handler up to the copy.\<close>

lemma cow_fault_shared:
  assumes err: "err AND 3 = 3" and g: "get_pte (vs_pml4 space) v False s = (a, s)" "a \<noteq> 0"
    and e: "bit (rd64 (pg_mem s) a) 0" "rd64 (pg_mem s) a AND 0x200 \<noteq> 0"
    and refs: "1 < pmm_ref_count (rd64 (pg_mem s) a AND PTE_ADDR) (pg_pmm s)"
    and al: "pmm_alloc_page (pg_pmm s) = (new, pm)" "new \<noteq> 0"
  shows "vm_handle_cow_fault (Some space) v err s =
    (0, cow_copy space (v AND NOT 0xFFF) a (rd64 (pg_mem s) a AND PTE_ADDR) new (s\<lparr>pg_pmm := pm\<rparr>))"
proof -
  have "rd64 (pg_mem s) a AND 1 \<noteq> 0" using e(1) by (simp add: present_iff del: bit_0)
  then show ?thesis
    using err g e(2) refs al unfolding vm_handle_cow_fault_def Let_def get_pte_aligned by simp
qed

text \<open>
  C36. The write fault on a page that others share gives the faulting space its own copy: a
  page that was free and no longer is, with the contents of the old one, writable, mapped at
  the faulting page and nowhere else; the old page keeps its contents and loses one reference.
\<close>

theorem vm_cow_fault_separates:
  assumes ok: "tables_ok L (as_space (vs_pml4 space) s)" and nh: "\<not> in_huge_page (as_space (vs_pml4 space) s) v"
    and err: "err AND 3 = 3" and g: "get_pte (vs_pml4 space) v False s = (a, s)" "a \<noteq> 0"
    and e: "bit (rd64 (pg_mem s) a) 0" "rd64 (pg_mem s) a AND 0x200 \<noteq> 0" "rd64 (pg_mem s) a AND PTE_ADDR = old"
    and refs: "1 < pmm_ref_count old (pg_pmm s)" and free: "pmm_free_pages_count (pg_pmm s) \<noteq> 0"
    and data: "L old = None" "old \<notin> avail_pages (pg_pmm s)"
  shows "\<exists>s' new. vm_handle_cow_fault (Some space) v err s = (0, s') \<and>
     new \<in> avail_pages (pg_pmm s) \<and> new \<notin> avail_pages (pg_pmm s') \<and>
     (\<forall>w. paging_get_physical (as_space (vs_pml4 space) s') w =
        (if same_page w v then new + (w AND 0xFFF) else paging_get_physical (as_space (vs_pml4 space) s) w)) \<and>
     rd_bytes (pg_mem s') new 4096 = rd_bytes (pg_mem s) old 4096 \<and>
     rd_bytes (pg_mem s') old 4096 = rd_bytes (pg_mem s) old 4096 \<and>
     rd64 (pg_mem s') a = new OR 7 \<and>
     pmm_ref_count old (pg_pmm s') = pmm_ref_count old (pg_pmm s) - 1"
proof -
  let ?r = "vs_pml4 space" and ?pm = "snd (pmm_alloc_page (pg_pmm s))" and ?new = "fst (pmm_alloc_page (pg_pmm s))"
  have pok: "pmm_ok (pg_pmm s)" using tables_okD(1) [OF ok] by simp
  then have inv: "pmm_inv (pg_pmm s)" by (simp add: pmm_ok_def)
  have "card (avail_pages (pg_pmm s)) \<noteq> 0" using free card_avail_pages [OF inv] by (simp add: unat_eq_zero)
  then have ne: "avail_pages (pg_pmm s) \<noteq> {}" by auto
  note new = pmm_pages.alloc_some [OF pok ne]
  have n0: "?new \<noteq> 0" using pmm_pages.avail_nonzero [OF pok new] .
  have tp: "table_page ?new" by (rule avail_table_page [OF pok new])
  have Ln: "L ?new = None" using new tables_okD(5) [OF ok] by (cases "L ?new") auto
  let ?s = "s\<lparr>pg_pmm := ?pm\<rparr>"
  obtain P where path: "path_ok L (as_space ?r s) 1 P v" and a: "a = P 1 + 8 * PT_INDEX v"
    using get_pte_found [OF ok nh, of a] g by (auto simp: get_pte_as_space)
  have old: "unat old mod 4096 = 0" using pte_addr_aligned [of "rd64 (pg_mem s) a"] e(3) by simp
  have ok': "tables_ok L (as_space ?r ?s)" using tables_ok_alloc [OF ok] by simp
  have path': "path_ok L (as_space ?r ?s) 1 P v" using path by (simp add: path_ok_def)
  have ne': "?new \<noteq> old" using new data(2) by auto
  define s' where "s' = cow_copy space (v AND NOT 0xFFF) a old ?new ?s"
  have eff: "pg_pmm s' = snd (pmm_ref_dec old ?pm)"
    "rd_bytes (pg_mem s') ?new 4096 = rd_bytes (pg_mem s) old 4096"
    "rd_bytes (pg_mem s') old 4096 = rd_bytes (pg_mem s) old 4096"
    "rd64 (pg_mem s') a = ?new OR 7"
    "paging_get_physical (as_space ?r s') w =
       (if same_page w v then ?new + (w AND 0xFFF) else paging_get_physical (as_space ?r ?s) w)" for w
    using cow_copy_effect [OF ok' path' refl, of old ?new] e old data(1) tp Ln ne'
    unfolding s'_def a by (simp_all add: a del: bit_0)
  have run: "vm_handle_cow_fault (Some space) v err s = (0, s')"
    using cow_fault_shared [OF err g e(1,2), of ?new ?pm] refs e(3) n0 by (simp add: s'_def)
  have "?new \<notin> avail_pages (pg_pmm s')" using pmm_pages.alloc_avail [OF pok] eff(1) by (simp add: avail_ref_dec)
  moreover have "pmm_ref_count old (pg_pmm s') = pmm_ref_count old (pg_pmm s) - 1"
    using ref_dec_count [of old ?pm] ref_alloc_count [OF inv] refs pmm_alloc_page_inv [OF inv] eff(1) by simp
  moreover have "paging_get_physical (as_space ?r ?s) w = paging_get_physical (as_space ?r s) w" for w
    by (simp add: paging_get_physical_walk)
  ultimately show ?thesis using run new eff by (intro exI [of _ s'] exI [of _ ?new]) auto
qed

lemma ref_inc_zero:
  assumes "pmm_ref_count a pm = 0" "pmm_inv pm"
  shows "pmm_ref_count a (pmm_ref_inc a pm) \<le> 1"
proof (cases "a div 4096 < pmm_total_pages_count pm")
  case True
  have "sint (pmm_ref_counts pm ! (unat a div 4096)) = 0"
    using assms(1) True by (auto simp: pmm_ref_count_def Let_def split: if_splits)
  then have "pmm_ref_counts pm ! (unat a div 4096) = 0" by (simp add: signed_eq_0_iff)
  moreover have "unat a div 4096 < length (pmm_ref_counts pm)"
    using True assms(2) by (simp add: pmm_inv_def word_less_nat_alt)
  ultimately show ?thesis using True by (simp add: pmm_ref_count_def pmm_ref_inc_def Let_def)
qed (use assms(1) in \<open>simp add: pmm_ref_inc_def Let_def\<close>)

text \<open>The entry that \<open>fork\<close> leaves for a shared page.\<close>

lemma cow_entry_bits:
  fixes e :: u64
  assumes "bit e 0"
  defines "c \<equiv> (e AND NOT 2) OR 0x200"
  shows "c AND 1 \<noteq> 0" "c AND 0x200 \<noteq> 0" "c AND PTE_ADDR = e AND PTE_ADDR"
    "((c AND NOT 0x200) OR 2) AND PTE_ADDR = e AND PTE_ADDR" "((c AND NOT 0x200) OR 2) AND 2 \<noteq> 0"
proof -
  have one: "bit (1 :: u64) j \<longleftrightarrow> j = 0" for j by (auto simp: bit_1_iff)
  have two: "bit (2 :: u64) j \<longleftrightarrow> j = 1" for j
    using bit_push_bit_iff [of 1 "1 :: u64" j] by (auto simp: bit_1_iff)
  have cow: "bit (0x200 :: u64) j \<longleftrightarrow> j = 9" for j
    using bit_push_bit_iff [of 9 "1 :: u64" j] by (auto simp: bit_1_iff)
  have c: "bit c j \<longleftrightarrow> j < 64 \<and> (bit e j \<and> j \<noteq> 1 \<or> j = 9)" for j
    unfolding c_def bit_or_iff bit_and_iff bit_not_iff two cow by (auto dest: bit_imp_le_length)
  have d: "bit ((c AND NOT 0x200) OR 2) j \<longleftrightarrow> j < 64 \<and> (bit c j \<and> j \<noteq> 9 \<or> j = 1)" for j
    unfolding bit_or_iff bit_and_iff bit_not_iff two cow by (auto dest: bit_imp_le_length)
  show "c AND 1 \<noteq> 0" using assms(1) c [of 0] by (simp add: present_iff del: bit_0)
  show "c AND 0x200 \<noteq> 0" using c [of 9] and_exp_eq_0 [of c 9] by simp
  show "c AND PTE_ADDR = e AND PTE_ADDR"
    by (rule bit_word_eqI, unfold bit_and_iff bit_PTE_ADDR c) auto
  show "((c AND NOT 0x200) OR 2) AND PTE_ADDR = e AND PTE_ADDR"
    by (rule bit_word_eqI, unfold bit_and_iff bit_PTE_ADDR d c) auto
  show "((c AND NOT 0x200) OR 2) AND 2 \<noteq> 0"
    using d [of 1] and_exp_eq_0 [of "(c AND NOT 0x200) OR 2" 1] by simp
qed


text \<open>
  C37. A frame starts with a reference count of 0, since nothing in the kernel sets it when the
  frame is allocated. When \<open>fork\<close> shares such a frame between two tables it counts only one
  reference, so the first write fault takes the frame for unshared and makes it writable in
  place while the other table still maps it: the spaces are not isolated.
\<close>

theorem vm_cow_not_isolated:
  assumes pte: "pte_get (pg_mem s) src l AND 7 = 7" "pte_get (pg_mem s) src l AND PTE_ADDR = phys"
    and refs: "pmm_ref_count phys (pg_pmm s) = 0" "pmm_inv (pg_pmm s)"
    and tables: "unat src mod 4096 = 0" "unat dst mod 4096 = 0" "src \<noteq> dst" "unat l < 512" "src \<noteq> 0"
    and fork: "s1 = clone_entry src dst l s"
    and fault: "err AND 3 = 3" "get_pte (vs_pml4 space) v False s1 = (src + 8 * l, s1)"
  shows "\<exists>s2. vm_handle_cow_fault (Some space) v err s1 = (0, s2) \<and>
     pte_get (pg_mem s2) src l AND PTE_ADDR = phys \<and> pte_get (pg_mem s2) src l AND VM_FLAG_WRITABLE \<noteq> 0 \<and>
     pte_get (pg_mem s2) dst l AND PTE_ADDR = phys \<and> pte_get (pg_mem s2) dst l AND VM_FLAG_PRESENT \<noteq> 0"
proof -
  define e where "e = pte_get (pg_mem s) src l"
  define c where "c = (e AND NOT 2) OR 0x200"
  have b: "bit e 0" "e AND 1 \<noteq> 0" "e AND 6 = 6"
  proof -
    have "e AND 1 = (e AND 7) AND 1" "e AND 6 = (e AND 7) AND 6" by (simp_all add: and.assoc)
    then show "e AND 1 \<noteq> 0" "e AND 6 = 6" using pte(1) by (simp_all add: e_def)
    then show "bit e 0" by (simp add: present_iff del: bit_0)
  qed
  have s1: "s1 = s\<lparr>pg_pmm := pmm_ref_inc phys (pg_pmm s), pg_mem := pte_set (pte_set (pg_mem s) src l c) dst l c\<rparr>"
    using b refs(1) pte(2) unfolding fork clone_entry_def Let_def by (simp add: e_def [symmetric] c_def)
  have ent: "pte_get (pg_mem s1) src l = c" "pte_get (pg_mem s1) dst l = c"
    using tables by (simp_all add: s1 pte_get_set)
  note cb = cow_entry_bits [OF b(1), folded c_def]
  have nn: "src + 8 * l \<noteq> 0"
    using entry_addr(1) [OF tables(1,4)] tables(5) by (metis add_eq_0_iff_both_eq_0 unat_eq_zero)
  define s2 where "s2 = s1\<lparr>pg_mem := pte_set (pg_mem s1) src l ((c AND NOT 0x200) OR 2)\<rparr>"
  have ph: "c AND PTE_ADDR = phys" using cb(3) pte(2) by (simp add: e_def)
  have "pmm_ref_count phys (pg_pmm s1) \<le> 1" using ref_inc_zero [OF refs] by (simp add: s1)
  moreover have "rd64 (pg_mem s1) (src + 8 * l) = c" using ent(1) by (simp add: pte_get_def)
  ultimately have "vm_handle_cow_fault (Some space) v err s1 = (0, s2)"
    using fault nn cb ph
    unfolding vm_handle_cow_fault_def Let_def get_pte_aligned by (simp add: s2_def pte_set_def)
  moreover have "pte_get (pg_mem s2) src l = (c AND NOT 0x200) OR 2" "pte_get (pg_mem s2) dst l = c"
    using tables ent by (simp_all add: s2_def pte_get_set)
  ultimately show ?thesis using cb ph pte(2) by (simp add: e_def)
qed

section \<open>Examples\<close>

text \<open>One user page at 0x400000, in the frame 0x8000 that two spaces share; only the page 0x7000 is free.\<close>

definition shared_mem :: mem where
  "shared_mem = pte_set (pte_set (pte_set (pte_set (\<lambda>_. 0) 0x4000 0 0x8205) 0x3000 2 0x4007) 0x2000 0 0x3007) 0x1000 0 0x2007"

definition shared_pmm :: "u32 \<Rightarrow> pmm" where
  "shared_pmm refs = (pg_pmm sample_paging)
     \<lparr>pmm_bitmap := [0xFFFFFFFFFFFFFF7F], pmm_total_pages_count := 16, pmm_bitmap_size := 1,
      pmm_free_pages_count := 1, pmm_ref_counts := (replicate 16 0)[8 := refs]\<rparr>"

definition shared_state :: "u32 \<Rightarrow> paging" where
  "shared_state refs = \<lparr>pg_mem = shared_mem, pg_pmm = shared_pmm refs, pg_pml4 = 0x1000, pg_cr3 = 0x1000\<rparr>"

definition shared_levels :: levels where
  "shared_levels = [0x1000 \<mapsto> (4, 0, 0), 0x2000 \<mapsto> (3, 0x1000, 0), 0x3000 \<mapsto> (2, 0x2000, 0), 0x4000 \<mapsto> (1, 0x3000, 2)]"

lemma shared_free: "page_free (shared_pmm refs) p \<longleftrightarrow> p = 7"
proof -
  have "filter (page_free (shared_pmm 0)) [0..<16] = [7]" by code_simp
  moreover have "page_free (shared_pmm refs) p \<longleftrightarrow> p \<in> set (filter (page_free (shared_pmm 0)) [0..<16])"
    by (auto simp: page_free_def page_bit_def shared_pmm_def)
  ultimately show ?thesis by simp
qed

lemma shared_pmm_ok: "pmm_inv (shared_pmm refs)" "pmm_ok (shared_pmm refs)" "avail_pages (shared_pmm refs) = {0x7000}"
proof -
  have "{p. page_free (shared_pmm refs) p} = {7}" using shared_free by auto
  then show inv: "pmm_inv (shared_pmm refs)" by (simp add: pmm_inv_def) (simp add: shared_pmm_def)
  then show "pmm_ok (shared_pmm refs)" by (simp add: pmm_ok_def shared_free)
  show "avail_pages (shared_pmm refs) = {0x7000}"
    using shared_free by (auto simp: avail_pages_def)
qed

lemma shared_entries:
  "unat t mod 4096 = 0 \<Longrightarrow> unat j < 512 \<Longrightarrow> pte_get shared_mem t j =
     (if t = 0x1000 \<and> j = 0 then 0x2007 else if t = 0x2000 \<and> j = 0 then 0x3007
      else if t = 0x3000 \<and> j = 2 then 0x4007 else if t = 0x4000 \<and> j = 0 then 0x8205 else 0)"
  by (auto simp: shared_mem_def pte_get_set) (simp_all add: pte_get_def)

lemma shared_tables: "tables_ok shared_levels (shared_state refs)"
  using shared_pmm_ok
  by (auto simp: tables_ok_def shared_levels_def shared_state_def shared_entries table_page_def Let_def split: if_splits)

theorem vm_map_page_translation_witness:
  "\<exists>s'. vm_map_page (fresh_space 0x1000) 0x400123 0x7000 6 sample_paging = (0, s') \<and>
     vm_get_physical (fresh_space 0x1000) 0x400123 s' = 0x7000 \<and>
     paging_get_physical (as_space 0x1000 s') 0x400ABC = 0x7ABC \<and>
     paging_get_physical (as_space 0x1000 s') 0x401ABC = 0"
proof -
  have r: "vs_pml4 (fresh_space 0x1000) = 0x1000" "as_space 0x1000 sample_paging = sample_paging"
    by (simp_all add: fresh_space_def as_space_def sample_paging_def)
  have zero: "paging_get_physical sample_paging v = 0" for v
    by (simp add: paging_get_physical_def sample_paging_def pte_get_def)
  have "\<not> in_huge_page sample_paging 0x400123" "(6 :: u64) AND PTE_ADDR = 0"
    "3 \<le> unat (pmm_free_pages_count (pg_pmm sample_paging))"
    by (simp_all add: in_huge_page_def sample_paging_def pte_get_def)
  then obtain s' where "vm_map_page (fresh_space 0x1000) 0x400123 0x7000 6 sample_paging = (0, s')"
      "vm_get_physical (fresh_space 0x1000) 0x400123 s' = 0x7000 AND PTE_ADDR"
      "\<And>v. paging_get_physical (as_space 0x1000 s') v =
         (if same_page v 0x400123 then (0x7000 AND PTE_ADDR) + (v AND 0xFFF) else 0)"
    using vm_map_page_translation [of _ "fresh_space 0x1000" sample_paging 6 "0x400123" "0x7000"] sample_paging_ok
    unfolding r zero by blast
  moreover have "same_page 0x400ABC 0x400123" "\<not> same_page 0x401ABC 0x400123"
    by (simp_all add: same_page_def PML4_INDEX_def PDPT_INDEX_def PD_INDEX_def PT_INDEX_def)
  ultimately show ?thesis by auto
qed

lemma shared_pte:
  "get_pte 0x1000 0x400123 False (s\<lparr>pg_mem := m\<rparr>) = (0x4000, s\<lparr>pg_mem := m\<rparr>)"
  if "\<And>t j. t \<in> {0x1000, 0x2000, 0x3000} \<Longrightarrow> unat j < 512 \<Longrightarrow> pte_get m t j = pte_get shared_mem t j"
proof -
  have i: "PML4_INDEX 0x400123 = 0" "PDPT_INDEX 0x400123 = 0" "PD_INDEX 0x400123 = 2" "PT_INDEX 0x400123 = 0"
    by (simp_all add: PML4_INDEX_def PDPT_INDEX_def PD_INDEX_def PT_INDEX_def)
  have "pte_get m 0x1000 0 = 0x2007" "pte_get m 0x2000 0 = 0x3007" "pte_get m 0x3000 2 = 0x4007"
    using that [of "0x1000" 0] that [of "0x2000" 0] that [of "0x3000" 2] by (simp_all add: shared_entries)
  then show ?thesis by (simp add: get_pte_def next_table_def i)
qed

theorem vm_cow_fault_separates_witness:
  "\<exists>s'. vm_handle_cow_fault (Some (fresh_space 0x1000)) 0x400123 7 (shared_state 2) = (0, s') \<and>
     paging_get_physical (as_space 0x1000 s') 0x400ABC = 0x7ABC \<and>
     rd_bytes (pg_mem s') 0x7000 4096 = rd_bytes (pg_mem (shared_state 2)) 0x8000 4096 \<and>
     pmm_ref_count 0x8000 (pg_pmm s') = 1"
proof -
  have r: "vs_pml4 (fresh_space 0x1000) = 0x1000" "as_space 0x1000 (shared_state 2) = shared_state 2"
    by (simp_all add: fresh_space_def as_space_def shared_state_def)
  have g: "get_pte 0x1000 0x400123 False (shared_state 2) = (0x4000, shared_state 2)"
    using shared_pte [of shared_mem "shared_state 2"] by (simp add: shared_state_def)
  have "rd64 (pg_mem (shared_state 2)) 0x4000 = 0x8205"
    using shared_entries [of "0x4000" 0] by (simp add: pte_get_def shared_state_def)
  then have e: "bit (rd64 (pg_mem (shared_state 2)) 0x4000) 0" "rd64 (pg_mem (shared_state 2)) 0x4000 AND 0x200 \<noteq> 0"
    "rd64 (pg_mem (shared_state 2)) 0x4000 AND PTE_ADDR = 0x8000" by simp_all
  have nh: "\<not> in_huge_page (shared_state 2) 0x400123"
    by (simp add: in_huge_page_def shared_state_def shared_entries Let_def PML4_INDEX_def PDPT_INDEX_def PD_INDEX_def)
  have refs: "pmm_ref_count 0x8000 (pg_pmm (shared_state 2)) = 2" "pmm_free_pages_count (pg_pmm (shared_state 2)) \<noteq> 0"
    by (simp_all add: pmm_ref_count_def shared_state_def shared_pmm_def)
  have av: "avail_pages (pg_pmm (shared_state 2)) = {0x7000}" by (simp add: shared_state_def shared_pmm_ok)
  have data: "shared_levels 0x8000 = None" by (simp add: shared_levels_def)
  have "same_page 0x400ABC 0x400123"
    by (simp add: same_page_def PML4_INDEX_def PDPT_INDEX_def PD_INDEX_def PT_INDEX_def)
  then show ?thesis
    using vm_cow_fault_separates [of shared_levels "fresh_space 0x1000" "shared_state 2" "0x400123" 7 "0x4000" "0x8000"]
      shared_tables [of 2] nh g e refs av data
    unfolding r by fastforce
qed

definition fork_state :: paging where
  "fork_state = (shared_state 0)\<lparr>pg_mem := pte_set shared_mem 0x4000 0 0x8007\<rparr>"

theorem vm_cow_not_isolated_witness:
  "\<exists>s2. vm_handle_cow_fault (Some (fresh_space 0x1000)) 0x400123 7 (clone_entry 0x4000 0x5000 0 fork_state) = (0, s2) \<and>
     pte_get (pg_mem s2) 0x4000 0 AND PTE_ADDR = 0x8000 \<and> pte_get (pg_mem s2) 0x4000 0 AND VM_FLAG_WRITABLE \<noteq> 0 \<and>
     pte_get (pg_mem s2) 0x5000 0 AND PTE_ADDR = 0x8000"
proof -
  let ?s1 = "clone_entry 0x4000 0x5000 0 fork_state"
  have e: "pte_get (pg_mem fork_state) 0x4000 0 = 0x8007" by (simp add: fork_state_def pte_get_set)
  have "?s1 = ?s1\<lparr>pg_mem := pg_mem ?s1\<rparr>" by simp
  moreover have "get_pte 0x1000 0x400123 False (?s1\<lparr>pg_mem := pg_mem ?s1\<rparr>) = (0x4000, ?s1\<lparr>pg_mem := pg_mem ?s1\<rparr>)"
    by (rule shared_pte) (auto simp: clone_entry_def e Let_def, auto simp: fork_state_def pte_get_set)
  ultimately have g: "get_pte (vs_pml4 (fresh_space 0x1000)) 0x400123 False ?s1 = (0x4000 + 8 * 0, ?s1)"
    by (simp add: fresh_space_def)
  have "pmm_ref_count 0x8000 (pg_pmm fork_state) = 0" "pmm_inv (pg_pmm fork_state)"
    by (simp_all add: fork_state_def shared_state_def shared_pmm_ok pmm_ref_count_def) (simp add: shared_pmm_def)
  then show ?thesis
    using vm_cow_not_isolated [OF _ _ _ _ _ _ _ _ _ refl _ g, of "0x8000" 7] e by auto
qed

end
