(* ===== verification/Process.thy ===== *)
theory Process
  imports Vm Vfs_Inv
begin

text \<open>
  The life cycle of processes, the rest of \<^verbatim>\<open>src/process/process.c\<close>, with the ELF loader
  \<^verbatim>\<open>src/kernel/elf.c\<close> and the stack pointer of \<^verbatim>\<open>src/arch/tss.c\<close>.

  Kernel stacks are blocks of the kernel heap. A store to a user address goes through the page
  tables that CR3 selects; where they have no translation the kernel takes a page fault, and the
  call does not return: \<open>None\<close>, which also stands for an endless walk of a damaged heap.
  Protection bits are not consulted. The addresses of functions are arguments.
\<close>

section \<open>Kernel processes\<close>

abbreviation (input) STACK_SIZE :: u64 where "STACK_SIZE \<equiv> 16384"
abbreviation (input) PROCESS_NAME_LEN :: nat where "PROCESS_NAME_LEN \<equiv> 32"

text \<open>\<^verbatim>\<open>*--stack = v\<close>\<close>

definition push64 :: "u64 \<Rightarrow> u64 \<times> mem \<Rightarrow> u64 \<times> mem" where
  "push64 v st = (let sp = fst st - 8 in (sp, wr64 (snd st) sp v))"

definition clear_slot :: "process \<Rightarrow> process" where
  "clear_slot r = r\<lparr>pstate := PROC_STATE_UNUSED, pid := 0, fd_table := 0\<rparr>"

definition process_init :: "u64 \<Rightarrow> kheap \<Rightarrow> sched \<Rightarrow> (kheap \<times> sched) option" where
  "process_init idle_func h s =
     (let s = s\<lparr>process_table := map clear_slot (process_table s), next_pid := 1\<rparr>;
          idle = the (alloc_process s)
      in Option.bind (kmalloc STACK_SIZE h) (\<lambda>(st, h).
           let s = s\<lparr>next_pid := 2\<rparr>;
               s = upd_proc idle (\<lambda>r. r\<lparr>pid := 1,
                     pname := (pname r)[0 := CHR ''i'', 1 := CHR ''d'', 2 := CHR ''l'', 3 := CHR ''e'', 4 := NUL],
                     pstate := PROC_STATE_READY, kernel_stack := st, kernel_stack_top := st + STACK_SIZE,
                     pcontext := (pcontext r)\<lparr>rip := idle_func, cs_reg := 0x08, rflags := 0x202,
                       rsp := st + STACK_SIZE, ss_reg := 0x10\<rparr>\<rparr>) s;
               s = scheduler_init s
           in Some (h, scheduler_add idle s)))"

text \<open>The words on the stack of a new kernel process, in the order they are pushed.\<close>

definition kernel_frame :: "u64 \<Rightarrow> u64 \<Rightarrow> u64 \<Rightarrow> u64 \<Rightarrow> u64 list" where
  "kernel_frame wrapper ktop entry arg =
     [0x10, ktop, 0x202, 0x08, wrapper] @ [0, 0, 0, 0] @ [arg, entry] @ replicate 9 0"

definition new_process :: "u64 \<Rightarrow> u64 \<Rightarrow> u64 \<Rightarrow> u64 \<Rightarrow> string \<Rightarrow> u64 \<Rightarrow> u64 \<Rightarrow> process \<Rightarrow> process" where
  "new_process ktop new_pid sp wrapper name entry arg r =
     r\<lparr>kernel_stack_top := ktop, pid := new_pid,
       pname := copy_bounded (PROCESS_NAME_LEN - 1) (pname r) 0 name,
       pstate := PROC_STATE_READY, priority := 0, cpu_time := 0, wake_time := 0, fd_table := 0,
       pcontext := (pcontext r)\<lparr>rsp := sp, rip := wrapper, cs_reg := 0x08, ss_reg := 0x10,
         rflags := 0x202, rdi := entry, rsi := arg\<rparr>,
       pvm := 0\<rparr>"

definition process_create :: "u64 \<Rightarrow> string \<Rightarrow> u64 \<Rightarrow> u64 \<Rightarrow> kheap \<Rightarrow> sched \<Rightarrow> (u64 \<times> kheap \<times> sched) option" where
  "process_create wrapper name entry arg h s =
     (case alloc_process s of
        None \<Rightarrow> Some (0, h, s)
      | Some p \<Rightarrow>
          Option.bind (kmalloc STACK_SIZE h) (\<lambda>(st, h).
            let s = upd_proc p (\<lambda>r. r\<lparr>kernel_stack := st\<rparr>) s
            in if st = 0 then Some (0, h, s)
               else
                 (let ktop = st + STACK_SIZE;
                      (sp, m) = fold push64 (kernel_frame wrapper ktop entry arg) (ktop, kh_mem h);
                      new_pid = next_pid s;
                      s = s\<lparr>next_pid := new_pid + 1\<rparr>;
                      s = upd_proc p (new_process ktop new_pid sp wrapper name entry arg) s
                  in Some (new_pid, h\<lparr>kh_mem := m\<rparr>, scheduler_add p s))))"

section \<open>Stores to user addresses\<close>

definition mmu_store :: "u64 \<Rightarrow> u8 \<Rightarrow> paging \<Rightarrow> paging option" where
  "mmu_store va b s =
     (let pa = paging_get_physical (as_space (pg_cr3 s) s) va
      in if pa = 0 then None else Some (s\<lparr>pg_mem := (pg_mem s)(pa := b)\<rparr>))"

fun mmu_stores :: "u64 \<Rightarrow> u8 list \<Rightarrow> paging \<Rightarrow> paging option" where
  "mmu_stores va [] s = Some s"
| "mmu_stores va (b # bs) s = Option.bind (mmu_store va b s) (mmu_stores (va + 1) bs)"

section \<open>The ELF loader\<close>

abbreviation (input) ELF_MAGIC :: u32 where "ELF_MAGIC \<equiv> 0x464C457F"

definition e_type :: "mem \<Rightarrow> u64 \<Rightarrow> u16" where "e_type m hdr = rd16 m (hdr + 16)"
definition e_machine_id :: "mem \<Rightarrow> u64 \<Rightarrow> u16" where "e_machine_id m hdr = rd16 m (hdr + 18)"
definition e_entry :: "mem \<Rightarrow> u64 \<Rightarrow> u64" where "e_entry m hdr = rd64 m (hdr + 24)"
definition e_phoff :: "mem \<Rightarrow> u64 \<Rightarrow> u64" where "e_phoff m hdr = rd64 m (hdr + 32)"
definition e_phentsize :: "mem \<Rightarrow> u64 \<Rightarrow> u16" where "e_phentsize m hdr = rd16 m (hdr + 54)"
definition e_phnum :: "mem \<Rightarrow> u64 \<Rightarrow> u16" where "e_phnum m hdr = rd16 m (hdr + 56)"

definition p_type :: "mem \<Rightarrow> u64 \<Rightarrow> u32" where "p_type m ph = rd32 m ph"
definition p_flags :: "mem \<Rightarrow> u64 \<Rightarrow> u32" where "p_flags m ph = rd32 m (ph + 4)"
definition p_offset :: "mem \<Rightarrow> u64 \<Rightarrow> u64" where "p_offset m ph = rd64 m (ph + 8)"
definition p_vaddr :: "mem \<Rightarrow> u64 \<Rightarrow> u64" where "p_vaddr m ph = rd64 m (ph + 16)"
definition p_filesz :: "mem \<Rightarrow> u64 \<Rightarrow> u64" where "p_filesz m ph = rd64 m (ph + 32)"
definition p_memsz :: "mem \<Rightarrow> u64 \<Rightarrow> u64" where "p_memsz m ph = rd64 m (ph + 40)"

definition elf_validate :: "mem \<Rightarrow> u64 \<Rightarrow> int" where
  "elf_validate m hdr =
     (if rd32 m hdr \<noteq> ELF_MAGIC then -1
      else if m (hdr + 4) \<noteq> 2 then -1
      else if m (hdr + 5) \<noteq> 1 then -1
      else if e_type m hdr \<noteq> 2 then -1
      else if e_machine_id m hdr \<noteq> 62 then -1
      else 0)"

record elf_info =
  ei_entry :: u64
  ei_heap_start :: u64

text \<open>The pages of one segment; false when there is no page left.\<close>

fun map_segment :: "vm_space \<Rightarrow> u64 \<Rightarrow> u64 \<Rightarrow> nat \<Rightarrow> paging \<Rightarrow> bool \<times> paging" where
  "map_segment space virt flags 0 s = (True, s)"
| "map_segment space virt flags (Suc n) s =
     (let (phys, pm) = pmm_alloc_page (pg_pmm s);
          s = s\<lparr>pg_pmm := pm\<rparr>
      in if phys = 0 then (False, s)
         else map_segment space (virt + 4096) flags n (snd (vm_map_page space virt phys flags s)))"

definition zero_segment :: "u64 \<Rightarrow> u64 \<Rightarrow> paging \<Rightarrow> paging option" where
  "zero_segment start fin s =
     Option.bind (for_by 4096 start fin (\<lambda>addr so. Option.bind so (mmu_stores addr (replicate 4096 0))) (Some s)) id"

text \<open>One PT_LOAD segment: the result, the end of the segment and the new state.\<close>

definition load_segment :: "mem \<Rightarrow> u64 \<Rightarrow> u64 \<Rightarrow> vm_space \<Rightarrow> paging \<Rightarrow> (int \<times> u64 \<times> paging) option" where
  "load_segment m data ph space s =
     (let start = p_vaddr m ph AND NOT 0xFFF;
          fin = (p_vaddr m ph + p_memsz m ph + 0xFFF) AND NOT 0xFFF;
          pages = unat ((fin - start) div 4096);
          flags = VM_FLAG_USER OR VM_FLAG_PRESENT OR (if p_flags m ph AND 2 \<noteq> 0 then VM_FLAG_WRITABLE else 0);
          (ok, s) = map_segment space start flags pages s
      in if \<not> ok then Some (-1, fin, s)
         else
           Option.bind (zero_segment start fin s) (\<lambda>s.
           Option.bind (mmu_stores (p_vaddr m ph)
                          (map (\<lambda>j. m (data + p_offset m ph + of_nat j)) [0..<unat (p_filesz m ph)]) s) (\<lambda>s.
             Some (0, fin, s))))"

text \<open>The loop over the program headers; the int product of index and entry size is taken not to overflow.\<close>

fun load_segments :: "mem \<Rightarrow> u64 \<Rightarrow> vm_space \<Rightarrow> nat list \<Rightarrow> u64 \<Rightarrow> paging \<Rightarrow> (int \<times> u64 \<times> paging) option" where
  "load_segments m data space [] max_addr s = Some (0, max_addr, s)"
| "load_segments m data space (i # is) max_addr s =
     (let ph = data + e_phoff m data + of_nat (i * unat (e_phentsize m data))
      in if p_type m ph \<noteq> 1 then load_segments m data space is max_addr s
         else
           Option.bind (load_segment m data ph space s) (\<lambda>(r, fin, s).
             if r < 0 then Some (-1, max_addr, s)
             else load_segments m data space is (if fin > max_addr then fin else max_addr) s))"

text \<open>\<open>space\<close> is the space of the current process, \<open>None\<close> for a null pointer.\<close>

definition elf_load :: "mem \<Rightarrow> u64 \<Rightarrow> u64 \<Rightarrow> vm_space option \<Rightarrow> paging \<Rightarrow> (int \<times> elf_info \<times> paging) option" where
  "elf_load m data sz space s =
     (let none = \<lparr>ei_entry = 0, ei_heap_start = 0\<rparr>
      in if data = 0 \<or> sz < 64 then Some (-1, none, s)
         else if elf_validate m data < 0 then Some (-1, none, s)
         else case space of
           None \<Rightarrow> Some (-1, none, s)
         | Some space \<Rightarrow>
             Option.bind (load_segments m data space [0..<unat (e_phnum m data)] 0 s) (\<lambda>(r, max_addr, s).
               if r < 0 then Some (-1, none, s)
               else Some (0, \<lparr>ei_entry = e_entry m data, ei_heap_start = max_addr\<rparr>, s)))"

section \<open>The state of the kernel\<close>

record 'x kernel =
  kn_vfs :: "'x vfs"
  kn_mem :: mem
  kn_root :: u64
  kn_cr3 :: u64
  kn_kernel_pml4 :: u64
  kn_spaces :: "u64 \<rightharpoonup> vm_space"
  kn_tss :: u64

definition kn_sched :: "'x kernel \<Rightarrow> sched" where "kn_sched k = k_sched (kn_vfs k)"
definition kn_heap :: "'x kernel \<Rightarrow> kheap" where "kn_heap k = rf_heap (k_ram (kn_vfs k))"

definition set_sched :: "sched \<Rightarrow> 'x kernel \<Rightarrow> 'x kernel" where
  "set_sched sc k = k\<lparr>kn_vfs := (kn_vfs k)\<lparr>k_sched := sc\<rparr>\<rparr>"

definition set_heap :: "kheap \<Rightarrow> 'x kernel \<Rightarrow> 'x kernel" where
  "set_heap h k = k\<lparr>kn_vfs := (kn_vfs k)\<lparr>k_ram := (k_ram (kn_vfs k))\<lparr>rf_heap := h\<rparr>\<rparr>\<rparr>"

definition kn_paging :: "'x kernel \<Rightarrow> paging" where
  "kn_paging k = \<lparr>pg_mem = kn_mem k, pg_pmm = k_pmm (kn_vfs k), pg_pml4 = kn_root k, pg_cr3 = kn_cr3 k\<rparr>"

definition set_paging :: "paging \<Rightarrow> 'x kernel \<Rightarrow> 'x kernel" where
  "set_paging pg k = k\<lparr>kn_mem := pg_mem pg, kn_vfs := (kn_vfs k)\<lparr>k_pmm := pg_pmm pg\<rparr>, kn_root := pg_pml4 pg, kn_cr3 := pg_cr3 pg\<rparr>"

definition kn_vms :: "'x kernel \<Rightarrow> vms" where
  "kn_vms k = \<lparr>vm_pg = kn_paging k, vm_heap = kn_heap k, kernel_pml4 = kn_kernel_pml4 k\<rparr>"

definition set_vms :: "vms \<Rightarrow> 'x kernel \<Rightarrow> 'x kernel" where
  "set_vms v k = (set_heap (vm_heap v) (set_paging (vm_pg v) k))\<lparr>kn_kernel_pml4 := kernel_pml4 v\<rparr>"

text \<open>The space of the current process.\<close>

definition current_space :: "'x kernel \<Rightarrow> vm_space option" where
  "current_space k =
     (let a = process_current_vm (kn_sched k) in if a = 0 then None else kn_spaces k a)"

text \<open>The task state segment is a block of 104 bytes of the heap; \<^verbatim>\<open>rsp0\<close> is at offset 4.\<close>

definition tss_init :: "'x kernel \<Rightarrow> 'x kernel option" where
  "tss_init k =
     Option.bind (kmalloc 104 (kn_heap k)) (\<lambda>(tss, h).
       let k = (set_heap h k)\<lparr>kn_tss := tss\<rparr>
       in if tss = 0 then Some k
          else
            (let m = wr_bytes (kh_mem h) tss (replicate 104 0);
                 m = wr64 m (tss + 4) 0;
                 m = wr16 m (tss + 102) 104
             in Some (set_heap (h\<lparr>kh_mem := m\<rparr>) k)))"

definition tss_set_rsp0 :: "u64 \<Rightarrow> 'x kernel \<Rightarrow> 'x kernel" where
  "tss_set_rsp0 rsp0 k =
     (if kn_tss k \<noteq> 0
      then set_heap ((kn_heap k)\<lparr>kh_mem := wr64 (kh_mem (kn_heap k)) (kn_tss k + 4) rsp0\<rparr>) k
      else k)"

definition tss_size :: u32 where "tss_size = 104"

definition set_proc :: "nat \<Rightarrow> (process \<Rightarrow> process) \<Rightarrow> 'x kernel \<Rightarrow> 'x kernel" where
  "set_proc p f k = set_sched (upd_proc p f (kn_sched k)) k"

section \<open>User processes\<close>

text \<open>The 16 pages of the user stack, from page \<open>i\<close> on; false when there is no page left.\<close>

fun map_user_stack :: "vm_space \<Rightarrow> u64 \<Rightarrow> nat list \<Rightarrow> paging \<Rightarrow> bool \<times> paging" where
  "map_user_stack space ktop [] s = (True, s)"
| "map_user_stack space ktop (i # is) s =
     (let (phys, pm) = pmm_alloc_page (pg_pmm s);
          s = s\<lparr>pg_pmm := pm\<rparr>
      in if phys = 0 then (False, s)
         else map_user_stack space ktop is
                (snd (vm_map_page space (ktop - of_nat i * 4096) phys (VM_FLAG_USER OR VM_FLAG_PRESENT OR VM_FLAG_WRITABLE) s)))"

text \<open>The strings of \<^verbatim>\<open>argv\<close> below \<open>str_top\<close>, and the pointers to them from the last one on.\<close>

fun put_arg_strings :: "string list \<Rightarrow> u64 \<Rightarrow> paging \<Rightarrow> (u64 \<times> paging) option" where
  "put_arg_strings [] str_top s = Some (str_top, s)"
| "put_arg_strings (a # as) str_top s =
     (let str_top = str_top - of_nat (k_strlen a + 1)
      in Option.bind (mmu_stores str_top (map of_char (cstr a) @ [0]) s) (put_arg_strings as str_top))"

fun put_arg_pointers :: "string list \<Rightarrow> u64 \<Rightarrow> nat \<Rightarrow> u64 \<Rightarrow> paging \<Rightarrow> paging option" where
  "put_arg_pointers argv argv_ptrs 0 str_top s = Some s"
| "put_arg_pointers argv argv_ptrs (Suc i) str_top s =
     Option.bind (mmu_stores (argv_ptrs + 8 * of_nat i) (le_split 8 str_top) s)
       (put_arg_pointers argv argv_ptrs i (str_top + of_nat (k_strlen (argv ! i) + 1)))"

definition put_arguments :: "string list \<Rightarrow> u64 \<Rightarrow> paging \<Rightarrow> (u64 \<times> paging) option" where
  "put_arguments argv ustack s =
     (let argv = take 32 argv; argc = length argv
      in Option.bind (put_arg_strings argv ustack s) (\<lambda>(str_top, s).
           let ptr_top = str_top - of_nat ((argc + 1) * 8)
           in Option.bind (mmu_stores (ptr_top + 8 * of_nat argc) (replicate 8 0) s) (\<lambda>s.
              Option.bind (put_arg_pointers argv ptr_top argc str_top s) (\<lambda>s.
              Option.bind (mmu_stores (ptr_top - 8) (le_split 8 (of_nat argc :: u64)) s) (\<lambda>s.
                Some (ptr_top - 8, s))))))"

definition free_new_process :: "u64 \<Rightarrow> u64 \<Rightarrow> vm_space \<Rightarrow> 'x kernel \<Rightarrow> (u64 \<times> 'x kernel) option" where
  "free_new_process st ptr space k =
     Option.bind (kfree st (kn_heap k)) (\<lambda>h.
     Option.bind (vm_destroy_space ptr space (kn_vms (set_heap h k))) (\<lambda>v.
       Some (0, (set_vms v k)\<lparr>kn_spaces := (kn_spaces k)(ptr := None)\<rparr>)))"

text \<open>The last part of \<^verbatim>\<open>process_create_user\<close>, once the program is loaded.\<close>

definition start_user_process ::
  "nat \<Rightarrow> string \<Rightarrow> string list \<Rightarrow> u64 \<Rightarrow> u64 \<Rightarrow> 'x kernel \<Rightarrow> (u64 \<times> 'x kernel) option" where
  "start_user_process p name argv ustack entry k =
     (let new_pid = next_pid (kn_sched k);
          k = set_sched ((kn_sched k)\<lparr>next_pid := new_pid + 1\<rparr>) k;
          k = set_proc p (\<lambda>r. r\<lparr>pid := new_pid, pname := copy_bounded (PROCESS_NAME_LEN - 1) (pname r) 0 name,
                pstate := PROC_STATE_READY, priority := 0, cpu_time := 0, exit_code := 0, fd_table := 0\<rparr>) k
      in Option.bind (put_arguments argv ustack (kn_paging k)) (\<lambda>(final_rsp, pg).
           let k = set_paging pg k;
               ktop = kernel_stack_top (proc (kn_sched k) p);
               (sp, m) = fold push64 ([0x23, final_rsp, 0x202, 0x1B, entry] @ replicate 15 0) (ktop, kh_mem (kn_heap k));
               k = set_heap ((kn_heap k)\<lparr>kh_mem := m\<rparr>) k;
               k = set_proc p (\<lambda>r. r\<lparr>pcontext := (pcontext r)\<lparr>rsp := sp, cs_reg := 0x08, ss_reg := 0x10, rflags := 0x202\<rparr>\<rparr>) k;
               k = tss_set_rsp0 ktop k;
               k = set_sched (scheduler_add p (kn_sched k)) k
           in Some (new_pid, k)))"

text \<open>Loading the program with the tables of the new process loaded; then the old ones again.\<close>

definition load_program :: "u64 \<Rightarrow> u64 \<Rightarrow> vm_space \<Rightarrow> 'x kernel \<Rightarrow> (int \<times> elf_info \<times> 'x kernel) option" where
  "load_program elf_data elf_size space k =
     (let old_space = current_space k;
          pg = vm_switch_space space (kn_paging k)
      in Option.bind (elf_load (kh_mem (kn_heap k)) elf_data elf_size (current_space k) pg) (\<lambda>(r, info, pg).
           let pg = (case old_space of Some sp \<Rightarrow> vm_switch_space sp pg | None \<Rightarrow> pg)
           in Some (r, info, set_paging pg k)))"

text \<open>
  \<^verbatim>\<open>process_create_user\<close> in three parts: the user stack and the program, the address space, and the
  slot with the kernel stack.
\<close>

definition create_user_image ::
  "nat \<Rightarrow> string \<Rightarrow> u64 \<Rightarrow> u64 \<Rightarrow> string list \<Rightarrow> u64 \<Rightarrow> u64 \<Rightarrow> vm_space \<Rightarrow> 'x kernel \<Rightarrow> (u64 \<times> 'x kernel) option" where
  "create_user_image p name elf_data elf_size argv st ptr space k =
     (let user_stack = 0x7FFFFFFFFFFF;
          (ok, pg) = map_user_stack space user_stack [0..<16] (kn_paging k);
          k = set_paging pg k
      in if \<not> ok then free_new_process st ptr space k
         else
           (let k = set_proc p (\<lambda>r. r\<lparr>user_stack_top := user_stack\<rparr>) k
            in Option.bind (load_program elf_data elf_size space k) (\<lambda>(r, info, k).
                 if r < 0 then free_new_process st ptr space k
                 else start_user_process p name argv user_stack (ei_entry info) k)))"

definition create_user_space ::
  "nat \<Rightarrow> string \<Rightarrow> u64 \<Rightarrow> u64 \<Rightarrow> string list \<Rightarrow> u64 \<Rightarrow> 'x kernel \<Rightarrow> (u64 \<times> 'x kernel) option" where
  "create_user_space p name elf_data elf_size argv st k =
     Option.bind (vm_create_space (kn_vms k)) (\<lambda>((ptr, space), v).
       let k = set_proc p (\<lambda>r. r\<lparr>pvm := ptr\<rparr>) (set_vms v k)
       in if ptr = 0
          then map_option (\<lambda>h. (0, set_heap h k)) (kfree st (kn_heap k))
          else create_user_image p name elf_data elf_size argv st ptr space (k\<lparr>kn_spaces := (kn_spaces k)(ptr \<mapsto> space)\<rparr>))"

definition process_create_user ::
  "string \<Rightarrow> u64 \<Rightarrow> u64 \<Rightarrow> string list \<Rightarrow> 'x kernel \<Rightarrow> (u64 \<times> 'x kernel) option" where
  "process_create_user name elf_data elf_size argv k =
     (case alloc_process (kn_sched k) of
        None \<Rightarrow> Some (0, k)
      | Some p \<Rightarrow>
          Option.bind (kmalloc STACK_SIZE (kn_heap k)) (\<lambda>(st, h).
            let k = set_proc p (\<lambda>r. r\<lparr>kernel_stack := st\<rparr>) (set_heap h k)
            in if st = 0 then Some (0, k)
               else
                 (let k = set_proc p (\<lambda>r. r\<lparr>kernel_stack_top := st + STACK_SIZE\<rparr>) k
                  in create_user_space p name elf_data elf_size argv st k)))"

text \<open>\<^verbatim>\<open>process_exit\<close> halts at the end; this is the state in which it does.\<close>

definition process_exit :: "'x env \<Rightarrow> 'x kernel \<Rightarrow> 'x kernel option" where
  "process_exit E k =
     (case process_current (kn_sched k) of
        None \<Rightarrow> Some k
      | Some c \<Rightarrow>
          (let a = fd_table (proc (kn_sched k) c)
           in Option.bind (if a \<noteq> 0
                           then map_option (\<lambda>v. set_proc c (\<lambda>r. r\<lparr>fd_table := 0\<rparr>) (k\<lparr>kn_vfs := v\<rparr>))
                                  (fd_table_destroy E a (kn_vfs k))
                           else Some k) (\<lambda>k.
                Some (set_proc c (\<lambda>r. r\<lparr>pstate := PROC_STATE_ZOMBIE\<rparr>) k))))"

section \<open>Creating a kernel process\<close>

lemma unat_below: "8 * n \<le> unat (t :: u64) \<Longrightarrow> unat (t - 8 * of_nat n) = unat t - 8 * n"
proof -
  assume le: "8 * n \<le> unat t"
  have "unat t < 18446744073709551616" by simp
  with le have "8 * n < 18446744073709551616" "n < 18446744073709551616" by linarith+
  then have n: "unat (8 * of_nat n :: u64) = 8 * n"
    by (simp add: unat_word_ariths unat_of_nat)
  then show ?thesis using le by (simp add: unat_sub word_le_nat_alt)
qed

lemma push_frame:
  assumes "8 * length ws \<le> unat t"
  shows "fst (fold push64 ws (t, m)) = t - 8 * of_nat (length ws) \<and>
    (\<forall>i < length ws. rd64 (snd (fold push64 ws (t, m))) (t - 8 * of_nat (Suc i)) = ws ! i) \<and>
    (\<forall>x. unat x < unat t - 8 * length ws \<or> unat t \<le> unat x \<longrightarrow> snd (fold push64 ws (t, m)) x = m x)"
  using assms
proof (induction ws rule: rev_induct)
  case (snoc w ws)
  define r where "r = fold push64 ws (t, m)"
  define a where "a = t - 8 * of_nat (Suc (length ws))"
  have IH: "fst r = t - 8 * of_nat (length ws)" "\<And>i. i < length ws \<Longrightarrow> rd64 (snd r) (t - 8 * of_nat (Suc i)) = ws ! i"
    "\<And>x. unat x < unat t - 8 * length ws \<or> unat t \<le> unat x \<Longrightarrow> snd r x = m x"
    using snoc unfolding r_def by auto
  have a: "unat a = unat t - 8 * Suc (length ws)" "unat a + 8 + 8 * length ws = unat t"
    using snoc.prems unat_below [of "Suc (length ws)" t] by (simp_all add: a_def)
  have lt: "unat t < 18446744073709551616" by simp
  have push: "fold push64 (ws @ [w]) (t, m) = (a, wr64 (snd r) a w)"
  proof -
    have "fst r - 8 = a" by (simp add: IH(1) a_def)
    then show ?thesis by (simp add: push64_def r_def [symmetric] Let_def)
  qed
  have "rd64 (wr64 (snd r) a w) (t - 8 * of_nat (Suc i)) = ws ! i" if i: "i < length ws" for i
  proof -
    define b where "b = t - 8 * of_nat (Suc i)"
    have "unat b = unat t - 8 * Suc i" unfolding b_def using i a(2) by (intro unat_below) simp
    moreover have "8 * Suc i \<le> unat t" using i a(2) by simp
    ultimately have "unat b + 8 * Suc i = unat t" by simp
    moreover from this have "unat b + 8 \<le> unat t" "unat a + 8 \<le> unat b" using i a(2) by simp_all
    ultimately have "unat b + 8 \<le> 18446744073709551616" "unat a + 8 \<le> 18446744073709551616" "unat a + 8 \<le> unat b"
      using lt by linarith+
    then have "disjoint_ranges b 8 a 8" by (intro disjoint_ranges_nat) simp_all
    then show ?thesis using IH(2) [OF i] unfolding b_def [symmetric] by (simp only: rd64_wr64_disjoint)
  qed
  moreover have "wr64 (snd r) a w x = m x" if "unat x < unat t - 8 * Suc (length ws) \<or> unat t \<le> unat x" for x
  proof -
    have "unat a + 8 \<le> unat t" "\<not> (unat a \<le> unat x \<and> unat x < unat a + 8)"
      using that a by auto
    moreover from this have "unat a + 8 \<le> 18446744073709551616" using lt by linarith
    ultimately have "\<not> in_range x a 8" by (subst in_range_nat) simp_all
    moreover have "unat x < unat t - 8 * length ws \<or> unat t \<le> unat x" using that by arith
    ultimately show ?thesis using IH(3) [of x] by (simp add: wr64_other)
  qed
  ultimately show ?case
    unfolding push by (auto simp: nth_append less_Suc_eq a_def)
qed simp

lemma rq_next_pid [simp]: "rq (s\<lparr>next_pid := n\<rparr>) q = rq s q"
  by (rule iffI; erule rq_cong; simp add: proc_def)

lemma proc_next_pid [simp]: "proc (s\<lparr>next_pid := n\<rparr>) = proc s"
  by (simp add: proc_def fun_eq_iff)

lemma scheduler_add_next_pid [simp]: "next_pid (scheduler_add p s) = next_pid s"
  by (simp add: scheduler_add_def Let_def split: option.splits)

lemma scheduler_add_kept:
  assumes "\<And>r a b c. f (r\<lparr>pnext := a\<rparr>) = f r" "\<And>r a. f (r\<lparr>pprev := a\<rparr>) = f r" "\<And>r a. f (r\<lparr>pstate := a\<rparr>) = f r"
  shows "f (proc (scheduler_add p s) i) = f (proc s i)"
  using assms by (auto simp: scheduler_add_def Let_def proc_upd_proc split: option.splits)

lemma upd_proc_upd_proc: "upd_proc p f (upd_proc p g s) = upd_proc p (\<lambda>r. f (g r)) s"
  by (cases "p < length (process_table s)") (simp_all add: upd_proc_def list_update_beyond)

lemma upd_proc_next_pid: "(upd_proc p f s)\<lparr>next_pid := n\<rparr> = upd_proc p f (s\<lparr>next_pid := n\<rparr>)"
  by (simp add: upd_proc_def)

lemma alloc_process_Some:
  assumes "alloc_process s = Some p"
  shows "p < length (process_table s)" "pstate (proc s p) = PROC_STATE_UNUSED"
  using first_index_SomeD [OF assms [unfolded alloc_process_def]] by (simp_all add: proc_def)

lemma process_create_new:
  assumes alloc: "alloc_process s = Some p" and st: "kmalloc 16384 h = Some (st, h1)" "st \<noteq> 0"
    and bound: "unat st + 16384 < 2 ^ 64"
  obtains m where "process_create wrapper name entry arg h s =
      Some (next_pid s, h1\<lparr>kh_mem := m\<rparr>,
        scheduler_add p (upd_proc p
          (\<lambda>r. new_process (st + 16384) (next_pid s) (st + 16384 - 160) wrapper name entry arg (r\<lparr>kernel_stack := st\<rparr>))
          (s\<lparr>next_pid := next_pid s + 1\<rparr>)))"
    and "\<And>i. i < 20 \<Longrightarrow> rd64 m (st + 16384 - 8 * of_nat (Suc i)) = kernel_frame wrapper (st + 16384) entry arg ! i"
    and "\<And>x. \<not> in_range x st 16384 \<Longrightarrow> m x = kh_mem h1 x"
proof -
  define t where "t = st + 16384"
  have t: "unat t = unat st + 16384"
    using bound unat_add_u64 [of st 16384] by (simp add: t_def)
  define ws where "ws = kernel_frame wrapper t entry arg"
  have ws: "length ws = 20" by (simp add: ws_def kernel_frame_def)
  obtain sp m where fr: "fold push64 ws (t, kh_mem h1) = (sp, m)" by fastforce
  have "8 * length ws \<le> unat t" using t ws by simp
  from push_frame [OF this, of "kh_mem h1"] have pf: "sp = t - 160"
    "\<And>i. i < 20 \<Longrightarrow> rd64 m (t - 8 * of_nat (Suc i)) = ws ! i"
    "\<And>x. unat x < unat t - 160 \<or> unat t \<le> unat x \<Longrightarrow> m x = kh_mem h1 x"
    by (auto simp: fr ws)
  have "m x = kh_mem h1 x" if "\<not> in_range x st 16384" for x
    using that pf(3) [of x] t in_range_nat [of st 16384 x] bound by auto
  moreover have "process_create wrapper name entry arg h s =
      Some (next_pid s, h1\<lparr>kh_mem := m\<rparr>,
        scheduler_add p (upd_proc p
          (\<lambda>r. new_process t (next_pid s) (t - 160) wrapper name entry arg (r\<lparr>kernel_stack := st\<rparr>))
          (s\<lparr>next_pid := next_pid s + 1\<rparr>)))"
    using alloc st fr pf(1)
    by (simp add: process_create_def t_def [symmetric] ws_def [symmetric] upd_proc_upd_proc upd_proc_next_pid Let_def)
  ultimately show thesis
    using that [of m] pf(2) unfolding ws_def t_def by blast
qed

text \<open>
  C38. Creating a kernel process. When the table is full the result is 0 and nothing changes; when
  there is no memory for the stack the result is 0 and only the stack pointer of the free slot
  changes. Otherwise the result is the next process number, the process is ready at the end of
  the ready queue in the first free slot, with at most 31 characters of the name, the 20 words
  that the context switch pops stand at the top of the new stack with \<^verbatim>\<open>rsp\<close> below them, no
  memory outside the stack changes, and every other process keeps its number and state.
\<close>

theorem process_create_spec:
  assumes "rq s q" and "\<forall>i \<in> set q. pstate (proc s i) \<noteq> PROC_STATE_UNUSED"
    and "\<forall>r \<in> set (process_table s). length (pname r) = 32"
    and "kmalloc 16384 h = Some (st, h1)" and "unat st + 16384 < 2 ^ 64"
  shows "case alloc_process s of
      None \<Rightarrow> process_create wrapper name entry arg h s = Some (0, h, s)
    | Some p \<Rightarrow>
        if st = 0
        then process_create wrapper name entry arg h s = Some (0, h1, upd_proc p (\<lambda>r. r\<lparr>kernel_stack := 0\<rparr>) s)
        else \<exists>h' s'. process_create wrapper name entry arg h s = Some (next_pid s, h', s') \<and>
          rq s' (q @ [p]) \<and> next_pid s' = next_pid s + 1 \<and>
          pid (proc s' p) = next_pid s \<and> pstate (proc s' p) = PROC_STATE_READY \<and>
          cstr (pname (proc s' p)) = take 31 (cstr name) \<and>
          rsp (pcontext (proc s' p)) = st + 16384 - 160 \<and>
          (\<forall>i < 20. rd64 (kh_mem h') (st + 16384 - 8 * of_nat (Suc i)) =
             kernel_frame wrapper (st + 16384) entry arg ! i) \<and>
          (\<forall>x. \<not> in_range x st 16384 \<longrightarrow> kh_mem h' x = kh_mem h1 x) \<and>
          (\<forall>i. i \<noteq> p \<longrightarrow> pid (proc s' i) = pid (proc s i) \<and> pstate (proc s' i) = pstate (proc s i))"
proof (cases "alloc_process s")
  case None
  then show ?thesis by (simp add: process_create_def)
next
  case (Some p)
  have len: "length (process_table s) = MAX_PROCESSES" using assms(1) by (simp add: rq_def)
  then have p: "p < MAX_PROCESSES" "p \<notin> set q"
    using alloc_process_Some [OF Some] assms(2) by auto
  show ?thesis
  proof (cases "st = 0")
    case True
    then show ?thesis using Some assms(4) by (simp add: process_create_def)
  next
    case False
    define f where "f = (\<lambda>r. new_process (st + 16384) (next_pid s) (st + 16384 - 160) wrapper name entry arg (r\<lparr>kernel_stack := st\<rparr>))"
    have ff: "pid (f r) = next_pid s" "pname (f r) = copy_bounded 31 (pname r) 0 name"
        "rsp (pcontext (f r)) = st + 16384 - 160" "pnext (f r) = pnext r" "pprev (f r) = pprev r" for r
      by (simp_all add: f_def new_process_def)
    define s1 where "s1 = upd_proc p f (s\<lparr>next_pid := next_pid s + 1\<rparr>)"
    obtain m where m: "process_create wrapper name entry arg h s = Some (next_pid s, h1\<lparr>kh_mem := m\<rparr>, scheduler_add p s1)"
      "\<And>i. i < 20 \<Longrightarrow> rd64 m (st + 16384 - 8 * of_nat (Suc i)) = kernel_frame wrapper (st + 16384) entry arg ! i"
      "\<And>x. \<not> in_range x st 16384 \<Longrightarrow> m x = kh_mem h1 x"
      unfolding s1_def f_def 
      by (rule process_create_new [OF Some assms(4) False assms(5), where wrapper = wrapper and name = name and entry = entry and arg = arg]) blast
    have s1: "rq s1 q" "length (process_table s1) = MAX_PROCESSES" "next_pid s1 = next_pid s + 1"
      using assms(1) len by (simp_all add: s1_def rq_upd_proc ff)
    have pr: "proc s1 i = (if i = p then f (proc s i) else proc s i)" for i
      using p len by (auto simp: s1_def proc_upd_proc)
    have nm: "length (pname (proc s p)) = 32" using assms(3) p len by (simp add: proc_def)
    note kept = scheduler_add_kept [of pid p s1] scheduler_add_kept [of pname p s1] scheduler_add_kept [of pcontext p s1]
    show ?thesis
      using Some False m rq_add [OF s1(1) p] s1 kept nm scheduler_add_state [OF s1(2) p(1)]
      by (auto simp: pr ff cstr_copy_bounded_0)
  qed
qed

section \<open>A user process from a process without an address space\<close>

lemma kernel_fields [simp]:
  "kn_sched (set_sched sc k) = sc" "kn_sched (set_heap h k) = kn_sched k" "kn_sched (set_paging pg k) = kn_sched k"
  "kn_heap (set_sched sc k) = kn_heap k" "kn_heap (set_heap h k) = h" "kn_heap (set_paging pg k) = kn_heap k"
  "kn_paging (set_sched sc k) = kn_paging k" "kn_paging (set_heap h k) = kn_paging k" "kn_paging (set_paging pg k) = pg"
  "kn_spaces (set_sched sc k) = kn_spaces k" "kn_spaces (set_heap h k) = kn_spaces k" "kn_spaces (set_paging pg k) = kn_spaces k"
  "kn_sched (k\<lparr>kn_spaces := sp\<rparr>) = kn_sched k" "kn_heap (k\<lparr>kn_spaces := sp\<rparr>) = kn_heap k"
  "kn_paging (k\<lparr>kn_spaces := sp\<rparr>) = kn_paging k"
  "kn_kernel_pml4 (set_sched sc k) = kn_kernel_pml4 k" "kn_kernel_pml4 (set_heap h k) = kn_kernel_pml4 k"
  "kn_kernel_pml4 (set_paging pg k) = kn_kernel_pml4 k"
  by (simp_all add: kn_sched_def kn_heap_def kn_paging_def set_sched_def set_heap_def set_paging_def)

lemma kernel_vms [simp]:
  "kn_sched (set_vms v k) = kn_sched k" "kn_heap (set_vms v k) = vm_heap v" "kn_paging (set_vms v k) = vm_pg v"
  "kn_spaces (set_vms v k) = kn_spaces k"
  "vm_heap (kn_vms k) = kn_heap k" "vm_pg (kn_vms k) = kn_paging k" "kernel_pml4 (kn_vms k) = kn_kernel_pml4 k"
  by (simp_all add: set_vms_def kn_vms_def kn_sched_def kn_heap_def kn_paging_def set_heap_def set_paging_def)

lemma kernel_proc [simp]:
  "kn_sched (set_proc p f k) = upd_proc p f (kn_sched k)" "kn_heap (set_proc p f k) = kn_heap k"
  "kn_paging (set_proc p f k) = kn_paging k" "kn_spaces (set_proc p f k) = kn_spaces k"
  "kn_kernel_pml4 (set_proc p f k) = kn_kernel_pml4 k"
  by (simp_all add: set_proc_def)

lemma kernel_cr3: "kn_cr3 k = pg_cr3 (kn_paging k)" "k_pmm (kn_vfs k) = pg_pmm (kn_paging k)"
  by (simp_all add: kn_paging_def)

text \<open>Freeing two blocks.\<close>

lemma kfree_two:
  assumes inv: "heap_inv h a bs" and at: "block_at o1 bs = Some (s1, True)" "block_at o2 bs = Some (s2, True)" "o1 \<noteq> o2"
  shows "\<exists>h1 h2. kfree (of_nat (a + o1 + 24)) h = Some h1 \<and> kfree (of_nat (a + o2 + 24)) h1 = Some h2"
proof -
  obtain h1 where h1: "kfree (of_nat (a + o1 + 24)) h = Some h1" "heap_inv h1 a (coalesce (mark_free o1 bs))"
    using kfree_effect [OF inv at(1)] by blast
  have "block_at o2 (coalesce (mark_free o1 bs)) = Some (s2, True)"
    using at by (intro block_at_coalesce block_at_mark_free)
  with h1 kfree_effect [OF h1(2)] show ?thesis by blast
qed

text \<open>The operations on page tables do not load CR3.\<close>

lemma next_table_cr3 [simp]: "pg_cr3 (snd (next_table t i c s)) = pg_cr3 s"
  by (simp add: next_table_def Let_def split: prod.splits)

lemma get_pte_cr3 [simp]: "pg_cr3 (snd (get_pte t v c s)) = pg_cr3 s"
proof -
  have "pg_cr3 s' = pg_cr3 s0" if "next_table t i c s0 = (x, s')" for t i s0 x s'
    using next_table_cr3 [of t i c s0] that by simp
  then show ?thesis by (simp add: get_pte_def split: prod.splits option.splits)
qed

lemma vm_map_page_cr3 [simp]: "pg_cr3 (snd (vm_map_page space v p fl s)) = pg_cr3 s"
  using get_pte_cr3 [of "vs_pml4 space" v True s]
  by (cases "get_pte (vs_pml4 space) v True s") (simp add: vm_map_page_def del: get_pte_cr3)

lemma map_user_stack_cr3 [simp]: "pg_cr3 (snd (map_user_stack space t is s)) = pg_cr3 s"
  by (induction "is" arbitrary: s) (simp_all add: Let_def split: prod.splits)

lemma fold_cr3: "(\<And>i s. pg_cr3 (f i s) = pg_cr3 s) \<Longrightarrow> pg_cr3 (fold f is s) = pg_cr3 s"
  by (induction "is" arbitrary: s) simp_all

lemma destroy_pt_cr3: "pg_cr3 (destroy_pt t s) = pg_cr3 s"
  unfolding destroy_pt_def by (rule fold_cr3) (simp add: Let_def split: prod.splits)

lemma destroy_level_cr3:
  "(\<And>t s. pg_cr3 (below t s) = pg_cr3 s) \<Longrightarrow> pg_cr3 (destroy_level below n t s) = pg_cr3 s"
  unfolding destroy_level_def by (rule fold_cr3) (simp add: Let_def)

lemma destroy_tables_cr3: "pg_cr3 (destroy_tables t s) = pg_cr3 s"
  by (simp add: destroy_tables_def Let_def destroy_level_cr3 destroy_pt_cr3)

text \<open>A page and three tables for each page of the stack are enough.\<close>

definition room :: "nat \<Rightarrow> paging \<Rightarrow> bool" where
  "room n s \<longleftrightarrow> pmm_ok (pg_pmm s) \<and> n \<le> card (avail_pages (pg_pmm s))"

lemma room_alloc:
  assumes "room (Suc n) s" "pmm_alloc_page (pg_pmm s) = (a, pm)"
  shows "a \<noteq> 0" "pmm_ok pm \<and> n \<le> card (avail_pages pm)"
proof -
  have ok: "pmm_ok (pg_pmm s)" and c: "Suc n \<le> card (avail_pages (pg_pmm s))" using assms(1) by (simp_all add: room_def)
  then have ne: "avail_pages (pg_pmm s) \<noteq> {}" by auto
  show "a \<noteq> 0" using pmm_pages.alloc_zero_iff [OF ok] ne assms(2) by simp
  have "card (avail_pages pm) = card (avail_pages (pg_pmm s)) - 1"
    using pmm_pages.alloc_avail [OF ok] pmm_pages.alloc_some [OF ok ne] pmm_pages.avail_finite [OF ok] assms(2) by simp
  moreover have "pmm_ok pm" using pmm_pages.alloc_ok [OF ok] assms(2) by simp
  ultimately show "pmm_ok pm \<and> n \<le> card (avail_pages pm)" using c by simp
qed

lemma room_mono: "room n s \<Longrightarrow> m \<le> n \<Longrightarrow> room m s"
  by (simp add: room_def)

lemma room_mem [simp]: "room n (s\<lparr>pg_mem := m\<rparr>) = room n s"
  by (simp add: room_def)

lemma room_next_table:
  assumes "room (Suc n) s" "next_table t i c s = (x, s')"
  shows "room n s'"
proof -
  obtain a pm where al: "pmm_alloc_page (pg_pmm s) = (a, pm)" by fastforce
  show ?thesis
    using assms(2) room_alloc(2) [OF assms(1) al] room_mono [OF assms(1), of n] al
    by (auto simp: next_table_def room_def Let_def split: if_splits)
qed

lemma room_get_pte:
  assumes "room (n + 3) s"
  shows "room n (snd (get_pte t v c s))"
proof -
  obtain x1 s1 where 1: "next_table t (PML4_INDEX v) c s = (x1, s1)" by fastforce
  obtain x2 s2 where 2: "next_table (the x1) (PDPT_INDEX v) c s1 = (x2, s2)" by fastforce
  obtain x3 s3 where 3: "next_table (the x2) (PD_INDEX v) c s2 = (x3, s3)" by fastforce
  have r1: "room (n + 2) s1" using room_next_table [OF _ 1, of "n + 2"] assms by (simp add: numeral_eq_Suc)
  have r2: "room (n + 1) s2" using room_next_table [OF _ 2, of "n + 1"] r1 by (simp add: numeral_eq_Suc)
  have r3: "room n s3" using room_next_table [OF _ 3, of n] r2 by simp
  have "snd (get_pte t v c s) \<in> {s1, s2, s3}"
    using 1 2 3 by (auto simp: get_pte_def split: option.splits)
  then show ?thesis
    using room_mono [OF r1, of n] room_mono [OF r2, of n] r3 by auto
qed

lemma room_vm_map_page:
  assumes "room (n + 3) s"
  shows "room n (snd (vm_map_page space v p fl s))"
  using room_get_pte [OF assms, of "vs_pml4 space" v True]
  by (cases "get_pte (vs_pml4 space) v True s") (simp add: vm_map_page_def)

lemma room_user_stack: "room (4 * length is) s \<Longrightarrow> fst (map_user_stack space t is s)"
proof (induction "is" arbitrary: s)
  case (Cons i "is")
  obtain a pm where al: "pmm_alloc_page (pg_pmm s) = (a, pm)" by fastforce
  have "room (Suc (4 * length is + 3)) s" using Cons.prems by simp
  note ra = room_alloc [OF this al]
  then have "room (4 * length is + 3) (s\<lparr>pg_pmm := pm\<rparr>)" by (simp add: room_def)
  from Cons.IH [OF room_vm_map_page [OF this]] ra(1) show ?case by (simp add: al Let_def)
qed simp

lemma load_program_none:
  assumes "current_space k = None"
  shows "\<exists>info. load_program d sz space k = Some (-1, info, set_paging (vm_switch_space space (kn_paging k)) k)"
  by (simp add: load_program_def assms elf_load_def Let_def)

text \<open>The heap after an allocation: null, or a block that was not allocated before.\<close>

lemma kmalloc_cases:
  assumes inv: "heap_inv h a bs" and sz: "0 < sz" "unat sz + 15 < 2 ^ 64" and loose: "loose_fit (round16 (unat sz)) bs"
  obtains (none) "kmalloc sz h = Some (0, h)" "first_fit (round16 (unat sz)) bs = None"
  | (new) h' off n where "kmalloc sz h = Some (of_nat (a + off + 24), h')" "of_nat (a + off + 24) \<noteq> (0 :: u64)"
      "heap_inv h' a (take_fit (round16 (unat sz)) bs)" "block_at off (take_fit (round16 (unat sz)) bs) = Some (n, True)"
      "\<And>off' n'. block_at off' bs = Some (n', True) \<Longrightarrow>
         block_at off' (take_fit (round16 (unat sz)) bs) = Some (n', True) \<and> off' \<noteq> off"
proof (cases "first_fit (round16 (unat sz)) bs")
  case None
  then show thesis using none kmalloc_effect [OF assms] by simp
next
  case (Some fs)
  obtain off s where ff: "first_fit (round16 (unat sz)) bs = Some (off, s)" using Some by (cases fs) simp
  obtain h' where h': "kmalloc sz h = Some (of_nat (a + off + 24), h')" "heap_inv h' a (take_fit (round16 (unat sz)) bs)"
    using kmalloc_effect [OF assms] unfolding ff option.case prod.case by blast
  note at = block_at_take_fit [OF ff]
  have "off + 24 + s \<le> extent bs" "0 < s" "a + extent bs \<le> 2 ^ 64" "0 < a"
    using first_fit_bounds [OF ff] inv round16_bounds(1) [of "unat sz"] sz(1)
    by (auto simp: heap_inv_def word_less_nat_alt)
  then have nz: "of_nat (a + off + 24) \<noteq> (0 :: u64)" by (subst of_nat_u64_zero) auto
  have "off' \<noteq> off" if "block_at off' bs = Some (n', True)" for off' n'
    using at(3) [OF that] by auto
  then show thesis using new [OF h'(1) nz h'(2) at(1)] at(2) by blast
qed

lemma vm_create_space_cases:
  assumes inv: "heap_inv (vm_heap s) a bs" and loose: "loose_fit 80 bs"
  obtains (none) v sp bs' where "vm_create_space s = Some ((0, sp), v)" "heap_inv (vm_heap v) a bs'"
      "\<And>off n. block_at off bs = Some (n, True) \<Longrightarrow> block_at off bs' = Some (n, True)"
      "first_fit 80 bs = None \<or> fst (pmm_alloc_page (pg_pmm (vm_pg s))) = 0"
  | (new) v off n where
      "vm_create_space s = Some ((of_nat (a + off + 24), fresh_space (fst (pmm_alloc_page (pg_pmm (vm_pg s))))), v)"
      "of_nat (a + off + 24) \<noteq> (0 :: u64)" "heap_inv (vm_heap v) a (take_fit 80 bs)"
      "block_at off (take_fit 80 bs) = Some (n, True)"
      "\<And>off' n'. block_at off' bs = Some (n', True) \<Longrightarrow> block_at off' (take_fit 80 bs) = Some (n', True) \<and> off' \<noteq> off"
      "pg_pmm (vm_pg v) = snd (pmm_alloc_page (pg_pmm (vm_pg s)))"
proof -
  have r: "round16 (unat (72 :: u64)) = 80" by (simp add: round16_def)
  show thesis
  proof (rule kmalloc_cases [OF inv, of 72, unfolded r])
    assume "kmalloc 72 (vm_heap s) = Some (0, vm_heap s)" "first_fit 80 bs = None"
    then show thesis using inv by (intro none [of "fresh_space 0" s bs]) (simp_all add: vm_create_space_def del: upt_rec_numeral)
  next
    fix h' off n
    assume k: "kmalloc 72 (vm_heap s) = Some (of_nat (a + off + 24), h')" "of_nat (a + off + 24) \<noteq> (0 :: u64)"
      and h': "heap_inv h' a (take_fit 80 bs)" "block_at off (take_fit 80 bs) = Some (n, True)"
      and old: "\<And>off' n'. block_at off' bs = Some (n', True) \<Longrightarrow>
         block_at off' (take_fit 80 bs) = Some (n', True) \<and> off' \<noteq> off"
    define ptr :: u64 where "ptr = of_nat (a + off + 24)"
    note k' = k [folded ptr_def]
    obtain pml4 pm where al: "pmm_alloc_page (pg_pmm (vm_pg s)) = (pml4, pm)" by fastforce
    obtain h2 where h2: "kfree ptr h' = Some h2" "heap_inv h2 a (coalesce (mark_free off (take_fit 80 bs)))"
      using kfree_effect [OF h'] unfolding ptr_def by blast
    show thesis
    proof (cases "pml4 = 0")
      case True
      have "vm_create_space s = Some ((0, fresh_space 0), s\<lparr>vm_heap := h2, vm_pg := (vm_pg s)\<lparr>pg_pmm := pm\<rparr>\<rparr>)"
        using k' al True h2(1) by (simp add: vm_create_space_def del: upt_rec_numeral)
      moreover have "block_at off' (coalesce (mark_free off (take_fit 80 bs))) = Some (n', True)"
        if "block_at off' bs = Some (n', True)" for off' n'
        using old [OF that] block_at_mark_free [OF h'(2)] by (auto intro: block_at_coalesce)
      ultimately show thesis
        using h2(2) al True 
        by (intro none [of "fresh_space 0" "s\<lparr>vm_heap := h2, vm_pg := (vm_pg s)\<lparr>pg_pmm := pm\<rparr>\<rparr>"
              "coalesce (mark_free off (take_fit 80 bs))"]) simp_all
    next
      case False
      then obtain v where "vm_create_space s = Some ((ptr, fresh_space pml4), v)" "vm_heap v = h'" "pg_pmm (vm_pg v) = pm"
        using k' al by (simp add: vm_create_space_def Let_def del: upt_rec_numeral)
      then show thesis
        using h' old k(2) al by (intro new [of off v n]) (simp_all add: ptr_def)
    qed
  qed (use loose in simp_all)
qed


lemma free_new_process_returns:
  assumes "heap_inv (kn_heap k) a bs" "block_at o1 bs = Some (n1, True)" "block_at o2 bs = Some (n2, True)" "o1 \<noteq> o2"
    and ptr: "ptr = of_nat (a + o2 + 24)" "ptr \<noteq> 0"
  shows "\<exists>k'. free_new_process (of_nat (a + o1 + 24)) ptr space k = Some (0, k') \<and> kn_sched k' = kn_sched k \<and>
    kn_paging k' = destroy_tables (vs_pml4 space) (kn_paging k)"
proof -
  obtain h1 h2 where "kfree (of_nat (a + o1 + 24)) (kn_heap k) = Some h1" "kfree ptr h1 = Some h2"
    using kfree_two [OF assms(1-4)] unfolding ptr by blast
  then show ?thesis
    using ptr(2) by (simp add: free_new_process_def vm_destroy_space_def)
qed

text \<open>What a failed call leaves of the scheduler: no process is added.\<close>

definition not_started :: "sched \<Rightarrow> sched \<Rightarrow> bool" where
  "not_started s s' \<longleftrightarrow> next_pid s' = next_pid s \<and> ready_queue s' = ready_queue s \<and>
     ready_queue_tail s' = ready_queue_tail s \<and>
     (\<forall>i. pid (proc s' i) = pid (proc s i) \<and> pstate (proc s' i) = pstate (proc s i) \<and> pnext (proc s' i) = pnext (proc s i))"

lemma not_started_upd:
  assumes "\<And>r. pid (f r) = pid r" "\<And>r. pstate (f r) = pstate r" "\<And>r. pnext (f r) = pnext r"
  shows "not_started s (upd_proc p f s') = not_started s s'"
proof -
  have "pid (proc (upd_proc p f s') i) = pid (proc s' i)" "pstate (proc (upd_proc p f s') i) = pstate (proc s' i)"
    "pnext (proc (upd_proc p f s') i) = pnext (proc s' i)" for i
    using assms by (simp_all add: proc_upd_proc)
  then show ?thesis by (simp add: not_started_def)
qed

lemma not_started_refl [simp]: "not_started s s"
  by (simp add: not_started_def)

lemma current_space_none:
  assumes "\<And>c. current_process (kn_sched k) = Some c \<Longrightarrow> pvm (proc (kn_sched k) c) = 0"
  shows "current_space k = None"
  using assms by (simp add: current_space_def process_current_vm_def process_current_def split: option.splits)

lemma create_user_image_fails:
  assumes inv: "heap_inv (kn_heap k) a bs" "block_at o1 bs = Some (n1, True)" "block_at o2 bs = Some (n2, True)" "o1 \<noteq> o2"
    and ptr: "ptr = of_nat (a + o2 + 24)" "ptr \<noteq> 0" and st: "st = of_nat (a + o1 + 24)"
    and cur: "\<And>c. current_process (kn_sched k) = Some c \<Longrightarrow> pvm (proc (kn_sched k) c) = 0"
  shows "\<exists>k'. create_user_image p name elf_data elf_size argv st ptr space k = Some (0, k') \<and>
    not_started (kn_sched k) (kn_sched k') \<and>
    (room 64 (kn_paging k) \<longrightarrow> kn_cr3 k' = vs_pml4 space \<and> (\<exists>pm. k_pmm (kn_vfs k') = pmm_free_page (vs_pml4 space) pm))"
proof -
  obtain ok pg where stk: "map_user_stack space 0x7FFFFFFFFFFF [0..<16] (kn_paging k) = (ok, pg)" by fastforce
  have ok: "ok" if "room 64 (kn_paging k)"
    using room_user_stack [of "[0..<16]" "kn_paging k" space "0x7FFFFFFFFFFF"] that stk by (simp del: upt_rec_numeral)
  define k1 where "k1 = set_proc p (\<lambda>r. r\<lparr>user_stack_top := 0x7FFFFFFFFFFF\<rparr>) (set_paging pg k)"
  define k2 where "k2 = set_paging (vm_switch_space space (kn_paging k1)) k1"
  have "current_space k1 = None"
    using cur by (intro current_space_none) (simp add: k1_def proc_upd_proc)
  then obtain info where info: "load_program elf_data elf_size space k1 = Some (-1, info, k2)"
    using load_program_none [of k1 elf_data elf_size space] unfolding k2_def by blast
  obtain k' where k': "free_new_process st ptr space (set_paging pg k) = Some (0, k')" "kn_sched k' = kn_sched k"
    using free_new_process_returns [of "set_paging pg k", OF _ inv(2-4) ptr, of space] inv(1) by (auto simp: st)
  obtain k'' where k'': "free_new_process st ptr space k2 = Some (0, k'')" "kn_sched k'' = kn_sched k2"
      "kn_paging k'' = destroy_tables (vs_pml4 space) (kn_paging k2)"
    using free_new_process_returns [of k2, OF _ inv(2-4) ptr, of space] inv(1) by (auto simp: k2_def k1_def st)
  have "not_started (kn_sched k) (kn_sched k'')"
    by (simp add: k''(2) k2_def k1_def not_started_upd)
  moreover have "kn_cr3 k'' = vs_pml4 space" "\<exists>pm. k_pmm (kn_vfs k'') = pmm_free_page (vs_pml4 space) pm"
    by (auto simp: kernel_cr3 k''(3) destroy_tables_cr3 k2_def vm_switch_space_def)
      (auto simp: destroy_tables_def Let_def simp del: upt_rec_numeral)
  ultimately show ?thesis
    using ok info k'(1,2) k''(1)
    by (cases ok) (auto simp: create_user_image_def stk k1_def [symmetric] simp del: upt_rec_numeral)
qed

lemma room_after_root:
  fixes s s' :: paging
  assumes "pmm_ok (pg_pmm s)" "65 \<le> card (avail_pages (pg_pmm s))" "pg_pmm s' = snd (pmm_alloc_page (pg_pmm s))"
  shows "room 64 s'" "fst (pmm_alloc_page (pg_pmm s)) \<noteq> 0"
  using room_alloc [of 64 s "fst (pmm_alloc_page (pg_pmm s))" "snd (pmm_alloc_page (pg_pmm s))"] assms
  by (simp_all add: room_def)

lemma create_user_space_fails:
  assumes h: "heap_inv (kn_heap k) a bs" "loose_fit 80 bs" "block_at o1 bs = Some (n1, True)" "st = of_nat (a + o1 + 24)"
    and cur: "\<And>c. current_process (kn_sched k) = Some c \<Longrightarrow> pvm (proc (kn_sched k) c) = 0" "current_process (kn_sched k) \<noteq> Some p"
  shows "\<exists>k'. create_user_space p name elf_data elf_size argv st k = Some (0, k') \<and> not_started (kn_sched k) (kn_sched k') \<and>
    (first_fit 80 bs \<noteq> None \<and> pmm_ok (k_pmm (kn_vfs k)) \<and> 65 \<le> card (avail_pages (k_pmm (kn_vfs k))) \<longrightarrow>
       kn_cr3 k' = fst (pmm_alloc_page (k_pmm (kn_vfs k))) \<and>
       (\<exists>pm. k_pmm (kn_vfs k') = pmm_free_page (kn_cr3 k') pm))"
proof (rule vm_create_space_cases [of "kn_vms k" a bs])
  fix v sp bs'
  assume v: "vm_create_space (kn_vms k) = Some ((0, sp), v)" "heap_inv (vm_heap v) a bs'"
    "\<And>off n. block_at off bs = Some (n, True) \<Longrightarrow> block_at off bs' = Some (n, True)"
    and why: "first_fit 80 bs = None \<or> fst (pmm_alloc_page (pg_pmm (vm_pg (kn_vms k)))) = 0"
  obtain h2 where "kfree st (vm_heap v) = Some h2"
    using kfree_effect [OF v(2) v(3) [OF h(3)]] unfolding h(4) by blast
  moreover have "\<not> (first_fit 80 bs \<noteq> None \<and> pmm_ok (k_pmm (kn_vfs k)) \<and> 65 \<le> card (avail_pages (k_pmm (kn_vfs k))))"
    using why room_after_root(2)
      [of "kn_paging k" "(kn_paging k)\<lparr>pg_pmm := snd (pmm_alloc_page (pg_pmm (kn_paging k)))\<rparr>"] by (auto simp: kernel_cr3)
  ultimately show ?thesis using v(1) by (auto simp: create_user_space_def not_started_upd)
next
  fix v o2 n2
  assume v: "vm_create_space (kn_vms k) =
      Some ((of_nat (a + o2 + 24), fresh_space (fst (pmm_alloc_page (pg_pmm (vm_pg (kn_vms k)))))), v)"
      "of_nat (a + o2 + 24) \<noteq> (0 :: u64)" "heap_inv (vm_heap v) a (take_fit 80 bs)"
      "block_at o2 (take_fit 80 bs) = Some (n2, True)"
    and old: "\<And>off' n'. block_at off' bs = Some (n', True) \<Longrightarrow> block_at off' (take_fit 80 bs) = Some (n', True) \<and> off' \<noteq> o2"
    and pm: "pg_pmm (vm_pg v) = snd (pmm_alloc_page (pg_pmm (vm_pg (kn_vms k))))"
  define ptr :: u64 where "ptr = of_nat (a + o2 + 24)"
  define space where "space = fresh_space (fst (pmm_alloc_page (k_pmm (kn_vfs k))))"
  define k1 where "k1 = (set_proc p (\<lambda>r. r\<lparr>pvm := ptr\<rparr>) (set_vms v k))\<lparr>kn_spaces := (kn_spaces k)(ptr \<mapsto> space)\<rparr>"
  have k1: "kn_heap k1 = vm_heap v" "kn_paging k1 = vm_pg v" "not_started (kn_sched k) s = not_started (kn_sched k1) s"
    "\<And>c. current_process (kn_sched k1) = Some c \<Longrightarrow> pvm (proc (kn_sched k1) c) = 0" for s
    using cur by (auto simp: k1_def not_started_def proc_upd_proc)
  have "create_user_space p name elf_data elf_size argv st k = create_user_image p name elf_data elf_size argv st ptr space k1"
    using v(1,2) by (simp add: create_user_space_def ptr_def space_def k1_def kernel_cr3)
  moreover have "vs_pml4 space = fst (pmm_alloc_page (k_pmm (kn_vfs k)))" by (simp add: space_def fresh_space_def)
  moreover have "room 64 (kn_paging k1)"
    if "pmm_ok (k_pmm (kn_vfs k))" "65 \<le> card (avail_pages (k_pmm (kn_vfs k)))"
    using room_after_root(1) [of "kn_paging k" "kn_paging k1"] that pm by (simp add: kernel_cr3 k1)
  ultimately show ?thesis
    using create_user_image_fails [of k1 a "take_fit 80 bs" o1 n1 o2 n2 ptr st p name elf_data elf_size argv space]
      old [OF h(3)] v k1 h(4) by (auto simp: ptr_def)
qed (use h in simp_all)


section \<open>Witnesses\<close>

definition big_heap :: kheap where
  "big_heap = snd (the (kheap_init 0x10000 0x8000 sample_paging
     \<lparr>kh_mem = (\<lambda>_. 0), heap_first = 0, bytes_used = 0, bytes_free = 0\<rparr>))"

lemma big_heap_inv: "heap_inv big_heap 0x10000 [(0x7FE8, False)]"
proof -
  obtain pg' h' where "kheap_init 0x10000 0x8000 sample_paging
      \<lparr>kh_mem = (\<lambda>_. 0), heap_first = 0, bytes_used = 0, bytes_free = 0\<rparr> = Some (pg', h')"
    "heap_inv h' (unat (0x10000 :: u64)) [(unat (0x8000 :: u64) - 24, False)]"
    by (rule kheap_init_returns [of "0x10000" "0x8000"]) simp_all
  then show ?thesis by (simp add: big_heap_def)
qed

lemma big_heap_fit:
  "first_fit 16384 [(0x7FE8, False)] = Some (0, 0x7FE8)" "loose_fit 16384 [(0x7FE8, False)]"
  "first_fit 80 (take_fit 16384 [(0x7FE8, False)]) \<noteq> None" "loose_fit 80 (take_fit 16384 [(0x7FE8, False)])"
  by (simp_all add: loose_fit_def)

lemma big_heap_stack: obtains h where "kmalloc 16384 big_heap = Some (0x10018, h)"
  using kmalloc_effect [OF big_heap_inv, of 16384] big_heap_fit by (auto simp: round16_def)

definition named_process :: process where
  "named_process = blank_process\<lparr>pname := replicate 32 NUL\<rparr>"

definition first_sched :: sched where
  "first_sched =
     \<lparr>process_table = (replicate 64 named_process)[0 := named_process\<lparr>pid := 1, pstate := PROC_STATE_RUNNING\<rparr>],
      ready_queue = None, ready_queue_tail = None, current_process = Some 0, schedule_needed = 0,
      time_slice_counter = 0, system_ticks = 0, next_pid = 2\<rparr>"

lemma first_sched_facts:
  "rq first_sched []" "alloc_process first_sched = Some 1" "\<forall>r \<in> set (process_table first_sched). length (pname r) = 32"
proof -
  show "rq first_sched []" by (simp add: rq_def first_sched_def)
  show "alloc_process first_sched = Some 1" by code_simp
  show "\<forall>r \<in> set (process_table first_sched). length (pname r) = 32" by code_simp
qed

theorem process_create_spec_witness:
  "\<exists>h' s'. process_create 0x1234 ''shell'' 0x5000 7 big_heap first_sched = Some (2, h', s') \<and> rq s' [1] \<and>
     cstr (pname (proc s' 1)) = ''shell'' \<and> rsp (pcontext (proc s' 1)) = 0x13F78"
proof -
  obtain h where "kmalloc 16384 big_heap = Some (0x10018, h)" by (rule big_heap_stack)
  moreover have "next_pid first_sched = 2" by (simp add: first_sched_def)
  ultimately show ?thesis
    using process_create_spec [OF first_sched_facts(1) _ first_sched_facts(3), of big_heap "0x10018" h "0x1234" "''shell''" "0x5000" 7]
    unfolding first_sched_facts(2) option.case
    by (simp add: cstr_def) (metis (no_types))
qed

definition roomy_pmm :: pmm where
  "roomy_pmm = (pg_pmm sample_paging)
     \<lparr>pmm_bitmap := [0xF, 0], pmm_total_pages_count := 128, pmm_bitmap_size := 2, pmm_free_pages_count := 124,
      pmm_ref_counts := replicate 128 0\<rparr>"

lemma roomy_free: "{p. page_free roomy_pmm p} = {4..<128}"
proof -
  have "{p. page_free roomy_pmm p} = set (filter (page_free roomy_pmm) [0..<128])"
    by (auto simp: page_free_def roomy_pmm_def simp del: upt_rec_numeral)
  also have "filter (page_free roomy_pmm) [0..<128] = [4..<128]" by code_simp
  finally show ?thesis by (simp del: upt_rec_numeral)
qed

lemma roomy_pmm_ok: "pmm_ok roomy_pmm" "card (avail_pages roomy_pmm) = 124" "fst (pmm_alloc_page roomy_pmm) = 0x4000"
proof -
  have inv: "pmm_inv roomy_pmm"
    unfolding pmm_inv_def roomy_free by (simp add: roomy_pmm_def)
  have "0 \<notin> {p. page_free roomy_pmm p}" unfolding roomy_free by simp
  with inv show ok: "pmm_ok roomy_pmm" by (simp add: pmm_ok_def)
  have "inj_on (\<lambda>p. of_nat p * 4096 :: u64) {4..<128}"
    by (rule inj_onI) (auto simp: word_unat_eq_iff unat_word_ariths unat_of_nat)
  then show "card (avail_pages roomy_pmm) = 124"
    unfolding avail_pages_def roomy_free by (simp add: card_image)
  show "fst (pmm_alloc_page roomy_pmm) = 0x4000" by code_simp
qed

definition first_kernel :: "unit kernel" where
  "first_kernel =
     \<lparr>kn_vfs = blank_vfs\<lparr>k_sched := first_sched, k_pmm := roomy_pmm, k_ram := (k_ram blank_vfs)\<lparr>rf_heap := big_heap\<rparr>\<rparr>,
      kn_mem = (\<lambda>_. 0), kn_root = 0x1000, kn_cr3 = 0x1000, kn_kernel_pml4 = 0x1000, kn_spaces = (\<lambda>_. None), kn_tss = 0\<rparr>"

lemma first_kernel_parts: "kn_sched first_kernel = first_sched" "kn_heap first_kernel = big_heap" "k_pmm (kn_vfs first_kernel) = roomy_pmm"
  by (simp_all add: first_kernel_def kn_sched_def kn_heap_def)


end
