(* ===== verification/Syscall.thy ===== *)
theory Syscall
  imports Process
begin

text \<open>
  The system calls, \<^verbatim>\<open>src/kernel/sys.c\<close>.

  A call that only concerns processes is a function on the scheduler's state, the others are
  functions on the state of the kernel. What a user pointer points to is an argument: the string
  or the bytes at the address. What a call stores at a user pointer is part of its result.
\<close>

section \<open>Processes\<close>

text \<open>A 64-bit process number returned as \<^verbatim>\<open>int\<close>.\<close>

definition int_of_pid :: "u64 \<Rightarrow> int" where
  "int_of_pid p = sint (ucast p :: u32)"

definition sys_exit :: "sched \<Rightarrow> int \<times> sched" where
  "sys_exit s =
     (case process_current s of
        None \<Rightarrow> (0, s)
      | Some c \<Rightarrow> (0, scheduler_reschedule (upd_proc c (\<lambda>r. r\<lparr>pstate := PROC_STATE_ZOMBIE\<rparr>) s)))"

definition sys_yield :: "sched \<Rightarrow> int \<times> sched" where
  "sys_yield s = (0, process_yield s)"

definition sys_sleep :: "u64 \<Rightarrow> sched \<Rightarrow> int \<times> sched" where
  "sys_sleep ms s = (0, process_sleep ms s)"

definition sys_getpid :: "sched \<Rightarrow> int" where
  "sys_getpid s = (case process_current s of Some c \<Rightarrow> int_of_pid (pid (proc s c)) | None \<Rightarrow> 0)"

text \<open>The second component is the exit status for the caller, when a process was found.\<close>

definition sys_wait :: "sched \<Rightarrow> int \<times> int option \<times> sched" where
  "sys_wait s =
     (case process_current s of
        None \<Rightarrow> (-1, None, s)
      | Some parent \<Rightarrow>
          (case find (\<lambda>i. pstate (proc s i) = PROC_STATE_ZOMBIE \<and> i \<noteq> parent) [0..<MAX_PROCESSES] of
             None \<Rightarrow> (-1, None, process_yield s)
           | Some child \<Rightarrow>
               (int_of_pid (pid (proc s child)), Some (exit_code (proc s child)),
                upd_proc child (\<lambda>r. r\<lparr>pstate := PROC_STATE_UNUSED, pid := 0\<rparr>) s)))"

definition sys_kill :: "u64 \<Rightarrow> sched \<Rightarrow> int \<times> sched" where
  "sys_kill pd s =
     (case process_get pd s of
        None \<Rightarrow> (-1, s)
      | Some p \<Rightarrow> (0, upd_proc p (\<lambda>r. r\<lparr>pstate := PROC_STATE_ZOMBIE\<rparr>) s))"

text \<open>
  A parent whose \<^verbatim>\<open>vm\<close> is null, or not the address of a space, makes \<^verbatim>\<open>vm_clone_space\<close> read what
  is no space: no result.
\<close>

definition sys_fork :: "u64 \<Rightarrow> 'x kernel \<Rightarrow> (int \<times> 'x kernel) option" where
  "sys_fork wrapper k =
     (case process_current (kn_sched k) of
        None \<Rightarrow> Some (-1, k)
      | Some parent \<Rightarrow>
          (let child_name = take (PROCESS_NAME_LEN - 7) (cstr (pname (proc (kn_sched k) parent))) @ ''_child''
           in Option.bind (process_create wrapper child_name 0 0 (kn_heap k) (kn_sched k)) (\<lambda>(child_pid, h, sc).
                let k = set_sched sc (set_heap h k)
                in if child_pid = 0 then Some (-1, k)
                   else
                     (let child = the (process_get child_pid sc)
                      in Option.bind (kn_spaces k (pvm (proc sc parent))) (\<lambda>space.
                         Option.bind (vm_clone_space space (kn_vms k)) (\<lambda>((ptr, dst), v).
                           let k = set_vms v k
                           in if ptr = 0 then Some (-1, k)
                              else
                                (let k = set_proc child (\<lambda>r. r\<lparr>pvm := ptr\<rparr>) (k\<lparr>kn_spaces := (kn_spaces k)(ptr \<mapsto> dst)\<rparr>)
                                 in Some (int_of_pid (pid (proc (kn_sched k) child)), k))))))))"

definition blank :: "char \<Rightarrow> bool" where
  "blank c \<longleftrightarrow> c = CHR '' '' \<or> c = CHR 0x09"

text \<open>The pointers \<^verbatim>\<open>argv\<close> into the path; each string runs on to the end of the path.\<close>

fun exec_argv :: "nat \<Rightarrow> string \<Rightarrow> string list" where
  "exec_argv 0 p = []"
| "exec_argv (Suc n) p =
     (let p = dropWhile blank p
      in if p = [] then [] else p # exec_argv n (dropWhile (\<lambda>c. \<not> blank c) p))"

definition sys_exec :: "'x env \<Rightarrow> string \<Rightarrow> 'x kernel \<Rightarrow> (int \<times> 'x kernel) option" where
  "sys_exec E path k =
     (case process_current (kn_sched k) of
        None \<Rightarrow> Some (-1, k)
      | Some c \<Rightarrow>
          (let argv = exec_argv 32 (cstr path);
               path_buf = take 255 (takeWhile (\<lambda>c. \<not> blank c) (cstr path));
               fd = ramfs_find path_buf (k_ram (kn_vfs k));
               file_size = ramfs_size fd (k_ram (kn_vfs k))
           in if fd < 0 \<or> file_size = 0 then Some (-1, k)
              else
                Option.bind (kmalloc (ucast file_size) (kn_heap k)) (\<lambda>(elf_data, h).
                  let k = set_heap h k
                  in if elf_data = 0 then Some (-1, k)
                     else
                       (let (read_bytes, bs) = ramfs_read fd file_size 0 (k_ram (kn_vfs k));
                            k = set_heap (h\<lparr>kh_mem := wr_bytes (kh_mem h) elf_data bs\<rparr>) k
                        in if read_bytes < 0 \<or> (word_of_int read_bytes :: u32) \<noteq> file_size
                           then map_option (\<lambda>h. (-1, set_heap h k)) (kfree elf_data (kn_heap k))
                           else
                             Option.bind (process_create_user (pname (proc (kn_sched k) c)) elf_data (ucast file_size) argv k)
                               (\<lambda>(new_pid, k).
                                 Option.bind (kfree elf_data (kn_heap k)) (\<lambda>h.
                                   let k = set_heap h k
                                   in if new_pid = 0 then Some (-1, k)
                                      else map_option (\<lambda>k. (0, k)) (process_exit E k)))))))"

section \<open>Files\<close>

definition sys_read :: "'x env \<Rightarrow> int \<Rightarrow> u32 \<Rightarrow> 'x vfs \<Rightarrow> (int \<times> u8 list \<times> 'x vfs) option" where
  "sys_read E fd count s = (if fd < 0 then Some (-1, [], s) else vfs_read E fd (ucast count) s)"

definition sys_write :: "'x env \<Rightarrow> int \<Rightarrow> u8 list \<Rightarrow> 'x vfs \<Rightarrow> (int \<times> 'x vfs) option" where
  "sys_write E fd buf s =
     (if fd = 1 \<or> fd = 2
      then Some (sint (of_nat (length buf) :: u32), s\<lparr>k_terminal := k_terminal s @ chars buf\<rparr>)
      else vfs_write E fd buf s)"

definition sys_open :: "'x env \<Rightarrow> string option \<Rightarrow> 'x vfs \<Rightarrow> (int \<times> 'x vfs) option" where
  "sys_open E name s = (case name of None \<Rightarrow> Some (-1, s) | Some n \<Rightarrow> vfs_open E n VFS_O_RDONLY s)"

definition sys_close :: "'x env \<Rightarrow> int \<Rightarrow> 'x vfs \<Rightarrow> (int \<times> 'x vfs) option" where
  "sys_close E fd s =
     (case process_current (k_sched s) of
        None \<Rightarrow> Some (-1, s)
      | Some c \<Rightarrow>
          (let a = fd_table (proc (k_sched s) c)
           in if a = 0 then Some (-1, s)
              else if fd < 0 \<or> fd \<ge> int VFS_MAX_FDS then Some (-1, s)
              else if fds (get_table (User_Table a) s) ! nat fd = None then Some (-1, s)
              else
                Option.bind (fd_table_close E (User_Table a) fd s) (\<lambda>(r, s).
                  if r < 0 then Some (-1, s) else Some (0, s))))"

definition sys_pipe :: "'x env \<Rightarrow> bool \<Rightarrow> 'x vfs \<Rightarrow> (int \<times> (int \<times> int) option \<times> 'x vfs) option" where
  "sys_pipe E null s = (if null then Some (-1, None, s) else vfs_pipe_create E s)"

definition sys_dup :: "int \<Rightarrow> 'x vfs \<Rightarrow> int \<times> 'x vfs" where
  "sys_dup fd s = vfs_dup fd s"

definition sys_dup2 :: "'x env \<Rightarrow> int \<Rightarrow> int \<Rightarrow> 'x vfs \<Rightarrow> (int \<times> 'x vfs) option" where
  "sys_dup2 E oldfd newfd s = vfs_dup2 E oldfd newfd s"

section \<open>Memory\<close>

definition sys_brk :: "u64 \<Rightarrow> 'x kernel \<Rightarrow> u64 \<times> 'x kernel" where
  "sys_brk addr k =
     (case current_space k of
        None \<Rightarrow> (-1, k)
      | Some space \<Rightarrow>
          if addr = 0 then (heap_end space, k)
          else if addr > heap_start space
          then (addr, k\<lparr>kn_spaces := (kn_spaces k)(process_current_vm (kn_sched k) \<mapsto> space\<lparr>heap_end := addr\<rparr>)\<rparr>)
          else (-1, k))"

definition page_count :: "u64 \<Rightarrow> u64" where
  "page_count sz = (sz + 4096 - 1) div 4096"

definition sys_mmap :: "u64 \<Rightarrow> u64 \<Rightarrow> 'x kernel \<Rightarrow> u64 \<times> 'x kernel" where
  "sys_mmap sz flags k =
     (case current_space k of
        None \<Rightarrow> (-1, k)
      | Some space \<Rightarrow>
          if sz = 0 then (-1, k)
          else
            (let (virt, space, pg) = vm_alloc_pages space (page_count sz) flags (kn_paging k);
                 k = (set_paging pg k)\<lparr>kn_spaces := (kn_spaces k)(process_current_vm (kn_sched k) \<mapsto> space)\<rparr>
             in (if virt \<noteq> 0 then virt else -1, k)))"

definition sys_munmap :: "u64 \<Rightarrow> u64 \<Rightarrow> 'x kernel \<Rightarrow> u64 \<times> 'x kernel" where
  "sys_munmap addr sz k =
     (case current_space k of
        None \<Rightarrow> (-1, k)
      | Some space \<Rightarrow>
          if sz = 0 then (-1, k)
          else (0, set_paging (vm_free_pages space addr (page_count sz) (kn_paging k)) k))"

section \<open>The dispatcher\<close>

text \<open>Strings and bytes of the calling process at an address.\<close>

record user_mem =
  u_string :: "u64 \<Rightarrow> string"
  u_bytes :: "u64 \<Rightarrow> nat \<Rightarrow> u8 list"

definition user_str :: "user_mem \<Rightarrow> u64 \<Rightarrow> string option" where
  "user_str U a = (if a = 0 then None else Some (u_string U a))"

definition arg_int :: "u64 \<Rightarrow> int" where "arg_int a = sint (ucast a :: u32)"
definition ret_int :: "int \<Rightarrow> u64" where "ret_int i = word_of_int i"
definition int_bytes :: "int \<Rightarrow> u8 list" where "int_bytes i = le_split 4 (word_of_int i :: u32)"

text \<open>The result: the value returned, what is stored at a user address, and the state.\<close>

type_synonym 'x sysret = "u64 \<times> (u64 \<times> u8 list) option \<times> 'x kernel"

definition on_sched :: "(sched \<Rightarrow> int \<times> sched) \<Rightarrow> 'x kernel \<Rightarrow> 'x sysret option" where
  "on_sched f k = (let (r, sc) = f (kn_sched k) in Some (ret_int r, None, set_sched sc k))"

definition on_vfs :: "('x vfs \<Rightarrow> (int \<times> 'x vfs) option) \<Rightarrow> 'x kernel \<Rightarrow> 'x sysret option" where
  "on_vfs f k = map_option (\<lambda>(r, v). (ret_int r, None, k\<lparr>kn_vfs := v\<rparr>)) (f (kn_vfs k))"

definition on_kernel :: "('x kernel \<Rightarrow> u64 \<times> 'x kernel) \<Rightarrow> 'x kernel \<Rightarrow> 'x sysret option" where
  "on_kernel f k = (let (r, k) = f k in Some (r, None, k))"

definition syscall_handler ::
  "'x env \<Rightarrow> u64 \<Rightarrow> user_mem \<Rightarrow> u64 \<Rightarrow> u64 \<Rightarrow> u64 \<Rightarrow> u64 \<Rightarrow> 'x kernel \<Rightarrow> 'x sysret option" where
  "syscall_handler E wrapper U num a1 a2 a3 k =
     (if num = 0 then on_sched sys_exit k
      else if num = 1 then
        map_option (\<lambda>(r, bs, v). (ret_int r, Some (a2, bs), k\<lparr>kn_vfs := v\<rparr>)) (sys_read E (arg_int a1) (ucast a3) (kn_vfs k))
      else if num = 2 then
        on_vfs (sys_write E (arg_int a1) (u_bytes U a2 (unat (ucast a3 :: u32)))) k
      else if num = 3 then on_vfs (sys_open E (user_str U a1)) k
      else if num = 4 then on_vfs (sys_close E (arg_int a1)) k
      else if num = 5 then map_option (\<lambda>(r, k). (ret_int r, None, k)) (sys_fork wrapper k)
      else if num = 6 then
        (case user_str U a1 of
           None \<Rightarrow> Some (ret_int (-1), None, k)
         | Some path \<Rightarrow> map_option (\<lambda>(r, k). (ret_int r, None, k)) (sys_exec E path k))
      else if num = 7 then
        (let (r, status, sc) = sys_wait (kn_sched k)
         in Some (ret_int r,
                  (if a1 = 0 then None else map_option (\<lambda>st. (a1, int_bytes st)) status),
                  set_sched sc k))
      else if num = 8 then on_sched sys_yield k
      else if num = 9 then on_sched (sys_sleep a1) k
      else if num = 10 then Some (ret_int (sys_getpid (kn_sched k)), None, k)
      else if num = 11 then on_sched (sys_kill a1) k
      else if num = 12 then on_kernel (sys_brk a1) k
      else if num = 13 then on_kernel (sys_mmap a2 a3) k
      else if num = 14 then on_kernel (sys_munmap a1 a2) k
      else if num = 15 then
        map_option (\<lambda>(r, fds, v).
            (ret_int r, map_option (\<lambda>(a, b). (a1, int_bytes a @ int_bytes b)) fds, k\<lparr>kn_vfs := v\<rparr>))
          (sys_pipe E (a1 = 0) (kn_vfs k))
      else if num = 16 then on_vfs (\<lambda>v. Some (sys_dup (arg_int a1) v)) k
      else if num = 17 then on_vfs (sys_dup2 E (arg_int a1) (arg_int a2)) k
      else Some (ret_int (-1), None, k))"

section \<open>Walking the ready queue\<close>

text \<open>\<open>nexts s xs nx\<close>: the processes \<open>xs\<close> are linked forwards and the last points to \<open>nx\<close>.\<close>

fun nexts :: "sched \<Rightarrow> nat list \<Rightarrow> nat option \<Rightarrow> bool" where
  "nexts s [] nx = True"
| "nexts s (x # xs) nx \<longleftrightarrow> pnext (proc s x) = (if xs = [] then nx else Some (hd xs)) \<and> nexts s xs nx"

lemma dll_nexts: "dll s pv xs nx \<Longrightarrow> nexts s xs nx"
  by (induction xs arbitrary: pv) auto

lemma nexts_cong:
  assumes "\<And>x. x \<in> set xs \<Longrightarrow> pnext (proc s x) = pnext (proc t x)"
  shows "nexts s xs nx = nexts t xs nx"
  using assms by (induction xs) auto

lemma runnable_count_nexts:
  "nexts s xs nx \<Longrightarrow>
     runnable_count_from s (if xs = [] then nx else Some (hd xs)) n = runnable_count_from s nx (n + int (length xs))"
proof (induction xs arbitrary: n)
  case (Cons x xs)
  then show ?case
    by (subst runnable_count_from.simps) (auto simp: algebra_simps split: if_splits)
qed simp

lemma runnable_count_loop:
  assumes "pnext (proc s p) = Some p"
  shows "runnable_count_from s (Some p) n = None"
proof -
  let ?P = "\<lambda>s' q n r. s' = s \<longrightarrow> q \<noteq> Some p"
  have "?P s' q n r" if "runnable_count_from s' q n = Some r" for s' q n r
  proof (rule runnable_count_from.raw_induct [where P = ?P, OF _ that], goal_cases)
    case (1 f s' q n r)
    then show ?case using assms by (auto split: option.splits)
  qed
  then show ?thesis by (cases "runnable_count_from s (Some p) n") auto
qed

text \<open>Adding a process that is on the queue already.\<close>

lemma scheduler_add_queued:
  assumes q: "rq s (xs @ p # ys)" and s': "s' = scheduler_add p s"
  shows "ready_queue s' = Some (hd (xs @ [p]))" "nexts s' xs (Some p)"
    "pnext (proc s' p) = (if ys = [] then Some p else None)"
proof -
  have len: "length (process_table s) = MAX_PROCESSES" and lt: "p < MAX_PROCESSES"
    and tail: "ready_queue_tail s = Some (if ys = [] then p else last ys)"
    and last: "ys \<noteq> [] \<Longrightarrow> last ys < MAX_PROCESSES"
    and d: "distinct (xs @ p # ys)" and dll: "dll s None xs (Some p)"
    using q by (auto simp: rq_def dll_append)
  have nx: "pnext (proc s' i) = (if Some i = ready_queue_tail s then Some p else if i = p then None else pnext (proc s i))" for i
    using len lt last tail by (auto simp: s' scheduler_add_def Let_def proc_upd_proc)
  show "ready_queue s' = Some (hd (xs @ [p]))"
    using q tail by (cases xs) (auto simp: rq_def s' scheduler_add_def Let_def)
  have "nexts s' xs (Some p) = nexts s xs (Some p)"
    using d tail by (intro nexts_cong) (auto simp: nx)
  then show "nexts s' xs (Some p)" using dll by (simp add: dll_nexts)
  show "pnext (proc s' p) = (if ys = [] then Some p else None)"
    using d tail by (auto simp: nx)
qed

lemma runnable_count_queued:
  assumes "rq s (xs @ p # ys)"
  shows "scheduler_runnable_count (scheduler_add p s) = (if ys = [] then None else Some (int (length xs) + 1))"
proof -
  define s' where "s' = scheduler_add p s"
  note add = scheduler_add_queued [OF assms s'_def]
  have "scheduler_runnable_count s' = runnable_count_from s' (Some p) (int (length xs))"
    using runnable_count_nexts [OF add(2), of 0] add(1)
    by (cases xs) (simp_all add: scheduler_runnable_count_def)
  moreover have "runnable_count_from s' (Some p) n = (if ys = [] then None else Some (n + 1))" for n
  proof (cases "ys = []")
    case True
    then show ?thesis using add(3) runnable_count_loop [of s' p] by simp
  next
    case False
    then have "runnable_count_from s' (Some p) n = runnable_count_from s' None (n + 1)"
      using add(3) runnable_count_from.simps [of s' "Some p" n] by simp
    also have "\<dots> = Some (n + 1)" using runnable_count_from.simps [of s' None "n + 1"] by simp
    finally show ?thesis using False by simp
  qed
  ultimately show ?thesis by (simp add: s'_def)
qed

section \<open>Killing, waiting and creating\<close>

lemma find_only:
  assumes "P i" "i \<in> set xs" "\<And>j. j \<in> set xs \<Longrightarrow> P j \<Longrightarrow> j = i"
  shows "find P xs = Some i"
proof (cases "find P xs")
  case None
  with assms(1,2) show ?thesis by (simp add: find_None_iff)
next
  case (Some j)
  then have "j \<in> set xs" "P j" by (auto simp: find_Some_iff)
  with Some show ?thesis using assms(3) by simp
qed

lemma first_index_only:
  assumes "i < length xs" "P (xs ! i)" "\<And>j. j < length xs \<Longrightarrow> P (xs ! j) \<Longrightarrow> j = i"
  shows "first_index P xs = Some i"
proof (cases "first_index P xs")
  case None
  with assms(1,2) show ?thesis by (simp add: first_index_None_iff)
next
  case (Some j)
  with first_index_SomeD [OF Some] show ?thesis using assms(3) by simp
qed

lemma kill_wait:
  assumes len: "length (process_table s) = MAX_PROCESSES" and cur: "current_process s = Some c" "c \<noteq> p"
    and get: "process_get pd s = Some p"
    and busy: "\<forall>r \<in> set (process_table s). pstate r \<noteq> PROC_STATE_UNUSED \<and> pstate r \<noteq> PROC_STATE_ZOMBIE"
  shows "snd (snd (sys_wait (snd (sys_kill pd s)))) =
      upd_proc p (\<lambda>r. r\<lparr>pstate := PROC_STATE_UNUSED, pid := 0\<rparr>) s"
    and "alloc_process (upd_proc p (\<lambda>r. r\<lparr>pstate := PROC_STATE_UNUSED, pid := 0\<rparr>) s) = Some p"
    and "fst (sys_wait (snd (sys_kill pd s))) = int_of_pid pd"
proof -
  have p: "p < MAX_PROCESSES" "pid (proc s p) = pd"
    using first_index_SomeD [OF get [unfolded process_get_def]] len by (simp_all add: proc_def)
  have st: "pstate (proc s i) \<noteq> PROC_STATE_UNUSED" "pstate (proc s i) \<noteq> PROC_STATE_ZOMBIE" if "i < MAX_PROCESSES" for i
    using busy len that by (simp_all add: proc_def)
  define s1 where "s1 = upd_proc p (\<lambda>r. r\<lparr>pstate := PROC_STATE_ZOMBIE\<rparr>) s"
  have kill: "snd (sys_kill pd s) = s1" by (simp add: sys_kill_def get s1_def)
  have f: "find (\<lambda>i. pstate (proc s1 i) = PROC_STATE_ZOMBIE \<and> i \<noteq> c) [0..<MAX_PROCESSES] = Some p"
    by (rule find_only) (use p len cur st in \<open>auto simp: s1_def proc_upd_proc simp del: upt_rec_numeral split: if_splits\<close>)
  show "snd (snd (sys_wait (snd (sys_kill pd s)))) = upd_proc p (\<lambda>r. r\<lparr>pstate := PROC_STATE_UNUSED, pid := 0\<rparr>) s"
    "fst (sys_wait (snd (sys_kill pd s))) = int_of_pid pd"
    unfolding kill using f cur p len
    by (simp_all del: upt_rec_numeral
        add: sys_wait_def process_current_def s1_def upd_proc_upd_proc proc_upd_proc)
  show "alloc_process (upd_proc p (\<lambda>r. r\<lparr>pstate := PROC_STATE_UNUSED, pid := 0\<rparr>) s) = Some p"
    unfolding alloc_process_def
    by (rule first_index_only)
      (use p len st in \<open>auto simp: upd_proc_def proc_def nth_list_update split: if_splits\<close>)
qed


section \<open>Witness\<close>

definition full_sched :: sched where
  "full_sched = scheduler_add 3 (scheduler_add 2 (scheduler_add 1
     \<lparr>process_table = (replicate 64 (named_process\<lparr>pid := 7, pstate := PROC_STATE_READY\<rparr>))
        [2 := named_process\<lparr>pid := 9, pstate := PROC_STATE_READY\<rparr>],
      ready_queue = None, ready_queue_tail = None, current_process = Some 0, schedule_needed = 0,
      time_slice_counter = 0, system_ticks = 0, next_pid = 65\<rparr>))"

lemma full_sched_facts:
  "rq full_sched ([1] @ 2 # [3])" "process_get 9 full_sched = Some 2" "current_process full_sched = Some 0" "next_pid full_sched = 65"
  "\<forall>r \<in> set (process_table full_sched). pstate r \<noteq> PROC_STATE_UNUSED \<and> pstate r \<noteq> PROC_STATE_ZOMBIE"
proof -
  show "process_get 9 full_sched = Some 2" by code_simp
  show "\<forall>r \<in> set (process_table full_sched). pstate r \<noteq> PROC_STATE_UNUSED \<and> pstate r \<noteq> PROC_STATE_ZOMBIE" by code_simp
  show "current_process full_sched = Some 0" "next_pid full_sched = 65" by (simp_all add: full_sched_def)
  have "rq \<lparr>process_table = (replicate 64 (named_process\<lparr>pid := 7, pstate := PROC_STATE_READY\<rparr>))
        [2 := named_process\<lparr>pid := 9, pstate := PROC_STATE_READY\<rparr>],
      ready_queue = None, ready_queue_tail = None, current_process = Some 0, schedule_needed = 0,
      time_slice_counter = 0, system_ticks = 0, next_pid = 65\<rparr> []" by (simp add: rq_def)
  then show "rq full_sched ([1] @ 2 # [3])"
    unfolding full_sched_def using rq_add [OF rq_add [OF rq_add], of _ "[]" 1 2 3] by simp
qed


end
