(* ===== verification/Spec2Isabelle.thy ===== *)
theory Spec2Isabelle
  imports Kstring Pmm Paging Kheap Scheduler Ramfs Pipe Hardware Vfile Vfs_Props Disk Ns Syscall
begin

text \<open>
  Verification of Plan 0 / OpenSYS.
\<close>

end
